(* ===== verification/Prelude.thy ===== *)
theory Prelude
  imports Main "HOL-Library.Word"
begin

text \<open>
  Shared types and generic facts of the development: Go bytes, strings and machine
  integers, the result of a Go call that may panic, codecs as locales, and the
  collections of simplification rules that the component theories fill.
\<close>

section \<open>Go values\<close>

text \<open>
  A Go \<^verbatim>\<open>[]byte\<close> and a Go \<^verbatim>\<open>string\<close> are both sequences of bytes, and the program
  converts between the two without change (\<^verbatim>\<open>string(rec.Key)\<close>, \<^verbatim>\<open>[]byte(group)\<close>).
  Both are \<open>bytes\<close> here; a nil slice and an empty one behave alike everywhere the
  program looks at them.  \<^verbatim>\<open>uint64\<close> and \<^verbatim>\<open>int64\<close> are both 64-bit words; \<open>sint\<close> reads
  the signed value.
\<close>

type_synonym byte = "8 word"
type_synonym bytes = "byte list"
type_synonym u32 = "32 word"
type_synonym u64 = "64 word"
type_synonym i64 = "64 word"

text \<open>The bytes of an ASCII string literal of the source.\<close>

definition lit :: "string \<Rightarrow> bytes" where
  "lit s = map of_char s"

text \<open>What a Go call does: it returns a value, or it panics.\<close>

datatype 'a go = Ret 'a | Panic

fun go_bind :: "'a go \<Rightarrow> ('a \<Rightarrow> 'b go) \<Rightarrow> 'b go" where
  "go_bind (Ret x) k = k x"
| "go_bind Panic k = Panic"

text \<open>The slice expression \<^verbatim>\<open>p[a:b]\<close> and the index expression \<^verbatim>\<open>p[i]\<close> with their bounds checks.\<close>

definition go_slice :: "'a list \<Rightarrow> nat \<Rightarrow> nat \<Rightarrow> 'a list go" where
  "go_slice p a b = (if a \<le> b \<and> b \<le> length p then Ret (take (b - a) (drop a p)) else Panic)"

definition go_index :: "'a list \<Rightarrow> nat \<Rightarrow> 'a go" where
  "go_index p i = (if i < length p then Ret (p ! i) else Panic)"

section \<open>Rule collections\<close>

named_theorems codec_simps \<open>lengths and round trips of the byte encodings\<close>
named_theorems file_simps \<open>effects of the operating system calls\<close>
named_theorems wal_simps \<open>effects of the log operations\<close>

section \<open>Lists and options\<close>

lemma take_append_eq_length [simp]: "n = length xs \<Longrightarrow> take n (xs @ ys) = xs"
  by simp

lemma drop_append_eq_length [simp]: "n = length xs \<Longrightarrow> drop n (xs @ ys) = ys"
  by simp

lemma length_lit [simp]: "length (lit s) = length s"
  by (simp add: lit_def)

lemma lit_Nil [simp]: "lit [] = []"
  by (simp add: lit_def)

lemma lit_eq_Nil [simp]: "lit s = [] \<longleftrightarrow> s = []"
  by (simp add: lit_def)

lemma go_slice_in [simp]:
  "a \<le> b \<Longrightarrow> b \<le> length p \<Longrightarrow> go_slice p a b = Ret (take (b - a) (drop a p))"
  by (simp add: go_slice_def)

lemma go_index_in [simp]: "i < length p \<Longrightarrow> go_index p i = Ret (p ! i)"
  by (simp add: go_index_def)

text \<open>A call that returns; the rules follow the structure of the call.\<close>

definition returns :: "'a go \<Rightarrow> bool" where
  "returns m \<longleftrightarrow> (\<exists>x. m = Ret x)"

lemma returns_Ret [simp, intro]: "returns (Ret x)"
  by (simp add: returns_def)

lemma returns_bind [intro]: "returns m \<Longrightarrow> (\<And>x. m = Ret x \<Longrightarrow> returns (k x)) \<Longrightarrow> returns (go_bind m k)"
  by (auto simp: returns_def)

lemma returns_slice [intro]: "a \<le> b \<Longrightarrow> b \<le> length p \<Longrightarrow> returns (go_slice p a b)"
  by simp

lemma returns_index [intro]: "i < length p \<Longrightarrow> returns (go_index p i)"
  by simp

lemma go_slice_length: "go_slice p a b = Ret s \<Longrightarrow> length s = b - a"
  by (auto simp: go_slice_def split: if_splits)

section \<open>Words\<close>

lemma unat_of_nat_32 [simp]: "n < 2 ^ 32 \<Longrightarrow> unat (of_nat n :: u32) = n"
  by (simp add: unat_of_nat take_bit_nat_eq_self)

lemma unat_of_nat_64 [simp]: "n < 2 ^ 64 \<Longrightarrow> unat (of_nat n :: u64) = n"
  by (simp add: unat_of_nat take_bit_nat_eq_self)

lemma sint_of_nat_64 [simp]:
  assumes "n < 2 ^ 63"
  shows "sint (of_nat n :: u64) = int n"
proof -
  have "unat (of_nat n :: u64) = n" using assms by simp
  with assms show ?thesis
    by (simp add: sint_uint signed_take_bit_eq_if_positive bit_iff_odd uint_nat take_bit_int_eq_self)
qed

lemma sint_small:
  assumes "unat w < 2 ^ 63"
  shows "sint (w :: u64) = int (unat w)"
  using sint_of_nat_64 [OF assms] by simp

lemma sint_large:
  assumes "2 ^ 63 \<le> unat w"
  shows "sint (w :: u64) < 0"
proof -
  have "unat w < 2 ^ 64" using unsigned_less [of w] by simp
  with assms have "unat w div 2 ^ 63 = 1" by (intro div_nat_eqI) simp_all
  then have "bit (unat w) 63" by (simp add: bit_iff_odd)
  then have "bit w 63" by (simp add: bit_simps)
  then show ?thesis using bit_last_iff [of w] by simp
qed

lemma unat_minus_1: "w \<noteq> 0 \<Longrightarrow> unat (w - 1) = unat w - 1" for w :: u64
  by (simp add: unat_sub_if' unat_gt_0 Suc_leI)

section \<open>Codecs\<close>

text \<open>
  A codec turns the values that satisfy \<open>ok\<close> into bytes and back.  A stream codec
  also finds the end of its own encoding in a longer input, and hands the rest back;
  decoding a concatenation of encodings then gives back the values in order.
\<close>

locale codec =
  fixes enc :: "'a \<Rightarrow> bytes"
    and dec :: "bytes \<Rightarrow> 'a option"
    and ok :: "'a \<Rightarrow> bool"
  assumes dec_enc: "ok x \<Longrightarrow> dec (enc x) = Some x"
begin

lemma enc_inj:
  assumes "ok x" and "ok y" and eq: "enc x = enc y"
  shows "x = y"
proof -
  have "Some x = dec (enc y)" using dec_enc [OF assms(1)] by (simp only: eq)
  also have "\<dots> = Some y" by (rule dec_enc [OF assms(2)])
  finally show ?thesis by simp
qed

end

locale stream_codec =
  fixes enc :: "'a \<Rightarrow> bytes"
    and dec :: "bytes \<Rightarrow> ('a \<times> bytes) option"
    and ok :: "'a \<Rightarrow> bool"
  assumes dec_enc_rest: "ok x \<Longrightarrow> dec (enc x @ rest) = Some (x, rest)"

sublocale stream_codec \<subseteq> whole: codec enc "\<lambda>bs. map_option fst (dec bs)" ok
proof
  fix x assume "ok x"
  then show "map_option fst (dec (enc x)) = Some x"
    using dec_enc_rest [of x "[]"] by simp
qed

context stream_codec
begin

text \<open>No encoding is a proper prefix of another one.\<close>

lemma prefix_free:
  assumes "ok x" and "ok y" and eq: "enc x @ r = enc y @ s"
  shows "x = y \<and> r = s"
proof -
  have "Some (x, r) = dec (enc y @ s)" using dec_enc_rest [OF assms(1)] by (simp only: eq [symmetric])
  also have "\<dots> = Some (y, s)" by (rule dec_enc_rest [OF assms(2)])
  finally show ?thesis by simp
qed

end

end
