(* ===== verification/GoBinary.thy ===== *)
theory GoBinary
  imports Prelude
begin

text \<open>
  The little-endian integers of \<^verbatim>\<open>encoding/binary\<close>: \<^verbatim>\<open>PutUint32\<close>, \<^verbatim>\<open>PutUint64\<close>,
  \<^verbatim>\<open>Uint32\<close> and \<^verbatim>\<open>Uint64\<close>.  The readers look at the first four or eight bytes only and
  panic on a shorter slice.
\<close>

unbundle bit_operations_syntax

definition PutUint32 :: "u32 \<Rightarrow> bytes" where
  "PutUint32 v = [ucast v, ucast (drop_bit 8 v), ucast (drop_bit 16 v), ucast (drop_bit 24 v)]"

definition PutUint64 :: "u64 \<Rightarrow> bytes" where
  "PutUint64 v =
     [ucast v, ucast (drop_bit 8 v), ucast (drop_bit 16 v), ucast (drop_bit 24 v),
      ucast (drop_bit 32 v), ucast (drop_bit 40 v), ucast (drop_bit 48 v), ucast (drop_bit 56 v)]"

fun Uint32 :: "bytes \<Rightarrow> u32 go" where
  "Uint32 (b0 # b1 # b2 # b3 # _) =
     Ret (ucast b0 OR push_bit 8 (ucast b1) OR push_bit 16 (ucast b2) OR push_bit 24 (ucast b3))"
| "Uint32 _ = Panic"

fun Uint64 :: "bytes \<Rightarrow> u64 go" where
  "Uint64 (b0 # b1 # b2 # b3 # b4 # b5 # b6 # b7 # _) =
     Ret (ucast b0 OR push_bit 8 (ucast b1) OR push_bit 16 (ucast b2) OR push_bit 24 (ucast b3)
       OR push_bit 32 (ucast b4) OR push_bit 40 (ucast b5) OR push_bit 48 (ucast b6)
       OR push_bit 56 (ucast b7))"
| "Uint64 _ = Panic"

lemma length_PutUint32 [simp, codec_simps]: "length (PutUint32 v) = 4"
  by (simp add: PutUint32_def)

lemma length_PutUint64 [simp, codec_simps]: "length (PutUint64 v) = 8"
  by (simp add: PutUint64_def)

lemma Uint32_PutUint32 [simp, codec_simps]: "Uint32 (PutUint32 v @ rest) = Ret v"
proof -
  have "ucast (ucast v :: byte) OR push_bit 8 (ucast (ucast (drop_bit 8 v) :: byte))
     OR push_bit 16 (ucast (ucast (drop_bit 16 v) :: byte))
     OR push_bit 24 (ucast (ucast (drop_bit 24 v) :: byte)) = v" (is "?w = v")
  proof (rule bit_word_eqI)
    fix n :: nat
    consider "n < 8" | "8 \<le> n" "n < 16" | "16 \<le> n" "n < 24" | "24 \<le> n" by linarith
    then show "bit (?w) n \<longleftrightarrow> bit v n" if "n < LENGTH(32)"
      using that by cases (simp_all add: bit_simps less_diff_conv2)
  qed
  then show ?thesis by (simp add: PutUint32_def)
qed

lemma Uint64_PutUint64 [simp, codec_simps]: "Uint64 (PutUint64 v @ rest) = Ret v"
proof -
  have "ucast (ucast v :: byte) OR push_bit 8 (ucast (ucast (drop_bit 8 v) :: byte))
     OR push_bit 16 (ucast (ucast (drop_bit 16 v) :: byte))
     OR push_bit 24 (ucast (ucast (drop_bit 24 v) :: byte))
     OR push_bit 32 (ucast (ucast (drop_bit 32 v) :: byte))
     OR push_bit 40 (ucast (ucast (drop_bit 40 v) :: byte))
     OR push_bit 48 (ucast (ucast (drop_bit 48 v) :: byte))
     OR push_bit 56 (ucast (ucast (drop_bit 56 v) :: byte)) = v" (is "?w = v")
  proof (rule bit_word_eqI)
    fix n :: nat
    consider "n < 8" | "8 \<le> n" "n < 16" | "16 \<le> n" "n < 24" | "24 \<le> n" "n < 32"
      | "32 \<le> n" "n < 40" | "40 \<le> n" "n < 48" | "48 \<le> n" "n < 56" | "56 \<le> n" by linarith
    then show "bit (?w) n \<longleftrightarrow> bit v n" if "n < LENGTH(64)"
      using that by cases (simp_all add: bit_simps less_diff_conv2)
  qed
  then show ?thesis by (simp add: PutUint64_def)
qed

lemma Uint32_PutUint32_all [simp, codec_simps]: "Uint32 (PutUint32 v) = Ret v"
  using Uint32_PutUint32 [of v "[]"] by simp

lemma Uint64_PutUint64_all [simp, codec_simps]: "Uint64 (PutUint64 v) = Ret v"
  using Uint64_PutUint64 [of v "[]"] by simp

interpretation le32: codec PutUint32 "\<lambda>bs. case Uint32 bs of Ret v \<Rightarrow> Some v | Panic \<Rightarrow> None" "\<lambda>_. True"
  by unfold_locales simp

interpretation le64: codec PutUint64 "\<lambda>bs. case Uint64 bs of Ret v \<Rightarrow> Some v | Panic \<Rightarrow> None" "\<lambda>_. True"
  by unfold_locales simp

text \<open>Four bytes are the encoding of the value they decode to.\<close>

lemma byte_high: "8 \<le> m \<Longrightarrow> \<not> bit (b :: byte) m"
  using bit_imp_le_length [of b m] by auto

lemma PutUint32_Uint32:
  assumes "length bs = 4" and "Uint32 bs = Ret v"
  shows "PutUint32 v = bs"
proof -
  obtain b0 b1 b2 b3 where bs: "bs = [b0, b1, b2, b3]"
    using assms(1) by (auto simp: numeral_eq_Suc length_Suc_conv)
  with assms(2) have v: "v = ucast b0 OR push_bit 8 (ucast b1) OR push_bit 16 (ucast b2) OR push_bit 24 (ucast b3)"
    by simp
  have "ucast v = b0"
    by (rule bit_word_eqI) (simp add: v bit_simps)
  moreover have "ucast (drop_bit 8 v) = b1" "ucast (drop_bit 16 v) = b2" "ucast (drop_bit 24 v) = b3"
    by (rule bit_word_eqI, simp add: v bit_simps byte_high)+
  ultimately show ?thesis by (simp add: PutUint32_def bs)
qed

text \<open>The readers are total on slices that are long enough.\<close>

lemma Uint32_long: "4 \<le> length bs \<Longrightarrow> \<exists>v. Uint32 bs = Ret v"
  by (auto simp: numeral_eq_Suc Suc_le_length_iff)

lemma Uint64_long: "8 \<le> length bs \<Longrightarrow> \<exists>v. Uint64 bs = Ret v"
  by (auto simp: numeral_eq_Suc Suc_le_length_iff)

lemma returns_Uint32_slice [intro]:
  "b = a + 4 \<Longrightarrow> b \<le> length p \<Longrightarrow> returns (go_bind (go_slice p a b) Uint32)"
  using Uint32_long [of "take 4 (drop a p)"] by (auto simp: returns_def)

lemma returns_Uint64_slice [intro]:
  "b = a + 8 \<Longrightarrow> b \<le> length p \<Longrightarrow> returns (go_bind (go_slice p a b) Uint64)"
  using Uint64_long [of "take 8 (drop a p)"] by (auto simp: returns_def)

lemma Uint64_short: "length bs < 8 \<Longrightarrow> Uint64 bs = Panic"
  by (cases bs rule: Uint64.cases) auto

lemma Uint32_take: "4 \<le> n \<Longrightarrow> Uint32 (take n bs) = Uint32 bs"
  by (cases bs rule: Uint32.cases) (auto simp: numeral_eq_Suc take_Cons' split: nat.splits)

end
