(* ===== verification/GoCrc32.thy ===== *)
theory GoCrc32
  imports Prelude
begin

text \<open>
  \<^verbatim>\<open>crc32.ChecksumIEEE\<close> of \<^verbatim>\<open>hash/crc32\<close>: the table-driven reflected CRC-32 with the IEEE
  polynomial, and the fact the log relies on: changing one byte of the input always
  changes the checksum.
\<close>

unbundle bit_operations_syntax

definition IEEE :: u32 where
  "IEEE = 0xedb88320"

text \<open>One step of \<^verbatim>\<open>simplePopulateTable\<close> and a table entry.\<close>

definition crc_bit :: "u32 \<Rightarrow> u32" where
  "crc_bit c = (if c AND 1 = 1 then drop_bit 1 c XOR IEEE else drop_bit 1 c)"

definition crc_table :: "byte \<Rightarrow> u32" where
  "crc_table i = (crc_bit ^^ 8) (ucast i)"

text \<open>\<^verbatim>\<open>simpleUpdate\<close> and \<^verbatim>\<open>ChecksumIEEE\<close>.\<close>

definition crc_byte :: "byte \<Rightarrow> u32 \<Rightarrow> u32" where
  "crc_byte v crc = crc_table (ucast crc XOR v) XOR drop_bit 8 crc"

definition ChecksumIEEE :: "bytes \<Rightarrow> u32" where
  "ChecksumIEEE p = NOT (fold crc_byte p (NOT 0))"

text \<open>A table entry is eight rounds; the check value of the CRC-32 catalogue follows.\<close>

lemma crc_table_unfold:
  "crc_table i = crc_bit (crc_bit (crc_bit (crc_bit (crc_bit (crc_bit (crc_bit (crc_bit (ucast i))))))))"
  by (simp add: crc_table_def numeral_eq_Suc)

lemma ChecksumIEEE_eval: "ChecksumIEEE p = NOT (fold crc_byte p 0xffffffff)"
proof -
  have "NOT 0 = (0xffffffff :: u32)" by simp
  then show ?thesis by (simp only: ChecksumIEEE_def)
qed

lemmas crc_eval = ChecksumIEEE_eval crc_byte_def crc_table_unfold crc_bit_def IEEE_def

lemma ChecksumIEEE_check: "ChecksumIEEE (lit ''123456789'') = 0xcbf43926"
  by (simp add: lit_def crc_eval)

section \<open>Linearity\<close>

lemma xor_right_cancel: "a XOR c = b XOR c \<longleftrightarrow> a = b" for a b c :: "'a::len word"
proof
  assume "a XOR c = b XOR c"
  then have "(a XOR c) XOR c = (b XOR c) XOR c" by simp
  then show "a = b" by (simp add: xor.assoc)
qed simp

lemma crc_bit_alt: "crc_bit c = drop_bit 1 c XOR (if bit c 0 then IEEE else 0)"
proof -
  have "c AND 1 = 1 \<longleftrightarrow> bit c 0"
    by (simp add: and_one_eq bit_0 odd_iff_mod_2_eq_one)
  then show ?thesis by (simp add: crc_bit_def)
qed

lemma crc_bit_xor: "crc_bit (a XOR b) = crc_bit a XOR crc_bit b"
  by (rule bit_word_eqI) (auto simp: crc_bit_alt bit_simps)

lemma crc_bits_xor: "(crc_bit ^^ n) (a XOR b) = (crc_bit ^^ n) a XOR (crc_bit ^^ n) b"
  by (induction n) (simp_all add: crc_bit_xor)

text \<open>Bits above the lowest eight are only shifted down by eight rounds.\<close>

lemma crc_bits_high:
  assumes "\<forall>i < n. \<not> bit c i"
  shows "(crc_bit ^^ n) c = drop_bit n c"
  using assms
proof (induction n)
  case (Suc n)
  then have IH: "(crc_bit ^^ n) c = drop_bit n c" by simp
  have "\<not> bit (drop_bit n c) 0"
    using Suc.prems by (simp add: bit_simps)
  then have "crc_bit (drop_bit n c) = drop_bit 1 (drop_bit n c)"
    by (simp add: crc_bit_alt)
  then show ?case by (simp add: IH)
qed simp

lemma crc_byte_rounds: "crc_byte v crc = (crc_bit ^^ 8) (crc XOR ucast v)"
proof -
  let ?lo = "ucast (ucast crc XOR v :: byte) :: u32"
  let ?hi = "push_bit 8 (drop_bit 8 crc) :: u32"
  have split: "crc XOR ucast v = ?lo XOR ?hi"
    by (rule bit_word_eqI) (auto simp: bit_simps)
  have "(crc_bit ^^ 8) ?hi = drop_bit 8 ?hi"
    by (rule crc_bits_high) (simp add: bit_simps)
  also have "\<dots> = drop_bit 8 crc"
    by (rule bit_word_eqI) (auto simp: bit_simps dest: bit_imp_le_length)
  finally show ?thesis
    by (simp add: crc_byte_def crc_table_def split crc_bits_xor)
qed

section \<open>Injectivity\<close>

text \<open>The top bit of the polynomial is set, so a round tells which branch it took.\<close>

lemma crc_bit_top: "bit (crc_bit c) 31 \<longleftrightarrow> bit c 0"
  using bit_imp_le_length [of c 32] by (auto simp: crc_bit_alt IEEE_def bit_simps)

lemma crc_bit_inj: "crc_bit a = crc_bit b \<Longrightarrow> a = b"
proof (rule bit_word_eqI)
  fix n :: nat
  assume eq: "crc_bit a = crc_bit b" and n: "n < LENGTH(32)"
  have low: "bit a 0 = bit b 0" using crc_bit_top eq by metis
  have "drop_bit 1 a XOR (if bit b 0 then IEEE else 0) = drop_bit 1 b XOR (if bit b 0 then IEEE else 0)"
    using eq low by (simp add: crc_bit_alt)
  then have "drop_bit 1 a = drop_bit 1 b" by (simp only: xor_right_cancel)
  then have "bit (drop_bit 1 a) m = bit (drop_bit 1 b) m" for m by simp
  then show "bit a n \<longleftrightarrow> bit b n"
    using low by (cases n) (simp_all add: bit_drop_bit_eq)
qed

lemma crc_bits_inj: "(crc_bit ^^ n) a = (crc_bit ^^ n) b \<Longrightarrow> a = b"
  by (induction n) (auto dest: crc_bit_inj)

lemma crc_byte_inj_state: "crc_byte v a = crc_byte v b \<Longrightarrow> a = b"
  unfolding crc_byte_rounds
  by (drule crc_bits_inj) (simp only: xor_right_cancel)

lemma crc_byte_inj_input: "crc_byte v a = crc_byte w a \<Longrightarrow> v = w"
proof -
  assume "crc_byte v a = crc_byte w a"
  then have "a XOR ucast v = a XOR ucast w"
    unfolding crc_byte_rounds by (rule crc_bits_inj)
  then have "(ucast v :: u32) = ucast w"
    by (simp only: xor_right_cancel xor.commute [of a])
  then have eq: "bit (ucast v :: u32) n = bit (ucast w :: u32) n" for n by simp
  have "bit v n = bit w n" if "n < 8" for n
    using that eq [of n] by (simp add: bit_simps)
  then show "v = w" by (intro bit_word_eqI) simp
qed

lemma crc_fold_inj: "fold crc_byte p a = fold crc_byte p b \<Longrightarrow> a = b"
  by (induction p arbitrary: a b) (auto dest: crc_byte_inj_state)

text \<open>Changing one byte changes the checksum.\<close>

lemma ChecksumIEEE_one_byte:
  assumes "v \<noteq> w"
  shows "ChecksumIEEE (pre @ v # post) \<noteq> ChecksumIEEE (pre @ w # post)"
proof
  assume "ChecksumIEEE (pre @ v # post) = ChecksumIEEE (pre @ w # post)"
  then have "crc_byte v (fold crc_byte pre (NOT 0)) = crc_byte w (fold crc_byte pre (NOT 0))"
    by (auto simp: ChecksumIEEE_def dest: crc_fold_inj)
  then show False using assms crc_byte_inj_input by blast
qed

end
