(* ===== verification/GoFile.thy ===== *)
theory GoFile
  imports Prelude
begin

text \<open>
  What the program uses of \<^verbatim>\<open>os.File\<close>, \<^verbatim>\<open>io.ReadFull\<close> and \<^verbatim>\<open>bufio\<close>.  A file has the
  content that readers see, and the length of the prefix that is on stable storage
  (what \<^verbatim>\<open>Sync\<close> advances).  Every system call takes its outcome from a script of
  faults, so a failure can strike at any call; an empty script means that every call
  succeeds.
\<close>

datatype os_error = EIO | ENOENT | EClosed

text \<open>
  The outcome of one system call: success; a failure after some number of bytes was
  transferred; or the failure that \<^verbatim>\<open>os.IsNotExist\<close> recognises.
\<close>

datatype fault = FOk | FErr nat | FNotExist

record osfile =
  content :: bytes
  durable :: nat
  closed :: bool
  faults :: "fault list"

text \<open>The outcome of the next call on the file: \<open>None\<close>, or the bytes transferred and the error.\<close>

definition syscall :: "osfile \<Rightarrow> (nat \<times> os_error) option \<times> osfile" where
  "syscall f =
     (if closed f then (Some (0, EClosed), f)
      else case faults f of
        [] \<Rightarrow> (None, f)
      | FOk # fs \<Rightarrow> (None, f\<lparr>faults := fs\<rparr>)
      | FErr n # fs \<Rightarrow> (Some (n, EIO), f\<lparr>faults := fs\<rparr>)
      | FNotExist # fs \<Rightarrow> (Some (0, ENOENT), f\<lparr>faults := fs\<rparr>))"

section \<open>File operations\<close>

text \<open>The program writes at the end of the file only (\<^verbatim>\<open>Open\<close> seeks there).\<close>

definition file_Write :: "bytes \<Rightarrow> osfile \<Rightarrow> (nat \<times> os_error option) \<times> osfile" where
  "file_Write p f =
     (case syscall f of
        (None, f1) \<Rightarrow> ((length p, None), f1\<lparr>content := content f1 @ p\<rparr>)
      | (Some (n, e), f1) \<Rightarrow>
          (let m = min n (length p) in ((m, Some e), f1\<lparr>content := content f1 @ take m p\<rparr>)))"

definition file_Sync :: "osfile \<Rightarrow> os_error option \<times> osfile" where
  "file_Sync f =
     (case syscall f of
        (None, f1) \<Rightarrow> (None, f1\<lparr>durable := length (content f1)\<rparr>)
      | (Some (_, e), f1) \<Rightarrow> (Some e, f1))"

definition file_Truncate :: "nat \<Rightarrow> osfile \<Rightarrow> os_error option \<times> osfile" where
  "file_Truncate n f =
     (case syscall f of
        (None, f1) \<Rightarrow> (None, f1\<lparr>content := take n (content f1), durable := min n (durable f1)\<rparr>)
      | (Some (_, e), f1) \<Rightarrow> (Some e, f1))"

text \<open>\<^verbatim>\<open>Stat\<close> and \<^verbatim>\<open>Seek\<close> change nothing but may fail.\<close>

definition file_Stat :: "osfile \<Rightarrow> (os_error + nat) \<times> osfile" where
  "file_Stat f =
     (case syscall f of
        (None, f1) \<Rightarrow> (Inr (length (content f1)), f1)
      | (Some (_, e), f1) \<Rightarrow> (Inl e, f1))"

definition file_Seek :: "osfile \<Rightarrow> os_error option \<times> osfile" where
  "file_Seek f = (case syscall f of (r, f1) \<Rightarrow> (map_option snd r, f1))"

definition file_Close :: "osfile \<Rightarrow> os_error option \<times> osfile" where
  "file_Close f = (case syscall f of (r, f1) \<Rightarrow> (map_option snd r, f1\<lparr>closed := True\<rparr>))"

text \<open>
  \<^verbatim>\<open>os.Remove\<close> of a file nobody has open.  What is then at the path, for the next \<^verbatim>\<open>OpenFile\<close> with
  \<^verbatim>\<open>O_CREATE\<close>, is an empty file.
\<close>

definition os_Remove :: "osfile \<Rightarrow> os_error option \<times> osfile" where
  "os_Remove f =
     (case syscall (f\<lparr>closed := False\<rparr>) of
        (None, f1) \<Rightarrow> (None, f1\<lparr>content := [], durable := 0, closed := True\<rparr>)
      | (Some (_, e), f1) \<Rightarrow>
          (Some e, if e = ENOENT then f1\<lparr>content := [], durable := 0, closed := True\<rparr> else f1\<lparr>closed := True\<rparr>))"

lemmas file_defs = syscall_def file_Write_def file_Sync_def file_Truncate_def file_Stat_def
  file_Seek_def file_Close_def

text \<open>A healthy file: open, and no fault ahead.\<close>

definition healthy :: "osfile \<Rightarrow> bool" where
  "healthy f \<longleftrightarrow> \<not> closed f \<and> faults f = []"

lemma syscall_healthy [simp, file_simps]: "healthy f \<Longrightarrow> syscall f = (None, f)"
  by (simp add: healthy_def syscall_def)

lemma healthy_update [simp, file_simps]:
  "healthy (f\<lparr>content := c\<rparr>) = healthy f" "healthy (f\<lparr>durable := d\<rparr>) = healthy f"
  by (simp_all add: healthy_def)

lemma syscall_frame:
  "syscall f = (r, f1) \<Longrightarrow> content f1 = content f \<and> durable f1 = durable f \<and> closed f1 = closed f"
  by (auto simp: syscall_def split: if_splits list.splits fault.splits)

lemma file_Sync_effect:
  assumes "file_Sync f = (e, f1)"
  shows "content f1 = content f \<and> closed f1 = closed f
    \<and> durable f1 = (if e = None then length (content f) else durable f)"
  using assms by (auto simp: file_Sync_def split: prod.splits option.splits dest: syscall_frame)

section \<open>Readers\<close>

text \<open>
  A reader delivers its bytes and then either the end of the file or a read error.
  \<^verbatim>\<open>io.ReadFull\<close> of nothing succeeds; it reports \<^verbatim>\<open>EOF\<close> only if no byte was read.
\<close>

datatype read_error = EOF | UnexpectedEOF | ReadFail os_error

record reader =
  rd_bytes :: bytes
  rd_end :: "os_error option"

definition ReadFull :: "nat \<Rightarrow> reader \<Rightarrow> (read_error + bytes) \<times> reader" where
  "ReadFull n r =
     (if n \<le> length (rd_bytes r) then (Inr (take n (rd_bytes r)), r\<lparr>rd_bytes := drop n (rd_bytes r)\<rparr>)
      else (Inl (case rd_end r of
                   Some e \<Rightarrow> ReadFail e
                 | None \<Rightarrow> if rd_bytes r = [] then EOF else UnexpectedEOF),
            r\<lparr>rd_bytes := []\<rparr>))"

text \<open>A reader over the file from an offset; a fault makes the reads fail after some bytes.\<close>

definition file_reader :: "nat \<Rightarrow> osfile \<Rightarrow> reader \<times> osfile" where
  "file_reader off f =
     (case syscall f of
        (None, f1) \<Rightarrow> (\<lparr>rd_bytes = drop off (content f1), rd_end = None\<rparr>, f1)
      | (Some (n, e), f1) \<Rightarrow> (\<lparr>rd_bytes = take n (drop off (content f1)), rd_end = Some e\<rparr>, f1))"

text \<open>\<^verbatim>\<open>ReadAt\<close> of \<open>n\<close> bytes; fewer bytes before the end of the file are \<^verbatim>\<open>EOF\<close>.\<close>

definition file_ReadAt :: "nat \<Rightarrow> nat \<Rightarrow> osfile \<Rightarrow> (read_error + bytes) \<times> osfile" where
  "file_ReadAt n off f =
     (case syscall f of
        (None, f1) \<Rightarrow>
          (if off + n \<le> length (content f1) then Inr (take n (drop off (content f1))) else Inl EOF, f1)
      | (Some (_, e), f1) \<Rightarrow> (Inl (ReadFail e), f1))"

lemma file_reader_healthy [simp, file_simps]:
  "healthy f \<Longrightarrow> file_reader off f = (\<lparr>rd_bytes = drop off (content f), rd_end = None\<rparr>, f)"
  by (simp add: file_reader_def)

lemma file_reader_frame:
  "file_reader off f = (r, f1) \<Longrightarrow> content f1 = content f \<and> durable f1 = durable f \<and> closed f1 = closed f"
  by (auto simp: file_reader_def split: prod.splits option.splits dest: syscall_frame)

section \<open>The buffered writer\<close>

text \<open>
  \<^verbatim>\<open>bufio.Writer\<close> with its default buffer of 4096 bytes.  An error sticks: once a write
  to the file failed, every later \<^verbatim>\<open>Write\<close> and \<^verbatim>\<open>Flush\<close> returns that error.
\<close>

definition bufsize :: nat where
  "bufsize = 4096"

record bufw =
  wbuf :: bytes
  werr :: "os_error option"

definition NewWriter :: bufw where
  "NewWriter = \<lparr>wbuf = [], werr = None\<rparr>"

definition bufio_Flush :: "bufw \<Rightarrow> osfile \<Rightarrow> os_error option \<times> bufw \<times> osfile" where
  "bufio_Flush b f =
     (case werr b of
        Some e \<Rightarrow> (Some e, b, f)
      | None \<Rightarrow>
          (if wbuf b = [] then (None, b, f)
           else case file_Write (wbuf b) f of
               ((n, Some e), f1) \<Rightarrow> (Some e, \<lparr>wbuf = drop n (wbuf b), werr = Some e\<rparr>, f1)
             | ((n, None), f1) \<Rightarrow> (None, b\<lparr>wbuf := []\<rparr>, f1)))"

lemma bufio_Flush_shrinks:
  assumes "bufio_Flush b f = (e, b1, f1)" and "werr b = None"
  shows "werr b1 \<noteq> None \<or> wbuf b1 = []"
  using assms by (auto simp: bufio_Flush_def split: if_splits prod.splits option.splits)

function bufio_Write :: "bytes \<Rightarrow> bufw \<Rightarrow> osfile \<Rightarrow> os_error option \<times> bufw \<times> osfile" where
  "bufio_Write p b f =
     (if bufsize - length (wbuf b) < length p \<and> werr b = None then
        (if wbuf b = [] then
           (case file_Write p f of ((n, e), f1) \<Rightarrow> bufio_Write (drop n p) (b\<lparr>werr := e\<rparr>) f1)
         else
           (let n = bufsize - length (wbuf b) in
            case bufio_Flush (b\<lparr>wbuf := wbuf b @ take n p\<rparr>) f of
              (_, b1, f1) \<Rightarrow> bufio_Write (drop n p) b1 f1))
      else case werr b of
          Some e \<Rightarrow> (Some e, b, f)
        | None \<Rightarrow> (None, b\<lparr>wbuf := wbuf b @ p\<rparr>, f))"
  by pat_completeness auto

termination
  apply (relation "measure (\<lambda>(p, b, f). if werr b = None then Suc (length p + length (wbuf b)) else 0)")
    apply (auto simp: file_Write_def Let_def split: prod.splits option.splits
      dest!: bufio_Flush_shrinks [OF sym])
  subgoal for p b by (cases "wbuf b") simp_all
  done

declare bufio_Write.simps [simp del]

subsection \<open>What a flush and a write do to the file\<close>

lemma file_Write_effect:
  assumes "file_Write p f = ((n, e), f1)"
  shows "content f1 = content f @ take n p \<and> durable f1 = durable f \<and> closed f1 = closed f
    \<and> (e = None \<longrightarrow> n = length p)"
  using assms
  by (auto simp: file_Write_def Let_def split: prod.splits option.splits dest: syscall_frame)

text \<open>A flush moves the buffer to the file, or keeps the part that was not written and the error.\<close>

lemma bufio_Flush_effect:
  assumes "bufio_Flush b f = (e, b1, f1)"
  shows "content f1 @ wbuf b1 = content f @ wbuf b \<and> durable f1 = durable f \<and> closed f1 = closed f
    \<and> length (content f) \<le> length (content f1)
    \<and> werr b1 = e \<and> (werr b1 = None \<longrightarrow> werr b = None \<and> wbuf b1 = [])"
  using assms
  by (auto simp: bufio_Flush_def split: option.splits if_splits prod.splits dest!: file_Write_effect)

text \<open>
  A write extends the file by a prefix of the buffered and written bytes; the rest of
  them is in the buffer, unless an error occurred, which then sticks.
\<close>

lemma bufio_Write_effect:
  "bufio_Write p b f = (e, b1, f1) \<Longrightarrow> werr b = None \<Longrightarrow>
   \<exists>rest. content f1 @ rest = content f @ wbuf b @ p \<and> durable f1 = durable f \<and> closed f1 = closed f
     \<and> length (content f) \<le> length (content f1)
     \<and> werr b1 = e \<and> (e = None \<longrightarrow> rest = wbuf b1)"
proof (induction p b f rule: bufio_Write.induct)
  case (1 p b f)
  note unf = bufio_Write.simps [of p b f]
  let ?n = "bufsize - length (wbuf b)"
  have stuck: "bufio_Write q c g = (werr c, c, g)" if "werr c \<noteq> None" for q c g
    using that by (auto simp: bufio_Write.simps [of q c g])
  consider (fits) "length p \<le> ?n" | (direct) "?n < length p" "wbuf b = []"
    | (fill) "?n < length p" "wbuf b \<noteq> []" by linarith
  then show ?case
  proof cases
    case fits
    with "1.prems" show ?thesis by (auto simp: unf)
  next
    case direct
    obtain n e2 f2 where w: "file_Write p f = ((n, e2), f2)" by (metis prod.exhaust)
    with direct "1.prems" have rec: "bufio_Write (drop n p) (b\<lparr>werr := e2\<rparr>) f2 = (e, b1, f1)"
      by (simp add: unf)
    note eff = file_Write_effect [OF w]
    show ?thesis
    proof (cases e2)
      case None
      have "\<exists>rest. content f1 @ rest = content f2 @ drop n p \<and> durable f1 = durable f2
         \<and> closed f1 = closed f2 \<and> length (content f2) \<le> length (content f1) \<and> werr b1 = e \<and> (e = None \<longrightarrow> rest = wbuf b1)"
        using "1.IH"(1) [OF _ _ w [symmetric] refl rec] direct "1.prems" None by simp
      with eff direct None show ?thesis by auto
    next
      case (Some err)
      with rec stuck [of "b\<lparr>werr := e2\<rparr>"] have "e = Some err \<and> b1 = b\<lparr>werr := e2\<rparr> \<and> f1 = f2" by auto
      with eff direct Some show ?thesis by (auto intro: exI [of _ "drop n p"])
    qed
  next
    case fill
    obtain e2 b2 f2 where fl: "bufio_Flush (b\<lparr>wbuf := wbuf b @ take ?n p\<rparr>) f = (e2, b2, f2)"
      by (metis prod.exhaust)
    with fill "1.prems" have rec: "bufio_Write (drop ?n p) b2 f2 = (e, b1, f1)"
      by (simp add: unf Let_def)
    note eff = bufio_Flush_effect [OF fl]
    have whole: "content f2 @ wbuf b2 @ drop ?n p = content f @ wbuf b @ p"
      using eff by (simp flip: append_assoc) (simp add: append_assoc)
    show ?thesis
    proof (cases "werr b2")
      case None
      have "\<exists>rest. content f1 @ rest = content f2 @ wbuf b2 @ drop ?n p \<and> durable f1 = durable f2
         \<and> closed f1 = closed f2 \<and> length (content f2) \<le> length (content f1) \<and> werr b1 = e \<and> (e = None \<longrightarrow> rest = wbuf b1)"
        using "1.IH"(2) [OF _ _ refl fl [symmetric] refl rec] fill "1.prems" None by simp
      with eff whole show ?thesis by auto
    next
      case (Some err)
      with rec stuck [of b2] have "e = Some err \<and> b1 = b2 \<and> f1 = f2" by auto
      with eff whole Some show ?thesis by (auto intro: exI [of _ "wbuf b2 @ drop ?n p"])
    qed
  qed
qed

subsection \<open>On a healthy file\<close>

lemma file_Write_healthy [simp, file_simps]:
  "healthy f \<Longrightarrow> file_Write p f = ((length p, None), f\<lparr>content := content f @ p\<rparr>)"
  by (simp add: file_Write_def)

lemma file_Sync_healthy [simp, file_simps]:
  "healthy f \<Longrightarrow> file_Sync f = (None, f\<lparr>durable := length (content f)\<rparr>)"
  by (simp add: file_Sync_def)

lemma bufio_Flush_healthy [file_simps]:
  "healthy f \<Longrightarrow> werr b = None \<Longrightarrow>
   bufio_Flush b f = (None, b\<lparr>wbuf := []\<rparr>, f\<lparr>content := content f @ wbuf b\<rparr>)"
  by (simp add: bufio_Flush_def)

lemma bufio_Write_fits:
  "werr b = None \<Longrightarrow> length p \<le> bufsize - length (wbuf b) \<Longrightarrow>
   bufio_Write p b f = (None, b\<lparr>wbuf := wbuf b @ p\<rparr>, f)"
  by (simp add: bufio_Write.simps)

lemma bufio_Write_empty_healthy:
  assumes "healthy f" and "werr b = None" and "wbuf b = []"
  shows "\<exists>b1 f1. bufio_Write p b f = (None, b1, f1) \<and> healthy f1"
proof (cases "length p \<le> bufsize")
  case True
  with assms show ?thesis by (simp add: bufio_Write_fits)
next
  case False
  with assms have "bufio_Write p b f = bufio_Write [] (b\<lparr>werr := None\<rparr>) (f\<lparr>content := content f @ p\<rparr>)"
    by (simp add: bufio_Write.simps [of p b f])
  with assms show ?thesis by (simp add: bufio_Write_fits)
qed

lemma bufio_Write_healthy:
  assumes "healthy f" and "werr b = None"
  shows "\<exists>b1 f1. bufio_Write p b f = (None, b1, f1) \<and> healthy f1"
proof -
  let ?n = "bufsize - length (wbuf b)"
  consider "length p \<le> ?n" | "?n < length p" "wbuf b \<noteq> []" | "wbuf b = []" by linarith
  then show ?thesis
  proof cases
    case 2
    with assms have "bufio_Write p b f = bufio_Write (drop ?n p) (b\<lparr>wbuf := []\<rparr>)
        (f\<lparr>content := content f @ wbuf b @ take ?n p\<rparr>)"
      by (simp add: bufio_Write.simps [of p b f] bufio_Flush_healthy Let_def)
    with assms show ?thesis by (simp add: bufio_Write_empty_healthy)
  qed (use assms in \<open>simp_all add: bufio_Write_fits bufio_Write_empty_healthy\<close>)
qed

end
