(* ===== verification/WalFormat.thy ===== *)
theory WalFormat
  imports GoBinary GoCrc32 GoFile
begin

text \<open>
  The record format of \<^verbatim>\<open>internal/wal/wal.go\<close>: the record, its payload encoding and
  decoding, and \<^verbatim>\<open>readRecord\<close> over a reader.  Shown here: decoding never panics, a
  framed record reads back, a torn one is recognised as torn, and one changed payload
  byte is always a checksum error.
\<close>

section \<open>Records and errors\<close>

type_synonym RecordKind = byte

definition KindPut :: RecordKind where
  "KindPut = 1"

definition KindDelete :: RecordKind where
  "KindDelete = 2"

record Record =
  CommitPosition :: u64
  Kind :: RecordKind
  Key :: bytes
  Value :: bytes
  ExpiresAtUnixNano :: i64
  IdempotencyKey :: bytes

text \<open>The errors of the package, one constructor per \<^verbatim>\<open>fmt.Errorf\<close>.\<close>

datatype wal_error =
    PayloadTooShort
  | TruncatedKey
  | TruncatedValueLength
  | TruncatedValue
  | TruncatedExpiry
  | TruncatedIdempotencyKeyLength
  | TruncatedIdempotencyKey
  | ChecksumMismatch u32 u32
  | OpenFailed os_error
  | StatFailed os_error
  | WriteHeaderFailed os_error
  | SyncHeaderFailed os_error
  | ReadHeaderFailed read_error
  | BadMagic
  | UnsupportedVersion byte
  | SeekHeaderFailed os_error
  | TruncateTailFailed os_error
  | CorruptRecord nat wal_error
  | NonMonotonic nat u64 u64
  | ReplayFailed u64
  | SeekEndFailed os_error
  | WriteLengthFailed os_error
  | WriteBodyFailed os_error
  | FlushFailed os_error
  | FsyncFailed os_error
  | ReadRangeFailed u64 wal_error
  | CloseFailed os_error
  | RemoveFailed os_error

section \<open>The payload\<close>

definition encodePayload :: "Record \<Rightarrow> bytes" where
  "encodePayload rec =
     PutUint64 (CommitPosition rec) @ [Kind rec]
     @ PutUint32 (of_nat (length (Key rec))) @ Key rec
     @ PutUint32 (of_nat (length (Value rec))) @ Value rec
     @ PutUint64 (ExpiresAtUnixNano rec)
     @ PutUint32 (of_nat (length (IdempotencyKey rec))) @ IdempotencyKey rec"

definition decodePayload :: "bytes \<Rightarrow> (wal_error + Record) go" where
  "decodePayload p =
     (if length p < 8 + 1 + 4 then Ret (Inl PayloadTooShort)
      else go_bind (go_bind (go_slice p 0 8) Uint64) (\<lambda>pos.
        go_bind (go_index p 8) (\<lambda>kind.
        go_bind (go_bind (go_slice p 9 13) Uint32) (\<lambda>kl.
        let off = 13; keyLen = unat kl in
        if length p < off + keyLen then Ret (Inl TruncatedKey)
        else go_bind (go_slice p off (off + keyLen)) (\<lambda>key.
        let off = off + keyLen in
        if length p < off + 4 then Ret (Inl TruncatedValueLength)
        else go_bind (go_bind (go_slice p off (off + 4)) Uint32) (\<lambda>vl.
        let off = off + 4; valLen = unat vl in
        if length p < off + valLen then Ret (Inl TruncatedValue)
        else go_bind (go_slice p off (off + valLen)) (\<lambda>val.
        let off = off + valLen in
        if length p < off + 8 then Ret (Inl TruncatedExpiry)
        else go_bind (go_bind (go_slice p off (off + 8)) Uint64) (\<lambda>expiry.
        let off = off + 8 in
        if length p < off + 4 then Ret (Inl TruncatedIdempotencyKeyLength)
        else go_bind (go_bind (go_slice p off (off + 4)) Uint32) (\<lambda>il.
        let off = off + 4; idLen = unat il in
        if length p < off + idLen then Ret (Inl TruncatedIdempotencyKey)
        else go_bind (go_slice p off (off + idLen)) (\<lambda>idk.
          Ret (Inr \<lparr>CommitPosition = pos, Kind = kind, Key = key, Value = val,
                    ExpiresAtUnixNano = expiry, IdempotencyKey = idk\<rparr>)))))))))))"

section \<open>Framed records\<close>

text \<open>
  What \<^verbatim>\<open>Append\<close> writes for a record: the length of the body, and the body, which is the
  checksum of the payload and the payload.
\<close>

definition record_body :: "Record \<Rightarrow> bytes" where
  "record_body rec = (let payload = encodePayload rec in PutUint32 (ChecksumIEEE payload) @ payload)"

definition frame :: "Record \<Rightarrow> bytes" where
  "frame rec = PutUint32 (of_nat (length (record_body rec))) @ record_body rec"

text \<open>
  \<^verbatim>\<open>readRecord\<close>: the end of the file, a torn record, an error, or a record with the
  number of bytes it took.  That number is \<^verbatim>\<open>int64(4 + length)\<close>, computed in 32 bits.
  Any failure to read the four length bytes or the body counts as a torn record, a
  failing device included.
\<close>

datatype read_result = ReadEOF | ReadTorn | ReadErr wal_error | ReadOk Record nat

definition readBody :: "u32 \<Rightarrow> bytes \<Rightarrow> read_result go" where
  "readBody len body =
     (if length body < 4 then Ret ReadTorn
      else go_bind (go_bind (go_slice body 0 4) Uint32) (\<lambda>wantCRC.
        go_bind (go_slice body 4 (length body)) (\<lambda>payload.
        let gotCRC = ChecksumIEEE payload in
        if gotCRC \<noteq> wantCRC then Ret (ReadErr (ChecksumMismatch gotCRC wantCRC))
        else go_bind (decodePayload payload) (\<lambda>d.
          case d of Inl e \<Rightarrow> Ret (ReadErr e) | Inr rec \<Rightarrow> Ret (ReadOk rec (unat (4 + len)))))))"

definition readRecord :: "reader \<Rightarrow> read_result go \<times> reader" where
  "readRecord r =
     (case ReadFull 4 r of
        (Inl EOF, r1) \<Rightarrow> (Ret ReadEOF, r1)
      | (Inl _, r1) \<Rightarrow> (Ret ReadTorn, r1)
      | (Inr lenBuf, r1) \<Rightarrow>
          (case Uint32 lenBuf of
             Panic \<Rightarrow> (Panic, r1)
           | Ret len \<Rightarrow>
               (case ReadFull (unat len) r1 of
                  (Inl _, r2) \<Rightarrow> (Ret ReadTorn, r2)
                | (Inr body, r2) \<Rightarrow> (readBody len body, r2))))"

text \<open>A record whose frame length fits the 32-bit length arithmetic.\<close>

definition fits :: "Record \<Rightarrow> bool" where
  "fits rec \<longleftrightarrow> 37 + length (Key rec) + length (Value rec) + length (IdempotencyKey rec) < 2 ^ 32"

text \<open>A record for the examples.\<close>

definition sample_record :: Record where
  "sample_record = \<lparr>CommitPosition = 1, Kind = KindPut, Key = [0x6b], Value = [0x76],
     ExpiresAtUnixNano = 0, IdempotencyKey = []\<rparr>"

lemma sample_fits [simp]: "fits sample_record"
  by (simp add: fits_def sample_record_def)

section \<open>Lengths\<close>

lemma length_encodePayload [simp, codec_simps]:
  "length (encodePayload rec) =
     29 + length (Key rec) + length (Value rec) + length (IdempotencyKey rec)"
  by (simp add: encodePayload_def)

lemma length_record_body [simp, codec_simps]:
  "length (record_body rec) = 33 + length (Key rec) + length (Value rec) + length (IdempotencyKey rec)"
  by (simp add: record_body_def Let_def)

lemma length_frame [simp, codec_simps]:
  "length (frame rec) = 37 + length (Key rec) + length (Value rec) + length (IdempotencyKey rec)"
  by (simp add: frame_def)

section \<open>Decoding\<close>

lemma decodePayload_returns: "returns (decodePayload p)"
  unfolding decodePayload_def Let_def
  by (auto simp del: go_slice_in go_index_in
      intro!: returns_bind [OF returns_Uint64_slice] returns_bind [OF returns_Uint32_slice]
      returns_bind [OF returns_slice] returns_bind [OF returns_index])

text \<open>Decoding a payload that is given by its nine fields.\<close>

lemma decodePayload_fields:
  assumes "length ps = 8" "length ks = 1" "length kl = 4" "length vl = 4" "length es = 8" "length il = 4"
    and "Uint64 ps = Ret pos" "Uint32 kl = Ret k" "Uint32 vl = Ret v" "Uint64 es = Ret e" "Uint32 il = Ret i"
    and "unat k = length key" "unat v = length val" "unat i = length idk"
  shows "decodePayload (ps @ ks @ kl @ key @ vl @ val @ es @ il @ idk) =
    Ret (Inr \<lparr>CommitPosition = pos, Kind = ks ! 0, Key = key, Value = val,
              ExpiresAtUnixNano = e, IdempotencyKey = idk\<rparr>)"
  using assms by (simp add: decodePayload_def Let_def nth_append)

lemma decodePayload_encodePayload:
  assumes "fits rec"
  shows "decodePayload (encodePayload rec) = Ret (Inr rec)"
  unfolding encodePayload_def
  using assms by (subst decodePayload_fields) (auto simp: fits_def)

section \<open>Reading framed records\<close>

abbreviation reading :: "bytes \<Rightarrow> os_error option \<Rightarrow> reader" where
  "reading bs e \<equiv> \<lparr>rd_bytes = bs, rd_end = e\<rparr>"

lemma readRecord_body:
  assumes "length body < 2 ^ 32"
  shows "readRecord (reading (PutUint32 (of_nat (length body)) @ body @ rest) e) =
    (readBody (of_nat (length body)) body, reading rest e)"
  using assms by (simp add: readRecord_def ReadFull_def)

lemma readBody_checked:
  "readBody len (PutUint32 crc @ payload) =
     (if ChecksumIEEE payload \<noteq> crc then Ret (ReadErr (ChecksumMismatch (ChecksumIEEE payload) crc))
      else go_bind (decodePayload payload) (\<lambda>d.
        case d of Inl e \<Rightarrow> Ret (ReadErr e) | Inr rec \<Rightarrow> Ret (ReadOk rec (unat (4 + len)))))"
  by (simp add: readBody_def)

lemma frame_alt:
  "frame rec = PutUint32 (of_nat (length (record_body rec)))
     @ PutUint32 (ChecksumIEEE (encodePayload rec)) @ encodePayload rec"
  by (simp add: frame_def record_body_def Let_def)

text \<open>A framed record reads back, and takes exactly its frame.\<close>

lemma readRecord_frame:
  assumes "fits rec"
  shows "readRecord (reading (frame rec @ rest) e) =
    (Ret (ReadOk rec (length (frame rec))), reading rest e)"
proof -
  let ?len = "of_nat (length (record_body rec)) :: u32"
  have "unat (4 + ?len) = unat (of_nat (length (frame rec)) :: u32)"
    by (simp add: of_nat_add add.assoc)
  also have "\<dots> = length (frame rec)"
    using assms by (intro unat_of_nat_32) (simp add: fits_def)
  finally have "unat (4 + ?len) = length (frame rec)" .
  moreover have "readRecord (reading (frame rec @ rest) e) = (readBody ?len (record_body rec), reading rest e)"
    using assms readRecord_body [of "record_body rec" rest e] by (simp add: frame_def fits_def)
  moreover have "readBody ?len (record_body rec) = Ret (ReadOk rec (unat (4 + ?len)))"
    using assms by (simp only: record_body_def Let_def readBody_checked)
      (simp add: decodePayload_encodePayload)
  ultimately show ?thesis by simp
qed

text \<open>
  A proper prefix of a frame, at the end of the file, is a torn record; nothing at all is
  the end of the file.  If the device fails instead, both look torn.
\<close>

lemma readRecord_torn_body:
  assumes "length body < 2 ^ 32" and "k < 4 + length body"
  shows "fst (readRecord (reading (take k (PutUint32 (of_nat (length body)) @ body)) None)) =
    Ret (if k = 0 then ReadEOF else ReadTorn)"
proof (cases "k < 4")
  case True
  let ?bs = "take k (PutUint32 (of_nat (length body)) @ body)"
  have "length ?bs = k" using True by simp
  then have "?bs = [] \<longleftrightarrow> k = 0" by (metis length_0_conv)
  with \<open>length ?bs = k\<close> True show ?thesis by (simp add: readRecord_def ReadFull_def)
next
  case False
  with assms have "\<not> length body \<le> k - 4" by simp
  with False assms show ?thesis by (simp add: readRecord_def ReadFull_def min_def)
qed

lemma readRecord_torn:
  assumes "fits rec" and "k < length (frame rec)"
  shows "fst (readRecord (reading (take k (frame rec)) None)) = Ret (if k = 0 then ReadEOF else ReadTorn)"
  unfolding frame_def
  using assms by (intro readRecord_torn_body) (simp_all add: fits_def)

lemma readRecord_device_error:
  assumes "length bs < 4"
  shows "fst (readRecord (reading bs (Some e))) = Ret ReadTorn"
  using assms by (simp add: readRecord_def ReadFull_def)

text \<open>
  A changed byte anywhere after the length field of a frame is a checksum error: in the
  stored checksum, or in the payload, where the CRC tells the two payloads apart.
\<close>

lemma readBody_corrupt:
  assumes "i < length (record_body rec)" and "b \<noteq> record_body rec ! i"
  shows "\<exists>got want. readBody len ((record_body rec)[i := b]) = Ret (ReadErr (ChecksumMismatch got want))"
proof (cases "i < 4")
  case True
  let ?crc = "PutUint32 (ChecksumIEEE (encodePayload rec))"
  obtain want where want: "Uint32 (?crc[i := b]) = Ret want"
    using Uint32_long [of "?crc[i := b]"] by auto
  have body: "(record_body rec)[i := b] = PutUint32 want @ encodePayload rec"
    using True PutUint32_Uint32 [OF _ want] by (simp add: record_body_def Let_def list_update_append)
  have "PutUint32 want \<noteq> ?crc"
    using True PutUint32_Uint32 [OF _ want] assms
    by (auto simp: record_body_def Let_def nth_append dest: arg_cong [where f = "\<lambda>xs. xs ! i"])
  then have "ChecksumIEEE (encodePayload rec) \<noteq> want" by auto
  then show ?thesis by (simp add: body readBody_checked)
next
  case False
  let ?p = "encodePayload rec" and ?j = "i - 4"
  from False have body: "(record_body rec)[i := b] = PutUint32 (ChecksumIEEE ?p) @ ?p[?j := b]"
    by (simp add: record_body_def Let_def list_update_append)
  have j: "?j < length ?p" using assms(1) False by simp
  have "b \<noteq> ?p ! ?j"
    using assms(2) False by (simp add: record_body_def Let_def nth_append)
  then have "ChecksumIEEE (?p[?j := b]) \<noteq> ChecksumIEEE ?p"
    using ChecksumIEEE_one_byte [of b "?p ! ?j" "take ?j ?p" "drop (Suc ?j) ?p"] j
    by (simp add: upd_conv_take_nth_drop id_take_nth_drop [symmetric])
  then show ?thesis by (simp add: body readBody_checked)
qed

text \<open>Frames are a stream codec: no frame is a proper prefix of another one.\<close>

definition decode_frame :: "bytes \<Rightarrow> (Record \<times> bytes) option" where
  "decode_frame bs =
     (case readRecord (reading bs None) of
        (Ret (ReadOk rec n), r) \<Rightarrow> Some (rec, rd_bytes r)
      | _ \<Rightarrow> None)"

interpretation framing: stream_codec frame decode_frame fits
  by unfold_locales (simp add: decode_frame_def readRecord_frame)

interpretation payload: codec encodePayload
    "\<lambda>p. case decodePayload p of Ret (Inr rec) \<Rightarrow> Some rec | _ \<Rightarrow> None" fits
  by unfold_locales (simp add: decodePayload_encodePayload)

end
