(* ===== verification/Wal.thy ===== *)
theory Wal
  imports WalFormat
begin

text \<open>
  The log of \<^verbatim>\<open>internal/wal/wal.go\<close>: \<^verbatim>\<open>Open\<close> with \<^verbatim>\<open>ensureHeader\<close> and \<^verbatim>\<open>recover_\<close>, \<^verbatim>\<open>Append\<close>,
  \<^verbatim>\<open>ReadRange\<close>, \<^verbatim>\<open>LastCommitPosition\<close> and \<^verbatim>\<open>Close\<close>, over a file whose system calls can fail.
  \<^verbatim>\<open>Append\<close> is here the uncontended call, which finds no other leader; the interleaving of
  concurrent calls is in theory GroupCommit, on the same pieces.
\<close>

section \<open>State\<close>

definition walMagic :: bytes where
  "walMagic = [0x55, 0x44, 0x57, 0x4c]"

definition currentFormatVersion :: byte where
  "currentFormatVersion = 1"

definition headerSize :: nat where
  "headerSize = 5"

definition header :: bytes where
  "header = walMagic @ [currentFormatVersion]"

text \<open>
  \<^verbatim>\<open>next\<close> is \<open>next_pos\<close>, \<^verbatim>\<open>file\<close> is \<open>fd\<close> and the buffered writer \<^verbatim>\<open>w\<close> is \<open>wr\<close>.  File offsets and the group
  commit counters are natural numbers: they count bytes and records of one file.
\<close>

record wal =
  path :: bytes
  fd :: osfile
  wr :: bufw
  next_pos :: u64
  byteOffsets :: "nat list"
  pendingSeq :: nat
  flushedSeq :: nat
  flushErr :: "wal_error option"
  leading :: bool
  writeOffset :: nat

section \<open>Opening\<close>

definition ensureHeader :: "osfile \<Rightarrow> wal_error option \<times> osfile" where
  "ensureHeader f =
     (case file_Stat f of
        (Inl e, f1) \<Rightarrow> (Some (StatFailed e), f1)
      | (Inr sz, f1) \<Rightarrow>
          if sz = 0 then
            (case file_Write header f1 of
               ((_, Some e), f2) \<Rightarrow> (Some (WriteHeaderFailed e), f2)
             | ((_, None), f2) \<Rightarrow>
                 (case file_Sync f2 of
                    (Some e, f3) \<Rightarrow> (Some (SyncHeaderFailed e), f3)
                  | (None, f3) \<Rightarrow> (None, f3)))
          else
            (case file_ReadAt headerSize 0 f1 of
               (Inl e, f2) \<Rightarrow> (Some (ReadHeaderFailed e), f2)
             | (Inr h, f2) \<Rightarrow>
                 if take 4 h \<noteq> walMagic then (Some BadMagic, f2)
                 else if h ! 4 \<noteq> currentFormatVersion then (Some (UnsupportedVersion (h ! 4)), f2)
                 else (None, f2)))"

text \<open>
  The callback of \<^verbatim>\<open>Open\<close>: it may panic, return an error (\<open>None\<close>) or update the state of
  the caller.  The loop of \<^verbatim>\<open>recover_\<close> ends because every record it accepts took bytes off
  the reader.
\<close>

type_synonym 's replay = "Record \<Rightarrow> 's \<Rightarrow> 's option go"

lemma readRecord_shrinks:
  "readRecord r = (Ret (ReadOk rec n), r1) \<Longrightarrow> length (rd_bytes r1) < length (rd_bytes r)"
  by (auto simp: readRecord_def ReadFull_def split: if_splits go.splits option.splits)

function recover_loop :: "'s replay \<Rightarrow> reader \<Rightarrow> osfile \<Rightarrow> u64 \<Rightarrow> nat \<Rightarrow> nat list \<Rightarrow> 's
    \<Rightarrow> ((wal_error + u64 \<times> nat list) \<times> osfile \<times> 's) go" where
  "recover_loop replay r f next offset offs s =
     (case readRecord r of
        (Panic, _) \<Rightarrow> Panic
      | (Ret ReadEOF, _) \<Rightarrow> Ret (Inr (next, offs), f, s)
      | (Ret ReadTorn, _) \<Rightarrow>
          (case file_Truncate offset f of
             (Some e, f1) \<Rightarrow> Ret (Inl (TruncateTailFailed e), f1, s)
           | (None, f1) \<Rightarrow> Ret (Inr (next, offs), f1, s))
      | (Ret (ReadErr e), _) \<Rightarrow> Ret (Inl (CorruptRecord offset e), f, s)
      | (Ret (ReadOk rec n), r1) \<Rightarrow>
          if CommitPosition rec \<noteq> next then
            Ret (Inl (NonMonotonic offset (CommitPosition rec) next), f, s)
          else
            (case replay rec s of
               Panic \<Rightarrow> Panic
             | Ret None \<Rightarrow> Ret (Inl (ReplayFailed (CommitPosition rec)), f, s)
             | Ret (Some s1) \<Rightarrow>
                 recover_loop replay r1 f (next + 1) (offset + n) (offs @ [offset]) s1))"
  by pat_completeness auto
termination
  by (relation "measure (\<lambda>(_, r, _). length (rd_bytes r))") (auto dest!: readRecord_shrinks [OF sym])

declare recover_loop.simps [simp del]

definition wal_recover :: "'s replay \<Rightarrow> osfile \<Rightarrow> 's
    \<Rightarrow> ((wal_error + u64 \<times> nat list) \<times> osfile \<times> 's) go" where
  "wal_recover replay f s =
     (case file_Seek f of
        (Some e, f1) \<Rightarrow> Ret (Inl (SeekHeaderFailed e), f1, s)
      | (None, f1) \<Rightarrow>
          (case file_reader headerSize f1 of
             (r, f2) \<Rightarrow> recover_loop replay r f2 1 headerSize [] s))"

text \<open>
  \<^verbatim>\<open>Open\<close> on the file found at the path (an empty one if there was none).  On an error the
  file is closed and left as it is.
\<close>

definition wal_Open :: "bytes \<Rightarrow> osfile \<Rightarrow> 's replay \<Rightarrow> 's \<Rightarrow> ((wal_error \<times> osfile + wal) \<times> 's) go" where
  "wal_Open pth disk replay s =
     (case syscall (disk\<lparr>closed := False\<rparr>) of
        (Some (_, e), f1) \<Rightarrow> Ret (Inl (OpenFailed e, f1\<lparr>closed := True\<rparr>), s)
      | (None, f1) \<Rightarrow>
          (case ensureHeader f1 of
             (Some e, f2) \<Rightarrow> Ret (Inl (e, snd (file_Close f2)), s)
           | (None, f2) \<Rightarrow>
               go_bind (wal_recover replay f2 s) (\<lambda>(res, f3, s1).
                 case res of
                   Inl e \<Rightarrow> Ret (Inl (e, snd (file_Close f3)), s1)
                 | Inr (next, offs) \<Rightarrow>
                     (case file_Seek f3 of
                        (Some e, f4) \<Rightarrow> Ret (Inl (SeekEndFailed e, snd (file_Close f4)), s1)
                      | (None, f4) \<Rightarrow>
                          Ret (Inr \<lparr>path = pth, fd = f4, wr = NewWriter, next_pos = next,
                                    byteOffsets = offs, pendingSeq = 0, flushedSeq = 0, flushErr = None,
                                    leading = False, writeOffset = length (content f4)\<rparr>, s1)))))"

section \<open>Appending\<close>

text \<open>
  The part of \<^verbatim>\<open>Append\<close> before the group commit: assign the position, frame the record,
  hand the bytes to the buffered writer, note offset and sequence number.
\<close>

definition append_buffer :: "Record \<Rightarrow> wal \<Rightarrow> (wal_error + u64 \<times> nat) \<times> wal" where
  "append_buffer rec w =
     (let rec' = rec\<lparr>CommitPosition := next_pos w\<rparr>;
          w1 = w\<lparr>next_pos := next_pos w + 1\<rparr>;
          body = record_body rec';
          lenBuf = PutUint32 (of_nat (length body));
          recordOffset = writeOffset w1 in
      case bufio_Write lenBuf (wr w1) (fd w1) of
        (Some e, b, f) \<Rightarrow> (Inl (WriteLengthFailed e), w1\<lparr>wr := b, fd := f\<rparr>)
      | (None, b, f) \<Rightarrow>
          (case bufio_Write body b f of
             (Some e, b1, f1) \<Rightarrow> (Inl (WriteBodyFailed e), w1\<lparr>wr := b1, fd := f1\<rparr>)
           | (None, b1, f1) \<Rightarrow>
               (Inr (CommitPosition rec', pendingSeq w1 + 1),
                w1\<lparr>wr := b1, fd := f1,
                   writeOffset := writeOffset w1 + (length lenBuf + length body),
                   byteOffsets := byteOffsets w1 @ [recordOffset],
                   pendingSeq := pendingSeq w1 + 1\<rparr>)))"

text \<open>
  One round of the leader: \<^verbatim>\<open>Flush\<close> under the mutex, \<^verbatim>\<open>Sync\<close> without it, and the bookkeeping
  under the mutex again.
\<close>

definition lead_flush :: "wal \<Rightarrow> wal_error option \<times> wal" where
  "lead_flush w =
     (case bufio_Flush (wr w) (fd w) of
        (Some e, b, f) \<Rightarrow>
          (Some (FlushFailed e),
           w\<lparr>wr := b, fd := f, leading := False, flushErr := Some (FlushFailed e),
             flushedSeq := pendingSeq w\<rparr>)
      | (None, b, f) \<Rightarrow> (None, w\<lparr>wr := b, fd := f\<rparr>))"

definition lead_sync :: "wal \<Rightarrow> os_error option \<times> wal" where
  "lead_sync w = (case file_Sync (fd w) of (e, f) \<Rightarrow> (e, w\<lparr>fd := f\<rparr>))"

definition lead_synced :: "nat \<Rightarrow> os_error option \<Rightarrow> wal \<Rightarrow> wal_error option \<times> wal" where
  "lead_synced flushSeq syncErr w =
     (case syncErr of
        Some e \<Rightarrow>
          (Some (FsyncFailed e),
           w\<lparr>flushErr := Some (FsyncFailed e), flushedSeq := pendingSeq w, leading := False\<rparr>)
      | None \<Rightarrow> (None, w\<lparr>flushedSeq := flushSeq, flushErr := None\<rparr>))"

lemma lead_pendingSeq:
  "lead_flush w = (e, w1) \<Longrightarrow> pendingSeq w1 = pendingSeq w"
  "lead_sync w = (e', w1) \<Longrightarrow> pendingSeq w1 = pendingSeq w"
  "lead_synced k e' w = (e, w1) \<Longrightarrow> pendingSeq w1 = pendingSeq w"
  by (auto simp: lead_flush_def lead_sync_def lead_synced_def split: prod.splits option.splits)

text \<open>
  The leader loop.  When no other call buffers a record during the sync, the test at its
  end succeeds in the first round.
\<close>

function lead_loop :: "u64 \<Rightarrow> wal \<Rightarrow> (wal_error + u64) \<times> wal" where
  "lead_loop pos w =
     (let flushSeq = pendingSeq w in
      case lead_flush w of
        (Some e, w1) \<Rightarrow> (Inl e, w1)
      | (None, w1) \<Rightarrow>
          (case lead_sync w1 of
             (syncErr, w2) \<Rightarrow>
               (case lead_synced flushSeq syncErr w2 of
                  (Some e, w3) \<Rightarrow> (Inl e, w3)
                | (None, w3) \<Rightarrow>
                    if pendingSeq w3 = flushSeq then (Inr pos, w3\<lparr>leading := False\<rparr>)
                    else lead_loop pos w3)))"
  by pat_completeness auto
termination
  by (relation "{}") (auto dest!: lead_pendingSeq [OF sym])

declare lead_loop.simps [simp del]

definition wal_Append :: "Record \<Rightarrow> wal \<Rightarrow> (wal_error + u64) \<times> wal" where
  "wal_Append rec w =
     (case append_buffer rec w of
        (Inl e, w1) \<Rightarrow> (Inl e, w1)
      | (Inr (pos, mySeq), w1) \<Rightarrow> lead_loop pos (w1\<lparr>leading := True\<rparr>))"

section \<open>Reading\<close>

text \<open>
  \<^verbatim>\<open>ReadRange\<close>.  The limit is a Go \<^verbatim>\<open>int\<close>; \<^verbatim>\<open>int(from-1)\<close> reinterprets the 64 bits as signed,
  and the index expression \<^verbatim>\<open>w.byteOffsets[from-1]\<close> is bounds-checked on the unsigned value.
\<close>

fun read_range_loop :: "nat \<Rightarrow> u64 \<Rightarrow> reader \<Rightarrow> Record list \<Rightarrow> (Record list \<times> wal_error option) go" where
  "read_range_loop 0 pos r recs = Ret (recs, None)"
| "read_range_loop (Suc limit) pos r recs =
     (case readRecord r of
        (Panic, _) \<Rightarrow> Panic
      | (Ret ReadEOF, _) \<Rightarrow> Ret (recs, None)
      | (Ret ReadTorn, _) \<Rightarrow> Ret (recs, None)
      | (Ret (ReadErr e), _) \<Rightarrow> Ret (recs, Some (ReadRangeFailed pos e))
      | (Ret (ReadOk rec _), r1) \<Rightarrow> read_range_loop limit (pos + 1) r1 (recs @ [rec]))"

definition ReadRange :: "u64 \<Rightarrow> int \<Rightarrow> wal \<Rightarrow> ((Record list \<times> wal_error option) \<times> wal) go" where
  "ReadRange from limit w =
     (if from < 1 \<or> int (length (byteOffsets w)) \<le> sint (from - 1) \<or> limit \<le> 0
      then Ret (([], None), w)
      else go_bind (go_index (byteOffsets w) (unat (from - 1))) (\<lambda>startOffset.
        case file_Stat (fd w) of
          (Inl e, f1) \<Rightarrow> Ret (([], Some (StatFailed e)), w\<lparr>fd := f1\<rparr>)
        | (Inr sz, f1) \<Rightarrow>
            (case file_reader startOffset f1 of
               (r, f2) \<Rightarrow> go_bind (read_range_loop (nat limit) from r [])
                 (\<lambda>res. Ret (res, w\<lparr>fd := f2\<rparr>)))))"

definition LastCommitPosition :: "wal \<Rightarrow> u64" where
  "LastCommitPosition w = next_pos w - 1"

text \<open>\<^verbatim>\<open>Close\<close> of a log with no commit in flight.\<close>

definition wal_Close :: "wal \<Rightarrow> wal_error option \<times> wal" where
  "wal_Close w =
     (case bufio_Flush (wr w) (fd w) of
        (Some e, b, f) \<Rightarrow> (Some (CloseFailed e), w\<lparr>wr := b, fd := f\<rparr>)
      | (None, b, f) \<Rightarrow>
          (case file_Close f of
             (e, f1) \<Rightarrow> (map_option CloseFailed e, w\<lparr>wr := b, fd := f1\<rparr>)))"

end
