(* ===== verification/WalRecovery.thy ===== *)
theory WalRecovery
  imports Wal
begin

text \<open>
  What the log of theory Wal promises: the bytes of a list of records, recovery of that
  list by \<^verbatim>\<open>Open\<close>, truncation of a torn tail, and that no acknowledged record is lost in a
  crash, whatever system calls failed before.
\<close>

section \<open>The bytes of a list of records\<close>

definition log_bytes :: "Record list \<Rightarrow> bytes" where
  "log_bytes rs = header @ concat (map frame rs)"

text \<open>The commit positions are 1, 2, 3 and so on, and every record fits.\<close>

definition numbered :: "Record list \<Rightarrow> bool" where
  "numbered rs \<longleftrightarrow> (\<forall>i < length rs. CommitPosition (rs ! i) = of_nat (Suc i))"

definition well_formed :: "Record list \<Rightarrow> bool" where
  "well_formed rs \<longleftrightarrow> numbered rs \<and> (\<forall>r \<in> set rs. fits r)"

fun offsets_from :: "nat \<Rightarrow> Record list \<Rightarrow> nat list" where
  "offsets_from off [] = []"
| "offsets_from off (r # rs) = off # offsets_from (off + length (frame r)) rs"

lemma length_header [simp]: "length header = headerSize"
  by (simp add: header_def walMagic_def headerSize_def)

lemma log_bytes_Nil [simp]: "log_bytes [] = header"
  by (simp add: log_bytes_def)

lemma log_bytes_snoc [simp]: "log_bytes (rs @ [r]) = log_bytes rs @ frame r"
  by (simp add: log_bytes_def)

lemma length_log_bytes_take_mono:
  "m \<le> n \<Longrightarrow> length (log_bytes (take m rs)) \<le> length (log_bytes (take n rs))"
proof (induction n)
  case (Suc n)
  show ?case
  proof (cases "m \<le> n \<and> n < length rs")
    case True
    then have "log_bytes (take (Suc n) rs) = log_bytes (take n rs) @ frame (rs ! n)"
      by (simp add: take_Suc_conv_app_nth)
    with True Suc.IH show ?thesis by simp
  next
    case False
    then have "take (Suc n) rs = take n rs \<or> m = Suc n"
      using Suc.prems by auto
    with Suc show ?thesis by (metis le_SucE order_refl)
  qed
qed simp

lemma numbered_Nil [simp]: "numbered []"
  by (simp add: numbered_def)

lemma numbered_snoc: "numbered (rs @ [r]) \<longleftrightarrow> numbered rs \<and> CommitPosition r = of_nat (Suc (length rs))"
  by (auto simp: numbered_def nth_append less_Suc_eq)

lemma well_formed_Nil [simp]: "well_formed []"
  by (simp add: well_formed_def)

lemma well_formed_snoc:
  "well_formed (rs @ [r]) \<longleftrightarrow> well_formed rs \<and> fits r \<and> CommitPosition r = of_nat (Suc (length rs))"
  by (auto simp: well_formed_def numbered_snoc)

lemma well_formed_take: "well_formed rs \<Longrightarrow> well_formed (take m rs)"
  by (auto simp: well_formed_def numbered_def dest: in_set_takeD)

lemma offsets_from_append:
  "offsets_from off (xs @ ys) = offsets_from off xs @ offsets_from (off + length (concat (map frame xs))) ys"
  by (induction xs arbitrary: off) (auto simp: add.assoc)

lemma length_offsets_from [simp]: "length (offsets_from off rs) = length rs"
  by (induction rs arbitrary: off) auto

lemma nth_offsets_from:
  "i < length rs \<Longrightarrow> offsets_from off rs ! i = off + length (concat (map frame (take i rs)))"
  by (induction rs arbitrary: off i) (auto simp: nth_Cons' take_Cons' add.assoc)

text \<open>Every prefix of the log, past the header, is some whole records and part of the next one.\<close>

lemma take_frames:
  "\<exists>m j. take k (concat (map frame rs)) = concat (map frame (take m rs)) @ take j (frame (rs ! m))
     \<and> m \<le> length rs \<and> (m = length rs \<and> j = 0 \<or> m < length rs \<and> j < length (frame (rs ! m)))"
proof (induction rs arbitrary: k)
  case Nil
  show ?case by simp
next
  case (Cons r rs)
  show ?case
  proof (cases "k < length (frame r)")
    case True
    then show ?thesis by (intro exI [of _ 0] exI [of _ k]) simp
  next
    case False
    from Cons.IH [of "k - length (frame r)"] obtain m j where
      "take (k - length (frame r)) (concat (map frame rs)) = concat (map frame (take m rs)) @ take j (frame (rs ! m))"
      "m \<le> length rs" "m = length rs \<and> j = 0 \<or> m < length rs \<and> j < length (frame (rs ! m))"
      by blast
    with False show ?thesis by (intro exI [of _ "Suc m"] exI [of _ j]) simp
  qed
qed

lemma take_log_bytes:
  assumes "headerSize \<le> k"
  obtains m j where "take k (log_bytes rs) = log_bytes (take m rs) @ take j (frame (rs ! m))"
    and "m \<le> length rs" and "m = length rs \<and> j = 0 \<or> m < length rs \<and> j < length (frame (rs ! m))"
proof -
  obtain m j where "take (k - headerSize) (concat (map frame rs)) = concat (map frame (take m rs)) @ take j (frame (rs ! m))"
    "m \<le> length rs" "m = length rs \<and> j = 0 \<or> m < length rs \<and> j < length (frame (rs ! m))"
    using take_frames by blast
  with assms show thesis by (intro that [of m j]) (simp_all add: log_bytes_def)
qed

section \<open>Recovery\<close>

text \<open>Replaying a list of records through the callback of \<^verbatim>\<open>Open\<close>.\<close>

fun replay_all :: "'s replay \<Rightarrow> Record list \<Rightarrow> 's \<Rightarrow> 's option go" where
  "replay_all replay [] s = Ret (Some s)"
| "replay_all replay (r # rs) s =
     (case replay r s of
        Panic \<Rightarrow> Panic
      | Ret None \<Rightarrow> Ret None
      | Ret (Some s1) \<Rightarrow> replay_all replay rs s1)"

lemma recover_loop_frames:
  assumes "replay_all replay rs s = Ret (Some s')" and "\<forall>r \<in> set rs. fits r"
    and "\<forall>i < length rs. CommitPosition (rs ! i) = nxt + of_nat i"
  shows "recover_loop replay (reading (concat (map frame rs) @ tail) e) f nxt off offs s =
    recover_loop replay (reading tail e) f (nxt + of_nat (length rs))
      (off + length (concat (map frame rs))) (offs @ offsets_from off rs) s'"
  using assms
proof (induction rs arbitrary: nxt off offs s)
  case Nil
  then show ?case by simp
next
  case (Cons r rs)
  from Cons.prems(1) obtain s1 where s1: "replay r s = Ret (Some s1)"
    and rest: "replay_all replay rs s1 = Ret (Some s')"
    by (auto split: go.splits option.splits)
  have pos: "CommitPosition r = nxt" using Cons.prems(3) by (auto dest: spec [of _ 0])
  have nums: "\<forall>i < length rs. CommitPosition (rs ! i) = (nxt + 1) + of_nat i"
    using Cons.prems(3) by (auto simp: add.assoc dest: spec [of _ "Suc i" for i])
  have "recover_loop replay (reading (concat (map frame (r # rs)) @ tail) e) f nxt off offs s =
    recover_loop replay (reading (concat (map frame rs) @ tail) e) f (nxt + 1)
      (off + length (frame r)) (offs @ [off]) s1"
    using Cons.prems(2) pos s1
    by (subst recover_loop.simps) (simp add: readRecord_frame del: length_frame)
  also have "\<dots> = recover_loop replay (reading tail e) f (nxt + 1 + of_nat (length rs))
      (off + length (frame r) + length (concat (map frame rs)))
      ((offs @ [off]) @ offsets_from (off + length (frame r)) rs) s'"
    using Cons.prems(2) by (intro Cons.IH rest nums) simp
  finally show ?case by (simp add: ac_simps del: length_frame)
qed

lemma recover_loop_eof:
  "recover_loop replay (reading [] None) f nxt off offs s = Ret (Inr (nxt, offs), f, s)"
  by (subst recover_loop.simps) (simp add: readRecord_def ReadFull_def)

lemma recover_loop_torn:
  assumes "fits r" and "0 < j" and "j < length (frame r)" and "healthy f"
  shows "recover_loop replay (reading (take j (frame r)) None) f nxt off offs s =
    Ret (Inr (nxt, offs), f\<lparr>content := take off (content f), durable := min off (durable f)\<rparr>, s)"
proof -
  have "fst (readRecord (reading (take j (frame r)) None)) = Ret ReadTorn"
    using readRecord_torn [OF assms(1,3)] assms(2) by simp
  then obtain r1 where "readRecord (reading (take j (frame r)) None) = (Ret ReadTorn, r1)"
    by (metis prod.collapse)
  with assms(4) show ?thesis
    by (subst recover_loop.simps) (simp add: file_Truncate_def)
qed

text \<open>A file with the given content and no fault ahead, closed, as a crash leaves it.\<close>

definition disk :: "bytes \<Rightarrow> osfile" where
  "disk bs = \<lparr>content = bs, durable = length bs, closed = True, faults = []\<rparr>"

lemma disk_open [simp]: "healthy ((disk bs)\<lparr>closed := False\<rparr>)" "content (disk bs) = bs"
  "durable (disk bs) = length bs"
  by (simp_all add: disk_def healthy_def)

text \<open>The log that \<^verbatim>\<open>Open\<close> returns for a list of records.\<close>

definition opened :: "bytes \<Rightarrow> Record list \<Rightarrow> wal" where
  "opened pth rs =
     \<lparr>path = pth, fd = (disk (log_bytes rs))\<lparr>closed := False\<rparr>, wr = NewWriter,
      next_pos = of_nat (Suc (length rs)), byteOffsets = offsets_from headerSize rs,
      pendingSeq = 0, flushedSeq = 0, flushErr = None, leading = False,
      writeOffset = length (log_bytes rs)\<rparr>"

lemma ensureHeader_ok:
  assumes "healthy f" and "content f = header @ bs"
  shows "ensureHeader f = (None, f)"
  using assms
  by (auto simp: ensureHeader_def file_Stat_def file_ReadAt_def header_def walMagic_def headerSize_def)

text \<open>
  \<^verbatim>\<open>Open\<close> of a whole log, possibly with a torn record behind it, replays exactly the whole
  records and leaves a file without the torn bytes.
\<close>

lemma wal_Open_log:
  assumes wf: "well_formed rs" and rep: "replay_all replay rs s = Ret (Some s')"
    and torn: "j = 0 \<or> fits r \<and> j < length (frame r)"
  shows "wal_Open pth (disk (log_bytes rs @ take j (frame r))) replay s = Ret (Inr (opened pth rs), s')"
proof -
  let ?f = "(disk (log_bytes rs @ take j (frame r)))\<lparr>closed := False\<rparr>"
  have num: "\<forall>i < length rs. CommitPosition (rs ! i) = 1 + of_nat i"
    using wf by (auto simp: well_formed_def numbered_def)
  have len: "headerSize + length (concat (map frame rs)) = length (log_bytes rs)"
    by (simp add: log_bytes_def)
  have "recover_loop replay (reading (concat (map frame rs) @ take j (frame r)) None) ?f 1 headerSize [] s =
      recover_loop replay (reading (take j (frame r)) None) ?f (1 + of_nat (length rs))
        (length (log_bytes rs)) (offsets_from headerSize rs) s'"
    using recover_loop_frames [OF rep _ num] wf len by (simp add: well_formed_def)
  also have "\<dots> = Ret (Inr (of_nat (Suc (length rs)), offsets_from headerSize rs),
      (disk (log_bytes rs))\<lparr>closed := False\<rparr>, s')"
    using torn by (cases "j = 0") (auto simp: recover_loop_eof recover_loop_torn, simp_all add: disk_def)
  finally have rec: "wal_recover replay ?f s = Ret (Inr (of_nat (Suc (length rs)), offsets_from headerSize rs),
      (disk (log_bytes rs))\<lparr>closed := False\<rparr>, s')"
    by (simp add: wal_recover_def file_Seek_def log_bytes_def)
  have "ensureHeader ?f = (None, ?f)"
    by (rule ensureHeader_ok [of _ "concat (map frame rs) @ take j (frame r)"]) (simp_all add: log_bytes_def)
  with rec show ?thesis
    by (simp add: wal_Open_def file_Seek_def opened_def)
qed

section \<open>Appending\<close>

text \<open>
  The state of a log after some calls of \<^verbatim>\<open>Append\<close>: \<open>att\<close> are the records that were written
  or partly written, the first \<open>ack\<close> of them are on stable storage.  Unless a write failed,
  what is not yet in the file is in the buffer, and the next position is the right one.
\<close>

definition log_state :: "wal \<Rightarrow> Record list \<Rightarrow> nat \<Rightarrow> bool" where
  "log_state w att ack \<longleftrightarrow>
     well_formed att \<and> ack \<le> length att
     \<and> (\<exists>rest. content (fd w) @ rest = log_bytes att
          \<and> (werr (wr w) = None \<longrightarrow> rest = wbuf (wr w) \<and> next_pos w = of_nat (Suc (length att))))
     \<and> length (log_bytes (take ack att)) \<le> durable (fd w)
     \<and> durable (fd w) \<le> length (content (fd w))"

lemma log_state_opened: "well_formed rs \<Longrightarrow> log_state (opened pth rs) rs (length rs)"
  by (simp add: log_state_def opened_def NewWriter_def)

lemma lead_loop_once:
  "lead_loop pos w =
     (case lead_flush w of
        (Some e, w1) \<Rightarrow> (Inl e, w1)
      | (None, w1) \<Rightarrow>
          (case lead_sync w1 of
             (Some e, w2) \<Rightarrow> (Inl (FsyncFailed e), snd (lead_synced (pendingSeq w) (Some e) w2))
           | (None, w2) \<Rightarrow> (Inr pos, w2\<lparr>flushedSeq := pendingSeq w, flushErr := None, leading := False\<rparr>)))"
proof (cases "lead_flush w")
  case (Pair e w1)
  show ?thesis
  proof (cases e)
    case None
    obtain se w2 where sync: "lead_sync w1 = (se, w2)" by (metis prod.exhaust)
    have "pendingSeq w2 = pendingSeq w"
      using Pair sync by (simp add: lead_pendingSeq)
    with Pair None sync show ?thesis
      by (cases se) (simp_all add: lead_loop.simps [of pos w] lead_synced_def Let_def)
  qed (simp add: Pair lead_loop.simps [of pos w] Let_def)
qed

text \<open>The file after one leader round: everything buffered is written, and synced if that succeeds.\<close>

lemma lead_loop_effect:
  assumes "lead_loop pos w = (res, w1)" and "durable (fd w) \<le> length (content (fd w))"
  shows "content (fd w1) @ wbuf (wr w1) = content (fd w) @ wbuf (wr w)
    \<and> durable (fd w1) \<le> length (content (fd w1)) \<and> durable (fd w) \<le> durable (fd w1)
    \<and> next_pos w1 = next_pos w
    \<and> (case res of
         Inr p \<Rightarrow> p = pos \<and> werr (wr w1) = None \<and> wbuf (wr w1) = [] \<and> durable (fd w1) = length (content (fd w1))
       | Inl _ \<Rightarrow> werr (wr w1) = None \<longrightarrow> werr (wr w) = None)"
proof (cases "bufio_Flush (wr w) (fd w)")
  case (fields e b f)
  note eff = bufio_Flush_effect [OF fields]
  show ?thesis
  proof (cases e)
    case (Some err)
    with assms(1) fields have "res = Inl (FlushFailed err)" and "wr w1 = b" and "fd w1 = f"
      and "next_pos w1 = next_pos w"
      by (auto simp: lead_loop_once lead_flush_def)
    with eff assms(2) Some show ?thesis by auto
  next
    case None
    obtain se f2 where sync: "file_Sync f = (se, f2)" by (metis prod.exhaust)
    with None assms(1) fields have "res = (case se of None \<Rightarrow> Inr pos | Some e \<Rightarrow> Inl (FsyncFailed e))"
      and "wr w1 = b" and "fd w1 = f2" and "next_pos w1 = next_pos w"
      by (auto simp: lead_loop_once lead_flush_def lead_sync_def lead_synced_def split: option.splits)
    with eff file_Sync_effect [OF sync] assms(2) None show ?thesis
      by (auto split: option.splits)
  qed
qed

text \<open>
  The buffering part of \<^verbatim>\<open>Append\<close>: a sticky write error leaves the file alone; otherwise the
  frame of the record follows what was there, in the file, in the buffer, or cut off by
  an error that then sticks.
\<close>

lemma append_buffer_stuck:
  assumes "werr (wr w) = Some e" and "append_buffer rec w = (res, w1)"
  shows "\<exists>err. res = Inl err \<and> fd w1 = fd w \<and> wr w1 = wr w"
proof -
  have "bufio_Write p (wr w) f = (Some e, wr w, f)" for p f
    using assms(1) by (simp add: bufio_Write.simps [of p "wr w" f])
  with assms(2) show ?thesis by (auto simp: append_buffer_def Let_def)
qed

lemma append_buffer_effect:
  assumes ok: "werr (wr w) = None" and app: "append_buffer rec w = (res, w1)"
  shows "\<exists>rest. content (fd w1) @ rest =
      content (fd w) @ wbuf (wr w) @ frame (rec\<lparr>CommitPosition := next_pos w\<rparr>)
    \<and> length (content (fd w)) \<le> length (content (fd w1)) \<and> durable (fd w1) = durable (fd w)
    \<and> next_pos w1 = next_pos w + 1
    \<and> (case res of
         Inr (pos, _) \<Rightarrow> pos = next_pos w \<and> werr (wr w1) = None \<and> rest = wbuf (wr w1)
       | Inl _ \<Rightarrow> werr (wr w1) \<noteq> None)"
proof -
  let ?body = "record_body (rec\<lparr>CommitPosition := next_pos w\<rparr>)"
  let ?len = "PutUint32 (of_nat (length ?body))"
  obtain e b f where w1: "bufio_Write ?len (wr w) (fd w) = (e, b, f)" by (metis prod.exhaust)
  from bufio_Write_effect [OF w1 ok] obtain rest where eff:
    "content f @ rest = content (fd w) @ wbuf (wr w) @ ?len" "durable f = durable (fd w)"
    "length (content (fd w)) \<le> length (content f)" "werr b = e" "e = None \<longrightarrow> rest = wbuf b"
    by (elim exE conjE) (rule that)
  show ?thesis
  proof (cases e)
    case (Some err)
    with app w1 have "res = Inl (WriteLengthFailed err)" "fd w1 = f" "wr w1 = b" "next_pos w1 = next_pos w + 1"
      by (auto simp: append_buffer_def Let_def simp del: length_record_body)
    moreover have "content f @ rest @ ?body = content (fd w) @ wbuf (wr w) @ frame (rec\<lparr>CommitPosition := next_pos w\<rparr>)"
      using arg_cong [OF eff(1), of "\<lambda>xs. xs @ ?body"] by (simp add: frame_def del: length_record_body)
    ultimately show ?thesis using eff(2-4) Some by (intro exI [of _ "rest @ ?body"] conjI) simp_all
  next
    case None
    then have bok: "werr b = None" using eff by simp
    obtain e2 b2 f2 where w2: "bufio_Write ?body b f = (e2, b2, f2)" by (metis prod.exhaust)
    from bufio_Write_effect [OF w2 bok] obtain rest2 where eff2:
      "content f2 @ rest2 = content f @ wbuf b @ ?body" "durable f2 = durable f"
      "length (content f) \<le> length (content f2)" "werr b2 = e2" "e2 = None \<longrightarrow> rest2 = wbuf b2"
      by (elim exE conjE) (rule that)
    have "fd w1 = f2 \<and> wr w1 = b2 \<and> next_pos w1 = next_pos w + 1
        \<and> (case e2 of Some err \<Rightarrow> res = Inl (WriteBodyFailed err)
           | None \<Rightarrow> \<exists>sq. res = Inr (next_pos w, sq))"
      using app w1 w2 None by (auto simp: append_buffer_def Let_def simp del: length_record_body split: option.splits)
    moreover have "content f2 @ rest2 = content (fd w) @ wbuf (wr w) @ frame (rec\<lparr>CommitPosition := next_pos w\<rparr>)"
      using arg_cong [OF eff(1), of "\<lambda>xs. xs @ ?body"] eff(5) eff2(1) None
      by (simp add: frame_def del: length_record_body)
    ultimately show ?thesis using eff(2-4) eff2(2-5)
      by (intro exI [of _ rest2] conjI) (auto split: option.splits)
  qed
qed

text \<open>One call of \<^verbatim>\<open>Append\<close>, whatever fails in it.\<close>

lemma wal_Append_state:
  assumes st: "log_state w att ack" and fits: "fits rec" and app: "wal_Append rec w = (res, w1)"
  shows "case res of
      Inr pos \<Rightarrow> log_state w1 (att @ [rec\<lparr>CommitPosition := pos\<rparr>]) (Suc (length att))
    | Inl _ \<Rightarrow> \<exists>new. log_state w1 (att @ new) ack"
proof (cases "werr (wr w)")
  case (Some e)
  obtain r2 w2 where buf: "append_buffer rec w = (r2, w2)" by (metis prod.exhaust)
  from append_buffer_stuck [OF Some buf] app buf have "res = Inl (projl r2) \<and> fd w1 = fd w \<and> wr w1 = wr w"
    by (auto simp: wal_Append_def)
  moreover from this have "log_state w1 (att @ []) ack" using st Some by (auto simp: log_state_def)
  ultimately show ?thesis by (auto intro: exI [of _ "[]"])
next
  case None
  let ?rec = "rec\<lparr>CommitPosition := next_pos w\<rparr>"
  obtain r2 w2 where buf: "append_buffer rec w = (r2, w2)" by (metis prod.exhaust)
  from st None have base: "content (fd w) @ wbuf (wr w) = log_bytes att"
    "next_pos w = of_nat (Suc (length att))" "well_formed att" "ack \<le> length att"
    "length (log_bytes (take ack att)) \<le> durable (fd w)" "durable (fd w) \<le> length (content (fd w))"
    by (auto simp: log_state_def)
  have wf: "well_formed (att @ [?rec])"
    using base fits by (simp add: well_formed_snoc fits_def)
  from append_buffer_effect [OF None buf] obtain rest where eff:
    "content (fd w2) @ rest = content (fd w) @ wbuf (wr w) @ frame ?rec" "length (content (fd w)) \<le> length (content (fd w2))"
    "durable (fd w2) = durable (fd w)" "next_pos w2 = next_pos w + 1"
    "case r2 of Inr (pos, _) \<Rightarrow> pos = next_pos w \<and> werr (wr w2) = None \<and> rest = wbuf (wr w2)
       | Inl _ \<Rightarrow> werr (wr w2) \<noteq> None"
    by (elim exE conjE) (rule that)
  have bytes: "content (fd w2) @ rest = log_bytes (att @ [?rec])"
    using eff(1) by (simp add: base(1) [symmetric])
  show ?thesis
  proof (cases r2)
    case (Inl err)
    with app buf have "res = Inl err" "w1 = w2" by (auto simp: wal_Append_def)
    moreover have "log_state w2 (att @ [?rec]) ack"
      using wf base eff(2-5) bytes Inl by (auto simp: log_state_def)
    ultimately show ?thesis by auto
  next
    case (Inr pm)
    then have r2: "r2 = Inr (next_pos w, snd pm)" and ok2: "werr (wr w2) = None" and rest: "rest = wbuf (wr w2)"
      using eff(5) by (auto split: prod.splits)
    with app buf have lead: "lead_loop (next_pos w) (w2\<lparr>leading := True\<rparr>) = (res, w1)"
      by (simp add: wal_Append_def)
    have "durable (fd (w2\<lparr>leading := True\<rparr>)) \<le> length (content (fd (w2\<lparr>leading := True\<rparr>)))"
      using base eff by simp
    note le = lead_loop_effect [OF lead this]
    then have all: "content (fd w1) @ wbuf (wr w1) = log_bytes (att @ [?rec])" using bytes rest by simp
    show ?thesis
    proof (cases res)
      case (Inl err)
      have "log_state w1 (att @ [?rec]) ack"
        using wf base(2-) eff(2-4) le all Inl by (auto simp: log_state_def)
      with Inl show ?thesis by auto
    next
      case (Inr pos)
      have "log_state w1 (att @ [?rec]) (Suc (length att))"
        using wf base(2-) eff(2-4) le all Inr by (auto simp: log_state_def)
      with Inr le show ?thesis by simp
    qed
  qed
qed

section \<open>Crashes\<close>

text \<open>A sequence of calls of \<^verbatim>\<open>Append\<close>, failing or not, and their results.\<close>

fun run_appends :: "Record list \<Rightarrow> wal \<Rightarrow> (wal_error + u64) list \<times> wal" where
  "run_appends [] w = ([], w)"
| "run_appends (r # rs) w =
     (case wal_Append r w of
        (x, w1) \<Rightarrow> (case run_appends rs w1 of (xs, w2) \<Rightarrow> (x # xs, w2)))"

text \<open>The records whose \<^verbatim>\<open>Append\<close> returned a position, as they were written.\<close>

fun acknowledged :: "Record list \<Rightarrow> (wal_error + u64) list \<Rightarrow> Record list" where
  "acknowledged (r # rs) (Inr pos # xs) = r\<lparr>CommitPosition := pos\<rparr> # acknowledged rs xs"
| "acknowledged (r # rs) (Inl _ # xs) = acknowledged rs xs"
| "acknowledged _ _ = []"

lemma run_appends_state:
  assumes "log_state w att ack" and "\<forall>r \<in> set rs. fits r" and "run_appends rs w = (results, w1)"
  shows "\<exists>new ack1. log_state w1 (att @ new) ack1 \<and> ack \<le> ack1
    \<and> set (acknowledged rs results) \<subseteq> set (take ack1 (att @ new))"
  using assms
proof (induction rs arbitrary: w att ack results)
  case Nil
  then show ?case by (intro exI [of _ "[]"] exI [of _ ack]) simp
next
  case (Cons r rs)
  obtain x w2 where x: "wal_Append r w = (x, w2)" by (metis prod.exhaust)
  with Cons.prems(3) obtain xs where xs: "run_appends rs w2 = (xs, w1)" and res: "results = x # xs"
    by (auto split: prod.splits)
  note step = wal_Append_state [OF Cons.prems(1) _ x]
  show ?case
  proof (cases x)
    case (Inl e)
    with step Cons.prems(2) obtain new where "log_state w2 (att @ new) ack" by auto
    from Cons.IH [OF this _ xs] Cons.prems(2) obtain new1 ack1 where
      "log_state w1 ((att @ new) @ new1) ack1" "ack \<le> ack1"
      "set (acknowledged rs xs) \<subseteq> set (take ack1 ((att @ new) @ new1))" by auto
    with Inl res show ?thesis by (intro exI [of _ "new @ new1"] exI [of _ ack1]) simp
  next
    case (Inr pos)
    let ?r = "r\<lparr>CommitPosition := pos\<rparr>"
    from Inr step Cons.prems(2) have st: "log_state w2 (att @ [?r]) (Suc (length att))" by simp
    from Cons.IH [OF st _ xs] Cons.prems(2) obtain new1 ack1 where
      st1: "log_state w1 ((att @ [?r]) @ new1) ack1" and le: "Suc (length att) \<le> ack1"
      and sub: "set (acknowledged rs xs) \<subseteq> set (take ack1 ((att @ [?r]) @ new1))" by auto
    have "ack \<le> ack1" using Cons.prems(1) le by (simp add: log_state_def)
    moreover have "?r \<in> set (take ack1 ((att @ [?r]) @ new1))"
      using le_Suc_ex [OF le] by auto
    ultimately show ?thesis using st1 sub Inr res
      by (intro exI [of _ "?r # new1"] exI [of _ ack1]) simp
  qed
qed

text \<open>
  A crash keeps some prefix of the file, at least what was synced.  Opening what is left
  gives back a prefix of the written records that includes every acknowledged one.
\<close>

definition crash :: "nat \<Rightarrow> osfile \<Rightarrow> osfile" where
  "crash k f = disk (take k (content f))"

definition collect :: "Record list replay" where
  "collect r rs = Ret (Some (rs @ [r]))"

lemma replay_all_collect: "replay_all collect rs acc = Ret (Some (acc @ rs))"
  by (induction rs arbitrary: acc) (simp_all add: collect_def)

lemma log_state_crash:
  assumes st: "log_state w att ack" and k: "durable (fd w) \<le> k" "k \<le> length (content (fd w))"
  obtains m j where "crash k (fd w) = disk (log_bytes (take m att) @ take j (frame (att ! m)))"
    and "ack \<le> m" and "m \<le> length att" and "j = 0 \<or> fits (att ! m) \<and> j < length (frame (att ! m))"
proof -
  from st have hd: "headerSize \<le> k"
    using k(1) length_log_bytes_take_mono [of 0 ack att] by (simp add: log_state_def)
  then obtain m j where mj: "take k (log_bytes att) = log_bytes (take m att) @ take j (frame (att ! m))"
    "m \<le> length att" "m = length att \<and> j = 0 \<or> m < length att \<and> j < length (frame (att ! m))"
    by (rule take_log_bytes)
  from st obtain rest where "content (fd w) @ rest = log_bytes att" by (auto simp: log_state_def)
  then have "log_bytes att = content (fd w) @ rest" by (rule sym)
  then have cut: "take k (content (fd w)) = take k (log_bytes att)" and "k \<le> length (log_bytes att)"
    using k(2) by simp_all
  then have len: "length (log_bytes (take m att)) + length (take j (frame (att ! m))) = k"
    using arg_cong [OF mj(1), of length] by (simp del: length_frame)
  have "ack \<le> m"
  proof (rule ccontr)
    assume "\<not> ack \<le> m"
    with st have m: "m < length att" "Suc m \<le> ack" by (auto simp: log_state_def)
    then have "length (log_bytes (take (Suc m) att)) \<le> durable (fd w)"
      using length_log_bytes_take_mono [of "Suc m" ack att] st by (simp add: log_state_def del: length_frame)
    moreover have "log_bytes (take (Suc m) att) = log_bytes (take m att) @ frame (att ! m)"
      using m by (simp add: take_Suc_conv_app_nth)
    ultimately show False using len k(1) mj(3) m by (simp add: min_def split: if_splits)
  qed
  moreover have "j = 0 \<or> fits (att ! m) \<and> j < length (frame (att ! m))"
    using mj(3) st by (auto simp: log_state_def well_formed_def)
  ultimately show thesis using mj(2) cut mj(1) by (intro that [of m j]) (simp_all add: crash_def)
qed

text \<open>
  C1. No acknowledged record is lost.  After any sequence of \<^verbatim>\<open>Append\<close> calls in which any system call
  may fail, and a crash that keeps at least what was synced, \<^verbatim>\<open>Open\<close> succeeds and replays records
  numbered from 1 among which is every record whose \<^verbatim>\<open>Append\<close> returned a position.
\<close>

theorem crash_keeps_acknowledged:
  assumes "log_state w att ack" and "\<forall>r \<in> set rs. fits r" and "run_appends rs w = (results, w1)"
    and "durable (fd w1) \<le> k" and "k \<le> length (content (fd w1))"
  shows "\<exists>kept. wal_Open pth (crash k (fd w1)) collect [] = Ret (Inr (opened pth kept), kept)
    \<and> numbered kept \<and> set (take ack att) \<union> set (acknowledged rs results) \<subseteq> set kept"
proof -
  from run_appends_state [OF assms(1-3)] obtain new ack1 where
    st: "log_state w1 (att @ new) ack1" and ack: "ack \<le> ack1"
    and sub: "set (acknowledged rs results) \<subseteq> set (take ack1 (att @ new))" by blast
  from log_state_crash [OF st assms(4,5)] obtain m j where
    cr: "crash k (fd w1) = disk (log_bytes (take m (att @ new)) @ take j (frame ((att @ new) ! m)))"
    and m: "ack1 \<le> m" and j: "j = 0 \<or> fits ((att @ new) ! m) \<and> j < length (frame ((att @ new) ! m))"
    by blast
  let ?kept = "take m (att @ new)"
  have "well_formed (att @ new)" using st by (simp add: log_state_def)
  then have wf: "well_formed ?kept" by (rule well_formed_take)
  have "wal_Open pth (crash k (fd w1)) collect [] = Ret (Inr (opened pth ?kept), ?kept)"
    unfolding cr by (rule wal_Open_log [OF wf _ j]) (simp add: replay_all_collect)
  moreover have "set (take ack1 (att @ new)) \<subseteq> set ?kept" using m by (rule set_take_subset_set_take)
  moreover have "set (take ack att) \<subseteq> set (take ack1 (att @ new))"
    using ack assms(1) set_take_subset_set_take [of ack ack1 "att @ new"] by (auto simp: log_state_def)
  ultimately show ?thesis using sub wf by (auto simp: well_formed_def)
qed

theorem crash_keeps_acknowledged_witness:
  "\<exists>results w1 kept. run_appends [sample_record] (opened [] []) = (results, w1)
    \<and> wal_Open [] (crash (durable (fd w1)) (fd w1)) collect [] = Ret (Inr (opened [] kept), kept)
    \<and> set (acknowledged [sample_record] results) \<subseteq> set kept"
proof -
  obtain results w1 where run: "run_appends [sample_record] (opened [] []) = (results, w1)" by (metis prod.exhaust)
  have st: "log_state (opened [] []) [] 0" using log_state_opened [of "[]" "[]"] by simp
  from run_appends_state [OF st _ run] have "durable (fd w1) \<le> length (content (fd w1))"
    by (auto simp: log_state_def)
  from crash_keeps_acknowledged [OF st _ run order_refl this] run show ?thesis by auto
qed

end
