(* ===== verification/WalSpec.thy ===== *)
theory WalSpec
  imports WalRecovery
begin

text \<open>
  The contract of the log towards its clients: between calls a log stands for the list of
  its records, \<^verbatim>\<open>Append\<close> adds one at the end, \<^verbatim>\<open>ReadRange\<close> reads a segment, \<^verbatim>\<open>Open\<close> gives the list
  back.  Then the inputs on which \<^verbatim>\<open>Open\<close> and \<^verbatim>\<open>ReadRange\<close> do something else.
\<close>

section \<open>A log between calls\<close>

definition log_of :: "wal \<Rightarrow> Record list \<Rightarrow> bool" where
  "log_of w rs \<longleftrightarrow>
     well_formed rs \<and> content (fd w) = log_bytes rs \<and> durable (fd w) = length (log_bytes rs)
     \<and> \<not> closed (fd w) \<and> wbuf (wr w) = [] \<and> werr (wr w) = None
     \<and> next_pos w = of_nat (Suc (length rs)) \<and> byteOffsets w = offsets_from headerSize rs
     \<and> writeOffset w = length (log_bytes rs) \<and> \<not> leading w"

lemma log_of_opened: "well_formed rs \<Longrightarrow> log_of (opened pth rs) rs \<and> healthy (fd (opened pth rs))"
  by (simp add: log_of_def opened_def NewWriter_def)

lemma log_of_state: "log_of w rs \<Longrightarrow> log_state w rs (length rs)"
  by (simp add: log_of_def log_state_def)

text \<open>What the leader round leaves alone.\<close>

lemma lead_loop_frame:
  assumes "lead_loop pos w = (res, w1)"
  shows "byteOffsets w1 = byteOffsets w \<and> writeOffset w1 = writeOffset w \<and> path w1 = path w
    \<and> closed (fd w1) = closed (fd w) \<and> \<not> leading w1"
proof (cases "bufio_Flush (wr w) (fd w)")
  case (fields e b f)
  obtain se f2 where "file_Sync f = (se, f2)" by (metis prod.exhaust)
  with assms fields bufio_Flush_effect [OF fields] show ?thesis
    by (auto simp: lead_loop_once lead_flush_def lead_sync_def lead_synced_def
        split: option.splits dest!: file_Sync_effect)
qed

lemma append_buffer_frame:
  assumes "append_buffer rec w = (Inr (pos, sq), w1)" and "werr (wr w) = None"
  shows "byteOffsets w1 = byteOffsets w @ [writeOffset w] \<and> path w1 = path w \<and> closed (fd w1) = closed (fd w)
    \<and> writeOffset w1 = writeOffset w + length (frame (rec\<lparr>CommitPosition := next_pos w\<rparr>))"
proof -
  let ?body = "record_body (rec\<lparr>CommitPosition := next_pos w\<rparr>)"
  obtain e b f where w1: "bufio_Write (PutUint32 (of_nat (length ?body))) (wr w) (fd w) = (e, b, f)"
    by (metis prod.exhaust)
  obtain e2 b2 f2 where w2: "bufio_Write ?body b f = (e2, b2, f2)" by (metis prod.exhaust)
  from assms w1 have e: "e = None" by (cases e) (auto simp: append_buffer_def Let_def simp del: length_record_body)
  with bufio_Write_effect [OF w1 assms(2)] have c: "closed f = closed (fd w)" "werr b = None" by auto
  from bufio_Write_effect [OF w2 c(2)] have "closed f2 = closed f" by auto
  with assms w1 w2 e c show ?thesis
    by (cases e2) (auto simp: append_buffer_def Let_def frame_def simp del: length_record_body)
qed

text \<open>A successful \<^verbatim>\<open>Append\<close> adds the record with the next position.\<close>

lemma wal_Append_log_of:
  assumes lo: "log_of w rs" and fits: "fits rec" and app: "wal_Append rec w = (Inr pos, w1)"
  shows "pos = of_nat (Suc (length rs)) \<and> log_of w1 (rs @ [rec\<lparr>CommitPosition := pos\<rparr>]) \<and> path w1 = path w"
proof -
  have ok: "werr (wr w) = None" and emp: "wbuf (wr w) = []" using lo by (simp_all add: log_of_def)
  obtain sq w2 where buf: "append_buffer rec w = (Inr (next_pos w, sq), w2)"
    and lead: "lead_loop (next_pos w) (w2\<lparr>leading := True\<rparr>) = (Inr pos, w1)"
  proof (cases "append_buffer rec w")
    case (Pair x w2)
    with app append_buffer_effect [OF ok Pair] show thesis
      by (cases x) (auto simp: wal_Append_def split: prod.splits intro: that)
  qed
  from append_buffer_effect [OF ok buf] have c2:
    "content (fd w2) @ wbuf (wr w2) = log_bytes rs @ frame (rec\<lparr>CommitPosition := next_pos w\<rparr>)"
    "durable (fd w2) \<le> length (content (fd w2))" "next_pos w2 = next_pos w + 1"
    using lo emp by (auto simp: log_of_def)
  have "durable (fd (w2\<lparr>leading := True\<rparr>)) \<le> length (content (fd (w2\<lparr>leading := True\<rparr>)))"
    using c2 by simp
  from lead_loop_effect [OF lead this] lead_loop_frame [OF lead] append_buffer_frame [OF buf ok] c2 lo fits
  show ?thesis
    by (auto simp: log_of_def well_formed_snoc fits_def offsets_from_append log_bytes_def simp del: length_frame)
qed

text \<open>On a healthy file \<^verbatim>\<open>Append\<close> succeeds, and the file stays healthy.\<close>

lemma lead_loop_healthy:
  assumes "healthy (fd w)" and "werr (wr w) = None"
  shows "\<exists>w1. lead_loop pos w = (Inr pos, w1) \<and> healthy (fd w1)"
  using assms
  by (simp add: lead_loop_once lead_flush_def lead_sync_def bufio_Flush_healthy)

lemma append_buffer_healthy:
  assumes "healthy (fd w)" and "werr (wr w) = None"
  shows "\<exists>sq w1. append_buffer rec w = (Inr (next_pos w, sq), w1) \<and> healthy (fd w1) \<and> werr (wr w1) = None"
proof -
  let ?body = "record_body (rec\<lparr>CommitPosition := next_pos w\<rparr>)"
  obtain b f where w1: "bufio_Write (PutUint32 (of_nat (length ?body))) (wr w) (fd w) = (None, b, f)"
    and hf: "healthy f" using bufio_Write_healthy [OF assms] by blast
  have b: "werr b = None" using bufio_Write_effect [OF w1 assms(2)] by auto
  obtain b2 f2 where w2: "bufio_Write ?body b f = (None, b2, f2)" and "healthy f2"
    using bufio_Write_healthy [OF hf b] by blast
  moreover have "werr b2 = None" using bufio_Write_effect [OF w2 b] by auto
  ultimately show ?thesis using w1
    by (simp add: append_buffer_def Let_def del: length_record_body)
qed

lemma wal_Append_healthy:
  assumes "log_of w rs" and "healthy (fd w)" and "fits rec"
  obtains w1 where "wal_Append rec w = (Inr (of_nat (Suc (length rs))), w1)"
    and "log_of w1 (rs @ [rec\<lparr>CommitPosition := of_nat (Suc (length rs))\<rparr>])"
    and "healthy (fd w1)" and "path w1 = path w"
proof -
  have ok: "werr (wr w) = None" using assms(1) by (simp add: log_of_def)
  from append_buffer_healthy [OF assms(2) ok] obtain sq w2 where
    buf: "append_buffer rec w = (Inr (next_pos w, sq), w2)" "healthy (fd w2)" "werr (wr w2) = None" by blast
  from lead_loop_healthy [of "w2\<lparr>leading := True\<rparr>"] buf obtain w1 where
    app: "wal_Append rec w = (Inr (next_pos w), w1)" and h: "healthy (fd w1)"
    by (auto simp: wal_Append_def)
  from wal_Append_log_of [OF assms(1,3) app] app h show thesis by (auto intro: that)
qed

section \<open>Reading\<close>

lemma read_range_frames:
  assumes "\<forall>r \<in> set rs. fits r"
  shows "read_range_loop n pos (reading (concat (map frame rs)) None) acc = Ret (acc @ take n rs, None)"
  using assms
proof (induction n arbitrary: rs pos acc)
  case (Suc n)
  show ?case
  proof (cases rs)
    case Nil
    then show ?thesis by (simp add: readRecord_def ReadFull_def)
  next
    case (Cons r rs')
    with Suc show ?thesis by (simp add: readRecord_frame)
  qed
qed simp

lemma drop_log_bytes:
  assumes "i < length rs"
  shows "drop (offsets_from headerSize rs ! i) (log_bytes rs) = concat (map frame (drop i rs))"
proof -
  have "log_bytes rs = header @ concat (map frame (take i rs)) @ concat (map frame (drop i rs))"
    by (simp add: log_bytes_def flip: concat_append map_append)
  then show ?thesis using assms by (simp add: nth_offsets_from)
qed

text \<open>\<^verbatim>\<open>ReadRange\<close> on a healthy log reads the segment it is asked for.\<close>

lemma ReadRange_at:
  assumes lo: "log_of w rs" and h: "healthy (fd w)"
    and i: "i < length rs" and big: "i < 2 ^ 63" and lim: "0 < limit"
  shows "ReadRange (of_nat (Suc i)) limit w = Ret ((take (nat limit) (drop i rs), None), w)"
proof -
  let ?from = "of_nat (Suc i) :: u64"
  have u: "unat ?from = Suc i" and ui: "unat (of_nat i :: u64) = i" and si: "sint (of_nat i :: u64) = int i"
    using i big by (simp_all del: of_nat_Suc)
  have pred: "?from - 1 = of_nat i" by simp
  have pos: "\<not> ?from < 1" using u by (simp add: word_less_nat_alt)
  from lo i lim pos have "ReadRange ?from limit w =
    go_bind (read_range_loop (nat limit) ?from (reading (concat (map frame (drop i rs))) None) [])
      (\<lambda>res. Ret (res, w))"
    using h si ui
    by (simp add: ReadRange_def pred log_of_def file_Stat_def drop_log_bytes del: of_nat_Suc)
  moreover have "\<forall>r \<in> set (drop i rs). fits r"
    using lo by (auto simp: log_of_def well_formed_def dest: in_set_dropD)
  ultimately show ?thesis by (simp add: read_range_frames del: of_nat_Suc)
qed

lemma ReadRange_segment:
  assumes "log_of w rs" and "healthy (fd w)" and "i < length rs" and "length rs < 2 ^ 63" and "0 < limit"
  shows "ReadRange (of_nat (Suc i)) limit w = Ret ((take (nat limit) (drop i rs), None), w)"
  using ReadRange_at [OF assms(1-3) _ assms(5)] assms(3,4) by simp

lemma ReadRange_beyond:
  assumes "log_of w rs" and "from = 0 \<or> length rs < unat from \<and> unat from \<le> 2 ^ 63"
  shows "ReadRange from limit w = Ret (([], None), w)"
proof (cases "from = 0")
  case False
  with assms have n: "length rs < unat from" "unat from \<le> 2 ^ 63" by auto
  have u: "unat (from - 1) = unat from - 1" using False by (rule unat_minus_1)
  then have "sint (from - 1) = int (unat from - 1)" using n by (subst sint_small) simp_all
  moreover have "length (byteOffsets w) \<le> unat from - 1" using n assms(1) by (simp add: log_of_def)
  ultimately have "int (length (byteOffsets w)) \<le> sint (from - 1)" by (simp only: of_nat_le_iff)
  then show ?thesis by (simp add: ReadRange_def)
qed (simp add: ReadRange_def)

lemma ReadRange_outside:
  assumes "log_of w rs" and "length rs < 2 ^ 63" and "from = 0 \<or> length rs < unat from \<and> unat from \<le> 2 ^ 63"
  shows "ReadRange from limit w = Ret (([], None), w)"
  using assms(1,3) by (rule ReadRange_beyond)

text \<open>From any position up to 2 to the 63, whatever the length of the log.\<close>

lemma ReadRange_from:
  assumes "log_of w rs" and "healthy (fd w)" and "from \<noteq> 0" and "unat from \<le> 2 ^ 63" and "0 < limit"
  shows "ReadRange from limit w = Ret ((take (nat limit) (drop (unat from - 1) rs), None), w)"
proof (cases "unat from \<le> length rs")
  case True
  have pos: "0 < unat from" using assms(3) by (simp add: unat_gt_0)
  then have "of_nat (Suc (unat from - 1)) = from" by simp
  with ReadRange_at [OF assms(1,2) _ _ assms(5), of "unat from - 1"] True pos assms(4) show ?thesis by simp
next
  case False
  with ReadRange_beyond [OF assms(1), of "from" limit] assms(4) show ?thesis by simp
qed

text \<open>
  \<^verbatim>\<open>ReadRange\<close> panics on a start position above 2 to the 63: the conversion to \<^verbatim>\<open>int\<close> makes it
  negative, so that it passes the bounds check, and the index expression fails.
\<close>

lemma ReadRange_panics:
  assumes "2 ^ 63 < unat from" and "length (byteOffsets w) \<le> 2 ^ 63" and "0 < limit"
  shows "ReadRange from limit w = Panic"
proof -
  have "from \<noteq> 0" using assms(1) by auto
  then have u: "unat (from - 1) = unat from - 1" by (rule unat_minus_1)
  then have "sint (from - 1) < 0" using assms(1) by (intro sint_large) simp
  moreover have "\<not> unat (from - 1) < length (byteOffsets w)" using u assms by simp
  moreover have "\<not> from < 1" using \<open>from \<noteq> 0\<close> by (simp add: word_less_1)
  ultimately show ?thesis using assms(3) by (simp add: ReadRange_def go_index_def)
qed

lemma ReadRange_panics_example: "ReadRange (2 ^ 63 + 1) 1 (opened [] []) = Panic"
  by (rule ReadRange_panics) (simp_all add: opened_def)

text \<open>
  A range read of a healthy log returns the records it asks for: from any position of
  the log, the next records in commit order, as many as the limit allows, unchanged.
\<close>

lemma ReadRange_reads_log:
  assumes "log_of w rs" and "healthy (fd w)" and "1 \<le> unat from" and "unat from \<le> length rs"
    and "length rs < 2 ^ 63" and "0 < limit"
  shows "ReadRange from limit w = Ret ((take (nat limit) (drop (unat from - 1) rs), None), w)"
proof -
  have "of_nat (Suc (unat from - 1)) = from" using assms(3) by simp
  with ReadRange_segment [OF assms(1,2) _ assms(5,6), of "unat from - 1"] assms(3,4) show ?thesis
    by simp
qed

lemma ReadRange_reads_log_example:
  "ReadRange 1 5 (opened [] [sample_record]) = Ret (([sample_record], None), opened [] [sample_record])"
proof -
  have wf: "well_formed [sample_record]"
    using well_formed_snoc [of "[]" sample_record] by (simp add: sample_record_def fits_def)
  from ReadRange_reads_log [OF conjunct1 [OF log_of_opened [OF wf, of "[]"]] conjunct2 [OF log_of_opened [OF wf, of "[]"]], of 1 5]
  show ?thesis by simp
qed

section \<open>No panic\<close>

lemma readBody_returns: "returns (readBody len body)"
  unfolding readBody_def Let_def
  by (auto simp del: go_slice_in go_index_in split: sum.split
      intro!: returns_bind [OF returns_Uint32_slice] returns_bind [OF returns_slice]
      returns_bind [OF decodePayload_returns])

lemma readRecord_returns:
  obtains x r1 where "readRecord r = (Ret x, r1)"
proof (cases "ReadFull 4 r")
  case (Pair res r1)
  show thesis
  proof (cases res)
    case (Inl e)
    with Pair that show thesis by (cases e) (auto simp: readRecord_def)
  next
    case (Inr lenBuf)
    with Pair have "4 \<le> length lenBuf" by (auto simp: ReadFull_def split: if_splits)
    then obtain len where len: "Uint32 lenBuf = Ret len" using Uint32_long by blast
    obtain res2 r2 where body: "ReadFull (unat len) r1 = (res2, r2)" by (metis prod.exhaust)
    obtain x where "readBody len (projr res2) = Ret x" using readBody_returns by (auto simp: returns_def)
    with Pair Inr len body that show thesis by (cases res2) (auto simp: readRecord_def)
  qed
qed

lemma recover_loop_returns:
  assumes "\<And>r s. returns (replay r s)"
  shows "returns (recover_loop replay r f nxt off offs s)"
  using assms
proof (induction replay r f nxt off offs s rule: recover_loop.induct)
  case (1 replay r f nxt off offs s)
  obtain x r1 where rd: "readRecord r = (Ret x, r1)" by (rule readRecord_returns)
  show ?case
  proof (cases x)
    case (ReadOk rec n)
    obtain y where y: "replay rec s = Ret y" using "1.prems" by (auto simp: returns_def)
    show ?thesis
    proof (cases "CommitPosition rec = nxt \<and> y \<noteq> None")
      case True
      then obtain s1 where "y = Some s1" by blast
      with True rd ReadOk y "1.IH" [OF rd [symmetric] refl ReadOk _ y, of s1] "1.prems" show ?thesis
        by (simp add: recover_loop.simps [of replay r])
    qed (use rd ReadOk y in \<open>auto simp: recover_loop.simps [of replay r]\<close>)
  qed (use rd in \<open>auto simp: recover_loop.simps [of replay r] split: prod.splits option.splits\<close>)
qed

text \<open>
  C32. Opening a file never panics for a callback that never panics itself, such as that of the engine:
  whatever bytes the file holds and whatever system calls fail, \<^verbatim>\<open>Open\<close> returns a log or an error.
\<close>

theorem wal_Open_returns:
  assumes "\<And>r s. returns (replay r s)"
  shows "returns (wal_Open pth f replay s)"
proof -
  have "returns (wal_recover replay g t)" for g t
    using recover_loop_returns [OF assms]
    by (auto simp: wal_recover_def returns_def split: prod.splits option.splits)
  then show ?thesis
    by (auto simp: wal_Open_def split: prod.splits option.splits sum.splits intro!: returns_bind)
qed

theorem wal_Open_returns_witness:
  "returns (wal_Open [] \<lparr>content = [1, 2, 3], durable = 0, closed = True, faults = [FOk, FErr 2]\<rparr> collect [])"
  by (rule wal_Open_returns) (simp add: collect_def)

section \<open>Damaged files\<close>

text \<open>\<^verbatim>\<open>Open\<close> reads the whole records before the damage, and then meets the rest.\<close>

lemma wal_Open_prefix:
  assumes wf: "well_formed rs" and rep: "replay_all replay rs s = Ret (Some s')"
  shows "wal_Open pth (disk (log_bytes rs @ tail)) replay s =
    (let f = (disk (log_bytes rs @ tail))\<lparr>closed := False\<rparr> in
     go_bind (recover_loop replay (reading tail None) f (of_nat (Suc (length rs)))
         (length (log_bytes rs)) (offsets_from headerSize rs) s')
       (\<lambda>(res, f3, s1).
          case res of
            Inl e \<Rightarrow> Ret (Inl (e, snd (file_Close f3)), s1)
          | Inr (next, offs) \<Rightarrow>
              (case file_Seek f3 of
                 (Some e, f4) \<Rightarrow> Ret (Inl (SeekEndFailed e, snd (file_Close f4)), s1)
               | (None, f4) \<Rightarrow>
                   Ret (Inr \<lparr>path = pth, fd = f4, wr = NewWriter, next_pos = next,
                     byteOffsets = offs, pendingSeq = 0, flushedSeq = 0, flushErr = None,
                     leading = False, writeOffset = length (content f4)\<rparr>, s1))))"
proof -
  let ?f = "(disk (log_bytes rs @ tail))\<lparr>closed := False\<rparr>"
  have num: "\<forall>i < length rs. CommitPosition (rs ! i) = 1 + of_nat i"
    using wf by (auto simp: well_formed_def numbered_def)
  have len: "headerSize + length (concat (map frame rs)) = length (log_bytes rs)"
    by (simp add: log_bytes_def)
  have "recover_loop replay (reading (concat (map frame rs) @ tail) None) ?f 1 headerSize [] s =
      recover_loop replay (reading tail None) ?f (1 + of_nat (length rs))
        (length (log_bytes rs)) (offsets_from headerSize rs) s'"
    using recover_loop_frames [OF rep _ num] wf len by (simp add: well_formed_def)
  then have rec: "wal_recover replay ?f s =
      recover_loop replay (reading tail None) ?f (of_nat (Suc (length rs)))
        (length (log_bytes rs)) (offsets_from headerSize rs) s'"
    by (simp add: wal_recover_def file_Seek_def log_bytes_def)
  have "ensureHeader ?f = (None, ?f)"
    by (rule ensureHeader_ok [of _ "concat (map frame rs) @ tail"]) (simp_all add: log_bytes_def)
  then show ?thesis by (simp add: wal_Open_def rec Let_def)
qed

text \<open>
  C31. Corruption is detected: if one byte of a record behind its length field is changed,
  wherever the record stands in the log and whatever follows it, \<^verbatim>\<open>Open\<close> fails with a checksum error
  at the offset of the record.
\<close>

theorem wal_Open_corrupt_byte:
  assumes wf: "well_formed rs" and fits: "fits r"
    and i: "4 \<le> i" "i < length (frame r)" and b: "b \<noteq> frame r ! i"
    and rep: "replay_all replay rs s = Ret (Some s')"
  shows "\<exists>got want f. wal_Open pth (disk (log_bytes rs @ (frame r)[i := b] @ rest)) replay s =
    Ret (Inl (CorruptRecord (length (log_bytes rs)) (ChecksumMismatch got want), f), s')"
proof -
  let ?len = "of_nat (length (record_body r)) :: u32" and ?j = "i - 4"
  have fr: "(frame r)[i := b] = PutUint32 ?len @ (record_body r)[?j := b]"
    using i by (simp add: frame_def list_update_append)
  have "?j < length (record_body r)" "b \<noteq> record_body r ! ?j"
    using i b by (simp_all add: frame_def nth_append)
  then obtain got want where
    bad: "readBody ?len ((record_body r)[?j := b]) = Ret (ReadErr (ChecksumMismatch got want))"
    using readBody_corrupt by blast
  have "length ((record_body r)[?j := b]) < 2 ^ 32" using fits by (simp add: fits_def)
  from readRecord_body [OF this, of rest None]
  have "readRecord (reading ((frame r)[i := b] @ rest) None) =
      (Ret (ReadErr (ChecksumMismatch got want)), reading rest None)"
    by (simp add: fr bad del: length_record_body)
  then show ?thesis
    by (simp add: wal_Open_prefix [OF wf rep] recover_loop.simps [of replay "reading ((frame r)[i := b] @ rest) None"])
qed

theorem wal_Open_corrupt_byte_witness:
  "\<exists>got want f. wal_Open [] (disk (log_bytes [] @ (frame sample_record)[21 := 7] @ [])) collect [] =
    Ret (Inl (CorruptRecord (length (log_bytes [])) (ChecksumMismatch got want), f), [])"
  by (rule wal_Open_corrupt_byte)
    (simp_all add: frame_def record_body_def encodePayload_def sample_record_def fits_def Let_def
      PutUint32_def PutUint64_def)

lemma readRecord_long_length:
  assumes "length rest < unat len"
  shows "fst (readRecord (reading (PutUint32 len @ rest) None)) = Ret ReadTorn"
  using assms by (simp add: readRecord_def ReadFull_def)

text \<open>
  A damaged length field that announces more bytes than the file has left is taken for a
  torn write: \<^verbatim>\<open>Open\<close> succeeds and cuts off this record and every record behind it.
\<close>

lemma wal_Open_damaged_length:
  assumes wf: "well_formed rs" and rep: "replay_all replay rs s = Ret (Some s')"
    and long: "length rest < unat len"
  shows "wal_Open pth (disk (log_bytes rs @ PutUint32 len @ rest)) replay s = Ret (Inr (opened pth rs), s')"
proof -
  obtain r1 where "readRecord (reading (PutUint32 len @ rest) None) = (Ret ReadTorn, r1)"
    using readRecord_long_length [OF long] by (metis prod.collapse)
  then show ?thesis
    by (simp add: wal_Open_prefix [OF wf rep] recover_loop.simps [of replay "reading (PutUint32 len @ rest) None"]
        file_Truncate_def file_Seek_def opened_def Let_def) (simp add: disk_def)
qed

lemma wal_Open_damaged_length_example:
  "wal_Open [] (disk (log_bytes [] @ PutUint32 0xffff @ drop 4 (frame sample_record))) collect [] =
    Ret (Inr (opened [] []), [])"
  by (rule wal_Open_damaged_length) (simp_all add: sample_record_def)

text \<open>
  So does a read error of the device during recovery: the record at which the read failed
  and everything behind it is cut off the file.
\<close>

lemma wal_Open_read_error:
  assumes "f = (disk (log_bytes rs))\<lparr>faults := [FOk, FOk, FOk, FOk, FErr 0]\<rparr>"
  shows "wal_Open pth f replay s = Ret (Inr (opened pth []), s)"
proof -
  have h: "take 5 (log_bytes rs) = header" "log_bytes rs \<noteq> []" "5 \<le> length (log_bytes rs)"
    by (auto simp: log_bytes_def header_def walMagic_def)
  then show ?thesis
    by (auto simp: assms wal_Open_def syscall_def disk_def ensureHeader_def file_Stat_def file_ReadAt_def
        wal_recover_def file_Seek_def file_reader_def recover_loop.simps readRecord_def ReadFull_def
        file_Truncate_def opened_def headerSize_def header_def walMagic_def)
qed

text \<open>A file that holds part of a header only, as a crash during creation leaves it, cannot be opened.\<close>

lemma wal_Open_torn_header:
  assumes "0 < length bs" and "length bs < headerSize"
  shows "\<exists>f. wal_Open pth (disk bs) replay s = Ret (Inl (ReadHeaderFailed EOF, f), s)"
  using assms
  by (simp add: wal_Open_def ensureHeader_def file_Stat_def file_ReadAt_def)

end
