(* ===== verification/GroupCommit.thy ===== *)
theory GroupCommit
  imports WalSpec
begin

text \<open>
  Group commit: concurrent calls of \<^verbatim>\<open>Append\<close> and \<^verbatim>\<open>Close\<close> on one log
  (\<^verbatim>\<open>internal/wal/wal.go\<close>).  A call runs atomically while it holds \<^verbatim>\<open>w.mu\<close>; it gives the mutex
  up around \<^verbatim>\<open>w.file.Sync()\<close> and in \<^verbatim>\<open>w.cond.Wait()\<close>, and there the calls interleave.  The
  theorems hold for every schedule and every script of faults.
\<close>

section \<open>Calls and their program counters\<close>

datatype call = CallAppend Record | CallClose

text \<open>
  Where a call stands between two critical sections: before its first one; asleep in
  \<^verbatim>\<open>w.cond.Wait()\<close> until a broadcast (\<^verbatim>\<open>mySeq\<close>); notified by a broadcast, before it has the mutex
  again; leader inside \<^verbatim>\<open>Sync\<close> (\<^verbatim>\<open>mySeq\<close>, \<^verbatim>\<open>flushSeq\<close>); leader back from \<^verbatim>\<open>Sync\<close> with its result;
  returned.  The record is the one with its commit position.
\<close>

datatype pc =
    Idle
  | Waiting Record nat
  | Woken Record nat
  | Syncing Record nat nat
  | Synced Record nat nat "os_error option"
  | Returned Record "wal_error + u64"
  | CloseWaiting
  | CloseWoken
  | CloseReturned "wal_error option"

text \<open>
  A critical section yields the log, where the call stands after it, and whether it called
  \<^verbatim>\<open>w.cond.Broadcast()\<close>.
\<close>

type_synonym section_end = "wal \<times> pc \<times> bool"

text \<open>The head of the leader's loop, up to the unlock before \<^verbatim>\<open>Sync\<close>.\<close>

definition lead_start :: "Record \<Rightarrow> nat \<Rightarrow> wal \<Rightarrow> section_end" where
  "lead_start r mySeq w =
     (let flushSeq = pendingSeq w in
      case lead_flush w of
        (Some e, w1) \<Rightarrow> (w1, Returned r (Inl e), True)
      | (None, w1) \<Rightarrow> (w1, Syncing r mySeq flushSeq, False))"

text \<open>
  The follower's loop around \<^verbatim>\<open>w.cond.Wait()\<close> and what comes after it, entered once after the
  record was buffered and again after every broadcast.
\<close>

definition await :: "Record \<Rightarrow> nat \<Rightarrow> wal \<Rightarrow> section_end" where
  "await r mySeq w =
     (if flushedSeq w < mySeq then (w, Waiting r mySeq, False)
      else (w, Returned r (case flushErr w of Some e \<Rightarrow> Inl e | None \<Rightarrow> Inr (CommitPosition r)), False))"

definition call_append :: "Record \<Rightarrow> wal \<Rightarrow> section_end" where
  "call_append rec w =
     (case append_buffer rec w of
        (Inl e, w1) \<Rightarrow> (w1, Returned rec (Inl e), False)
      | (Inr (pos, mySeq), w1) \<Rightarrow>
          (let r = rec\<lparr>CommitPosition := pos\<rparr> in
           if leading w1 then await r mySeq w1
           else lead_start r mySeq (w1\<lparr>leading := True\<rparr>)))"

text \<open>The rest of the loop body, after \<^verbatim>\<open>Sync\<close> and the lock.\<close>

definition after_sync :: "Record \<Rightarrow> nat \<Rightarrow> nat \<Rightarrow> os_error option \<Rightarrow> wal \<Rightarrow> section_end" where
  "after_sync r mySeq flushSeq syncErr w =
     (case lead_synced flushSeq syncErr w of
        (Some e, w1) \<Rightarrow> (w1, Returned r (Inl e), True)
      | (None, w1) \<Rightarrow>
          if pendingSeq w1 = flushSeq then (w1\<lparr>leading := False\<rparr>, Returned r (Inr (CommitPosition r)), True)
          else (case lead_start r mySeq w1 of (w2, p, _) \<Rightarrow> (w2, p, True)))"

text \<open>\<^verbatim>\<open>Close\<close>: its loop around \<^verbatim>\<open>w.cond.Wait()\<close>, and what comes after it.\<close>

definition call_close :: "wal \<Rightarrow> section_end" where
  "call_close w =
     (if leading w then (w, CloseWaiting, False)
      else case wal_Close w of (e, w1) \<Rightarrow> (w1, CloseReturned e, False))"

text \<open>The next step of one call; \<open>None\<close> when it is asleep or has returned.\<close>

fun call_step :: "call \<Rightarrow> pc \<Rightarrow> wal \<Rightarrow> section_end option" where
  "call_step (CallAppend rec) Idle w = Some (call_append rec w)"
| "call_step CallClose Idle w = Some (call_close w)"
| "call_step c (Waiting r mySeq) w = None"
| "call_step c (Woken r mySeq) w = Some (await r mySeq w)"
| "call_step c (Syncing r mySeq flushSeq) w =
     (case lead_sync w of (e, w1) \<Rightarrow> Some (w1, Synced r mySeq flushSeq e, False))"
| "call_step c (Synced r mySeq flushSeq e) w = Some (after_sync r mySeq flushSeq e w)"
| "call_step c (Returned r res) w = None"
| "call_step c CloseWaiting w = None"
| "call_step c CloseWoken w = Some (call_close w)"
| "call_step c (CloseReturned e) w = None"

text \<open>\<^verbatim>\<open>Broadcast\<close> notifies the calls that are asleep at that moment, and no others.\<close>

fun notify :: "pc \<Rightarrow> pc" where
  "notify (Waiting r mySeq) = Woken r mySeq"
| "notify CloseWaiting = CloseWoken"
| "notify p = p"

definition broadcast :: "bool \<Rightarrow> pc list \<Rightarrow> pc list" where
  "broadcast b pcs = (if b then map notify pcs else pcs)"

fun gc_step :: "call list \<Rightarrow> nat \<Rightarrow> wal \<times> pc list \<Rightarrow> (wal \<times> pc list) option" where
  "gc_step calls t (w, pcs) =
     (if t < length calls then
        map_option (\<lambda>(w1, p, b). (w1, (broadcast b pcs)[t := p])) (call_step (calls ! t) (pcs ! t) w)
      else None)"

definition gc_init :: "call list \<Rightarrow> wal \<Rightarrow> wal \<times> pc list" where
  "gc_init calls w = (w, replicate (length calls) Idle)"

text \<open>
  A call that was notified may find that it has to go on waiting: \<open>vain\<close> tells such a step.  The
  states some schedule of \<open>n\<close> other steps and \<open>m\<close> vain ones leads to.
\<close>

fun vain :: "pc \<Rightarrow> pc \<Rightarrow> bool" where
  "vain (Woken _ _) (Waiting _ _) = True"
| "vain CloseWoken CloseWaiting = True"
| "vain _ _ = False"

inductive gc_reach :: "call list \<Rightarrow> wal \<Rightarrow> nat \<Rightarrow> nat \<Rightarrow> wal \<times> pc list \<Rightarrow> bool" for calls w where
  gc_start: "gc_reach calls w 0 0 (gc_init calls w)"
| gc_move: "gc_reach calls w n m s \<Longrightarrow> gc_step calls t s = Some s1 \<Longrightarrow> \<not> vain (snd s ! t) (snd s1 ! t) \<Longrightarrow>
    gc_reach calls w (Suc n) m s1"
| gc_vain: "gc_reach calls w n m s \<Longrightarrow> gc_step calls t s = Some s1 \<Longrightarrow> vain (snd s ! t) (snd s1 ! t) \<Longrightarrow>
    gc_reach calls w n (Suc m) s1"

section \<open>The invariant\<close>

fun leads :: "pc \<Rightarrow> bool" where
  "leads (Syncing _ _ _) = True"
| "leads (Synced _ _ _ _) = True"
| "leads _ = False"

fun asleep :: "pc \<Rightarrow> bool" where
  "asleep (Waiting _ _) = True"
| "asleep CloseWaiting = True"
| "asleep _ = False"

definition stable :: "wal \<Rightarrow> Record list \<Rightarrow> nat \<Rightarrow> bool" where
  "stable w att m \<longleftrightarrow> m \<le> length att \<and> length (log_bytes (take m att)) \<le> durable (fd w)"

definition written :: "wal \<Rightarrow> Record list \<Rightarrow> nat \<Rightarrow> bool" where
  "written w att m \<longleftrightarrow> m \<le> length att \<and> length (log_bytes (take m att)) \<le> length (content (fd w))"

text \<open>
  The record with sequence number \<open>k\<close> is number \<open>n0 + k\<close> of the log, where \<open>n0\<close> is the length of the log
  that was opened.
\<close>

definition core :: "wal \<Rightarrow> Record list \<Rightarrow> nat \<Rightarrow> bool" where
  "core w att n0 \<longleftrightarrow>
     log_state w att 0 \<and> n0 + pendingSeq w \<le> length att
     \<and> (werr (wr w) = None \<longrightarrow> n0 + pendingSeq w = length att)
     \<and> flushedSeq w \<le> pendingSeq w
     \<and> (flushErr w = None \<longrightarrow> stable w att (n0 + flushedSeq w))
     \<and> (\<not> leading w \<longrightarrow> flushedSeq w = pendingSeq w)"

definition seq_rec :: "wal \<Rightarrow> Record list \<Rightarrow> nat \<Rightarrow> nat \<Rightarrow> Record \<Rightarrow> bool" where
  "seq_rec w att n0 k r \<longleftrightarrow> 0 < k \<and> k \<le> pendingSeq w \<and> n0 + k \<le> length att \<and> att ! (n0 + k - 1) = r"

fun pc_inv :: "wal \<Rightarrow> Record list \<Rightarrow> nat \<Rightarrow> pc \<Rightarrow> bool" where
  "pc_inv w att n0 (Waiting r k) \<longleftrightarrow> seq_rec w att n0 k r"
| "pc_inv w att n0 (Woken r k) \<longleftrightarrow> seq_rec w att n0 k r"
| "pc_inv w att n0 (Syncing r k fs) \<longleftrightarrow>
     seq_rec w att n0 k r \<and> k \<le> fs \<and> fs \<le> pendingSeq w \<and> written w att (n0 + fs)"
| "pc_inv w att n0 (Synced r k fs e) \<longleftrightarrow>
     seq_rec w att n0 k r \<and> k \<le> fs \<and> fs \<le> pendingSeq w \<and> (e = None \<longrightarrow> stable w att (n0 + fs))"
| "pc_inv w att n0 (Returned r (Inr pos)) \<longleftrightarrow>
     pos = CommitPosition r \<and> (\<exists>i < length att. att ! i = r \<and> stable w att (Suc i))"
| "pc_inv w att n0 _ \<longleftrightarrow> True"

definition gc_inv :: "wal \<times> pc list \<Rightarrow> Record list \<Rightarrow> nat \<Rightarrow> bool" where
  "gc_inv s att n0 \<longleftrightarrow>
     core (fst s) att n0 \<and> (\<forall>p \<in> set (snd s). pc_inv (fst s) att n0 p)
     \<and> length (filter leads (snd s)) = (if leading (fst s) then 1 else 0)
     \<and> ((\<exists>p \<in> set (snd s). asleep p) \<longrightarrow> leading (fst s))"

text \<open>A broadcast changes nothing but who is asleep.\<close>

lemma notify_frame [simp]:
  "pc_inv w att n0 (notify p) = pc_inv w att n0 p" "leads (notify p) = leads p" "\<not> asleep (notify p)"
  by (cases p; simp)+

lemma broadcast_length [simp]: "length (broadcast b pcs) = length pcs"
  by (simp add: broadcast_def)

lemma broadcast_leads [simp]:
  "length (filter leads (broadcast b pcs)) = length (filter leads pcs)"
  "t < length pcs \<Longrightarrow> leads (broadcast b pcs ! t) = leads (pcs ! t)"
  by (simp_all add: broadcast_def filter_map comp_def)

lemma broadcast_asleep: "p \<in> set (broadcast b pcs) \<Longrightarrow> asleep p \<Longrightarrow> p \<in> set pcs \<and> \<not> b"
  by (auto simp: broadcast_def split: if_splits)

lemma notify_awake: "\<not> asleep p \<Longrightarrow> notify p = p"
  by (cases p) simp_all

lemma broadcast_awake: "\<forall>p \<in> set pcs. \<not> asleep p \<Longrightarrow> broadcast b pcs = pcs"
  by (auto simp: broadcast_def notify_awake intro!: map_idI)

lemma broadcast_inv:
  "\<forall>p \<in> set pcs. pc_inv w att n0 p \<Longrightarrow> p \<in> set (broadcast b pcs) \<Longrightarrow> pc_inv w att n0 p"
  by (auto simp: broadcast_def split: if_splits)

text \<open>Steps of other calls keep what is known at a program counter.\<close>

definition extends :: "wal \<Rightarrow> wal \<Rightarrow> bool" where
  "extends w w1 \<longleftrightarrow> pendingSeq w \<le> pendingSeq w1 \<and> durable (fd w) \<le> durable (fd w1)
     \<and> length (content (fd w)) \<le> length (content (fd w1))"

lemma extends_refl [simp]: "extends w w"
  by (simp add: extends_def)

lemma extends_trans: "extends w w1 \<Longrightarrow> extends w1 w2 \<Longrightarrow> extends w w2"
  by (auto simp: extends_def)

lemma stable_extends: "stable w att m \<Longrightarrow> extends w w1 \<Longrightarrow> stable w1 (att @ new) m"
  by (auto simp: stable_def extends_def)

lemma written_extends: "written w att m \<Longrightarrow> extends w w1 \<Longrightarrow> written w1 (att @ new) m"
  by (auto simp: written_def extends_def)

lemma seq_rec_extends: "seq_rec w att n0 k r \<Longrightarrow> extends w w1 \<Longrightarrow> seq_rec w1 (att @ new) n0 k r"
  by (auto simp: seq_rec_def extends_def nth_append)

lemma pc_inv_extends:
  assumes "pc_inv w att n0 p" and "extends w w1"
  shows "pc_inv w1 (att @ new) n0 p"
proof (cases p)
  case (Returned r res)
  show ?thesis
  proof (cases res)
    case (Inr pos)
    with assms(1) Returned obtain i where "pos = CommitPosition r" "i < length att" "att ! i = r"
      "stable w att (Suc i)" by auto
    with stable_extends [OF _ assms(2)] Inr Returned show ?thesis
      by (auto simp: nth_append intro: exI [of _ i])
  qed (simp add: Returned)
qed (use assms in \<open>auto intro: stable_extends written_extends seq_rec_extends simp: extends_def\<close>)

lemma seq_rec_stable:
  assumes "seq_rec w att n0 k r" and "stable w att (n0 + m)" and "k \<le> m"
  shows "\<exists>i < length att. att ! i = r \<and> stable w att (Suc i)"
proof -
  have "stable w att (Suc (n0 + k - 1))"
    using assms length_log_bytes_take_mono [of "n0 + k" "n0 + m" att]
    by (auto simp: seq_rec_def stable_def)
  with assms(1) show ?thesis by (auto simp: seq_rec_def intro!: exI [of _ "n0 + k - 1"])
qed

section \<open>The critical sections\<close>

lemma core_leading [simp]: "core w att n0 \<Longrightarrow> core (w\<lparr>leading := True\<rparr>) att n0"
  by (simp add: core_def log_state_def stable_def)

lemma lead_start_inv:
  assumes core: "core w att n0" and lead: "leading w" and sq: "seq_rec w att n0 k r"
    and st: "lead_start r k w = (w1, p, b1)"
  shows "core w1 att n0 \<and> pc_inv w1 att n0 p \<and> extends w w1 \<and> leading w1 = leads p \<and> b1 = (\<not> leads p) \<and> \<not> asleep p"
proof (cases "bufio_Flush (wr w) (fd w)")
  case (fields e b f)
  note eff = bufio_Flush_effect [OF fields]
  from core obtain rest where ls: "well_formed att" "content (fd w) @ rest = log_bytes att"
    "werr (wr w) = None \<longrightarrow> rest = wbuf (wr w) \<and> next_pos w = of_nat (Suc (length att))"
    "length (log_bytes (take 0 att)) \<le> durable (fd w)" "durable (fd w) \<le> length (content (fd w))"
    by (auto simp: core_def log_state_def)
  show ?thesis
  proof (cases e)
    case None
    with st fields have w1: "w1 = w\<lparr>wr := b, fd := f\<rparr>" "p = Syncing r k (pendingSeq w)" "\<not> b1"
      by (auto simp: lead_start_def lead_flush_def)
    have f: "content f = log_bytes att" "wbuf b = []" "werr b = None" "werr (wr w) = None"
      using eff None ls by auto
    with w1 ls core sq lead eff show ?thesis
      by (auto simp: core_def log_state_def extends_def written_def stable_def seq_rec_def)
  next
    case (Some err)
    with st fields have w1: "p = Returned r (Inl (FlushFailed err))" b1
      "w1 = w\<lparr>wr := b, fd := f, leading := False, flushErr := Some (FlushFailed err), flushedSeq := pendingSeq w\<rparr>"
      by (auto simp: lead_start_def lead_flush_def)
    have "\<exists>rest. content f @ rest = log_bytes att"
    proof (cases "werr (wr w)")
      case None
      with ls eff show ?thesis by metis
    next
      case (Some e2)
      with fields have "f = fd w" by (simp add: bufio_Flush_def)
      with ls show ?thesis by blast
    qed
    with w1 ls core eff Some show ?thesis
      by (auto simp: core_def log_state_def extends_def)
  qed
qed

lemma append_buffer_seq:
  assumes "append_buffer rec w = (res, w1)"
  shows "leading w1 = leading w \<and> flushedSeq w1 = flushedSeq w \<and> flushErr w1 = flushErr w
    \<and> (case res of Inl _ \<Rightarrow> pendingSeq w1 = pendingSeq w
       | Inr (_, k) \<Rightarrow> k = Suc (pendingSeq w) \<and> pendingSeq w1 = k)"
  using assms
  by (auto simp: append_buffer_def Let_def simp del: length_record_body split: prod.splits option.splits)

lemma append_buffer_inv:
  assumes core: "core w att n0" and fits: "fits rec" and buf: "append_buffer rec w = (res, w1)"
  shows "\<exists>new. extends w w1 \<and> (case res of
      Inl _ \<Rightarrow> core w1 (att @ new) n0
    | Inr (pos, k) \<Rightarrow> core (w1\<lparr>leading := True\<rparr>) (att @ new) n0 \<and> seq_rec w1 (att @ new) n0 k (rec\<lparr>CommitPosition := pos\<rparr>))"
proof (cases "werr (wr w)")
  case (Some e)
  from append_buffer_stuck [OF Some buf] append_buffer_seq [OF buf] core Some show ?thesis
    by (intro exI [of _ "[]"]) (auto simp: core_def log_state_def extends_def stable_def)
next
  case None
  let ?rec = "rec\<lparr>CommitPosition := next_pos w\<rparr>"
  from append_buffer_effect [OF None buf] obtain rest where eff:
    "content (fd w1) @ rest = content (fd w) @ wbuf (wr w) @ frame ?rec" "length (content (fd w)) \<le> length (content (fd w1))"
    "durable (fd w1) = durable (fd w)" "next_pos w1 = next_pos w + 1"
    "case res of Inr (pos, _) \<Rightarrow> pos = next_pos w \<and> werr (wr w1) = None \<and> rest = wbuf (wr w1)
       | Inl _ \<Rightarrow> werr (wr w1) \<noteq> None"
    by (elim exE conjE) (rule that)
  from core None have base: "content (fd w) @ wbuf (wr w) = log_bytes att"
    "next_pos w = of_nat (Suc (length att))" "well_formed att" "n0 + pendingSeq w = length att"
    "length (log_bytes (take 0 att)) \<le> durable (fd w)" "durable (fd w) \<le> length (content (fd w))"
    by (auto simp: core_def log_state_def)
  have wf: "well_formed (att @ [?rec])" using base fits by (simp add: well_formed_snoc fits_def)
  have bytes: "content (fd w1) @ rest = log_bytes (att @ [?rec])"
    using eff(1) by (simp add: base(1) [symmetric])
  have ext: "extends w w1" using eff(2,3) append_buffer_seq [OF buf] by (auto simp: extends_def split: sum.splits)
  have st: "flushErr w1 = None \<longrightarrow> stable w1 (att @ [?rec]) (n0 + flushedSeq w1)"
    using core append_buffer_seq [OF buf] stable_extends [OF _ ext, of att _ "[?rec]"] by (simp add: core_def)
  have "(case res of Inl _ \<Rightarrow> core w1 (att @ [?rec]) n0
    | Inr (pos, k) \<Rightarrow> core (w1\<lparr>leading := True\<rparr>) (att @ [?rec]) n0 \<and> seq_rec w1 (att @ [?rec]) n0 k (rec\<lparr>CommitPosition := pos\<rparr>))"
    using append_buffer_seq [OF buf] base(2-) eff(2-) bytes wf st core
    by (auto simp: core_def log_state_def stable_def seq_rec_def split: sum.splits)
  with ext show ?thesis by blast
qed

lemma await_inv:
  assumes core: "core w att n0" and sq: "seq_rec w att n0 k r" and st: "await r k w = (w1, p, b)"
  shows "w1 = w \<and> pc_inv w att n0 p \<and> \<not> leads p \<and> (asleep p \<longrightarrow> leading w)"
  using st seq_rec_stable [OF sq, of "flushedSeq w"] core sq
  by (auto simp: await_def core_def seq_rec_def split: if_splits option.splits)

lemma call_append_inv:
  assumes core: "core w att n0" and fits: "fits rec" and st: "call_append rec w = (w1, p, b)"
  shows "\<exists>new. core w1 (att @ new) n0 \<and> pc_inv w1 (att @ new) n0 p \<and> extends w w1
    \<and> leading w1 = (leading w \<or> leads p) \<and> (leads p \<longrightarrow> \<not> leading w) \<and> (asleep p \<longrightarrow> leading w1)"
proof (cases "append_buffer rec w")
  case (Pair res w2)
  note sq = append_buffer_seq [OF Pair]
  from append_buffer_inv [OF core fits Pair] obtain new where ext: "extends w w2"
    and inv: "case res of Inl _ \<Rightarrow> core w2 (att @ new) n0
    | Inr (pos, k) \<Rightarrow> core (w2\<lparr>leading := True\<rparr>) (att @ new) n0 \<and> seq_rec w2 (att @ new) n0 k (rec\<lparr>CommitPosition := pos\<rparr>)"
    by blast
  show ?thesis
  proof (cases res)
    case (Inl e)
    with Pair st inv ext sq show ?thesis by (auto simp: call_append_def)
  next
    case (Inr pk)
    obtain pos k where pk: "pk = (pos, k)" by force
    let ?r = "rec\<lparr>CommitPosition := pos\<rparr>"
    have c2: "core (w2\<lparr>leading := True\<rparr>) (att @ new) n0" and s2: "seq_rec w2 (att @ new) n0 k ?r"
      using inv Inr pk by auto
    show ?thesis
    proof (cases "leading w")
      case True
      with st Pair Inr pk sq have aw: "await ?r k w2 = (w1, p, b)" and w2: "w2\<lparr>leading := True\<rparr> = w2"
        by (auto simp: call_append_def)
      from await_inv [OF c2 [unfolded w2] s2 aw] c2 [unfolded w2] ext sq True show ?thesis by auto
    next
      case False
      with st Pair Inr pk sq have ls: "lead_start ?r k (w2\<lparr>leading := True\<rparr>) = (w1, p, b)"
        by (auto simp: call_append_def)
      have "seq_rec (w2\<lparr>leading := True\<rparr>) (att @ new) n0 k ?r" using s2 by (simp add: seq_rec_def)
      from lead_start_inv [OF c2 _ this ls] ext have
        "core w1 (att @ new) n0 \<and> pc_inv w1 (att @ new) n0 p \<and> extends w w1 \<and> leading w1 = leads p \<and> \<not> asleep p"
        by (auto simp: extends_def)
      with False show ?thesis by auto
    qed
  qed
qed

lemma lead_sync_inv:
  assumes core: "core w att n0" and pi: "pc_inv w att n0 (Syncing r k fs)" and st: "lead_sync w = (e, w1)"
  shows "core w1 att n0 \<and> pc_inv w1 att n0 (Synced r k fs e) \<and> extends w w1 \<and> leading w1 = leading w"
proof -
  obtain f where f: "file_Sync (fd w) = (e, f)" "w1 = w\<lparr>fd := f\<rparr>"
    using st by (auto simp: lead_sync_def split: prod.splits)
  from file_Sync_effect [OF f(1)] core pi f(2) show ?thesis
    by (auto simp: core_def log_state_def extends_def stable_def written_def seq_rec_def split: if_splits)
qed

lemma after_sync_inv:
  assumes core: "core w att n0" and lead: "leading w" and pi: "pc_inv w att n0 (Synced r k fs e)"
    and st: "after_sync r k fs e w = (w1, p, b)"
  shows "core w1 att n0 \<and> pc_inv w1 att n0 p \<and> extends w w1 \<and> leading w1 = leads p \<and> \<not> asleep p \<and> b"
proof (cases e)
  case (Some err)
  with st core show ?thesis
    by (auto simp: after_sync_def lead_synced_def core_def log_state_def extends_def)
next
  case None
  let ?w = "w\<lparr>flushedSeq := fs, flushErr := None\<rparr>"
  have c: "core ?w att n0" using core lead pi None by (auto simp: core_def log_state_def stable_def)
  have sq: "seq_rec ?w att n0 k r" using pi by (simp add: seq_rec_def)
  show ?thesis
  proof (cases "pendingSeq w = fs")
    case True
    with None st have w1: "w1 = ?w\<lparr>leading := False\<rparr>" "p = Returned r (Inr (CommitPosition r))" b
      by (auto simp: after_sync_def lead_synced_def)
    have "\<exists>i < length att. att ! i = r \<and> stable w att (Suc i)"
      by (rule seq_rec_stable [of w att n0 k r fs]) (use pi None in auto)
    with w1 c True show ?thesis
      by (auto simp: core_def log_state_def stable_def extends_def)
  next
    case False
    with None st obtain b1 where ls: "lead_start r k ?w = (w1, p, b1)" and b
      by (auto simp: after_sync_def lead_synced_def split: prod.splits)
    from lead_start_inv [OF c _ sq ls] lead \<open>b\<close> show ?thesis by (auto simp: extends_def)
  qed
qed

lemma wal_Close_inv:
  assumes core: "core w att n0" and st: "wal_Close w = (e, w1)"
  shows "core w1 att n0 \<and> extends w w1 \<and> leading w1 = leading w"
proof (cases "bufio_Flush (wr w) (fd w)")
  case (fields fe b f)
  note eff = bufio_Flush_effect [OF fields]
  obtain ce f2 where cl: "file_Close f = (ce, f2)" by (metis prod.exhaust)
  then have f2: "content f2 = content f \<and> durable f2 = durable f"
    by (auto simp: file_Close_def split: prod.splits dest!: syscall_frame)
  obtain g where w1: "w1 = w\<lparr>wr := b, fd := g\<rparr>" and g: "content g = content f" "durable g = durable f"
    using st fields cl f2 by (cases fe) (auto simp: wal_Close_def)
  from core obtain rest where ls: "content (fd w) @ rest = log_bytes att"
    "werr (wr w) = None \<longrightarrow> rest = wbuf (wr w)" by (auto simp: core_def log_state_def)
  have "\<exists>rest. content f @ rest = log_bytes att \<and> (werr b = None \<longrightarrow> rest = wbuf b)"
  proof (cases "werr (wr w)")
    case None
    with ls eff show ?thesis by (intro exI [of _ "wbuf b"]) simp
  next
    case (Some e2)
    with fields have "f = fd w" "b = wr w" by (simp_all add: bufio_Flush_def)
    with ls show ?thesis by auto
  qed
  with core eff w1 g show ?thesis
    by (auto simp: core_def log_state_def extends_def stable_def)
qed

lemma call_close_inv:
  assumes core: "core w att n0" and st: "call_close w = (w1, p, b)"
  shows "core w1 att n0 \<and> pc_inv w1 att n0 p \<and> extends w w1 \<and> leading w1 = leading w \<and> \<not> leads p
    \<and> (asleep p \<longrightarrow> leading w)"
  using st wal_Close_inv [OF core] core by (auto simp: call_close_def split: if_splits prod.splits)

section \<open>Every schedule\<close>

definition calls_fit :: "call list \<Rightarrow> bool" where
  "calls_fit calls \<longleftrightarrow> (\<forall>c \<in> set calls. case c of CallAppend r \<Rightarrow> fits r | CallClose \<Rightarrow> True)"

lemma leads_update:
  assumes "t < length pcs"
  shows "length (filter leads (pcs[t := p])) + (if leads (pcs ! t) then 1 else 0) =
    length (filter leads pcs) + (if leads p then 1 else 0)"
  using assms
proof (induction pcs arbitrary: t)
  case (Cons q pcs)
  then show ?case by (cases t) auto
qed simp

lemma leads_unique:
  assumes "gc_inv (w, pcs) att n0" and "t < length pcs" and "leads (pcs ! t)"
  shows "leading w"
proof (rule ccontr)
  assume "\<not> leading w"
  with assms(1) have "filter leads pcs = []" by (simp add: gc_inv_def)
  with assms(2,3) show False by (metis filter_empty_conv nth_mem)
qed

text \<open>What one step of one call has to establish.\<close>

lemma gc_inv_update:
  assumes inv: "gc_inv (w, pcs) att n0" and t: "t < length pcs"
    and new: "core w1 (att @ new) n0" "pc_inv w1 (att @ new) n0 p" "extends w w1"
    and lead: "leading w1 = (leads p \<or> leading w \<and> \<not> leads (pcs ! t))" "leads p \<longrightarrow> leads (pcs ! t) \<or> \<not> leading w"
    and sleep: "asleep p \<longrightarrow> leading w1" "leads (pcs ! t) \<longrightarrow> leading w1 \<or> b"
  shows "gc_inv (w1, (broadcast b pcs)[t := p]) (att @ new) n0"
proof -
  have elem: "q = p \<or> q \<in> set (broadcast b pcs)" if "q \<in> set ((broadcast b pcs)[t := p])" for q
    using that set_update_subset_insert [of "broadcast b pcs" t p] by auto
  have "\<forall>q \<in> set pcs. pc_inv w1 (att @ new) n0 q" using inv new(3) pc_inv_extends by (auto simp: gc_inv_def)
  then have "pc_inv w1 (att @ new) n0 q" if "q \<in> set ((broadcast b pcs)[t := p])" for q
    using elem [OF that] new(2) broadcast_inv by blast
  moreover have "length (filter leads ((broadcast b pcs)[t := p])) = (if leading w1 then 1 else 0)"
    using leads_update [of t "broadcast b pcs" p] t inv lead leads_unique [OF inv t]
    by (auto simp: gc_inv_def split: if_splits)
  moreover have "leading w1" if "q \<in> set ((broadcast b pcs)[t := p])" "asleep q" for q
    using elem [OF that(1)] that(2) broadcast_asleep [of q b pcs] sleep lead(1) inv by (auto simp: gc_inv_def)
  ultimately show ?thesis using new by (auto simp: gc_inv_def)
qed

lemma gc_step_elim:
  assumes "gc_step calls t (w, pcs) = Some s1" and "length pcs = length calls"
  obtains w1 p b where "t < length pcs" "call_step (calls ! t) (pcs ! t) w = Some (w1, p, b)"
    "s1 = (w1, (broadcast b pcs)[t := p])"
  using assms by (auto split: if_splits)

lemma gc_step_inv:
  assumes inv: "gc_inv (w, pcs) att n0" and len: "length pcs = length calls" and fit: "calls_fit calls"
    and st: "gc_step calls t (w, pcs) = Some s1"
  shows "\<exists>new. gc_inv s1 (att @ new) n0 \<and> length (snd s1) = length calls"
proof -
  from st len obtain w1 p b where t: "t < length pcs" and cs: "call_step (calls ! t) (pcs ! t) w = Some (w1, p, b)"
    and s1: "s1 = (w1, (broadcast b pcs)[t := p])" by (rule gc_step_elim)
  have core: "core w att n0" and pt: "pc_inv w att n0 (pcs ! t)" using inv t by (auto simp: gc_inv_def)
  have "\<exists>new. core w1 (att @ new) n0 \<and> pc_inv w1 (att @ new) n0 p \<and> extends w w1
    \<and> leading w1 = (leads p \<or> leading w \<and> \<not> leads (pcs ! t)) \<and> (leads p \<longrightarrow> leads (pcs ! t) \<or> \<not> leading w)
    \<and> (asleep p \<longrightarrow> leading w1) \<and> (leads (pcs ! t) \<longrightarrow> leading w1 \<or> b)"
  proof (cases "pcs ! t")
    case Idle
    show ?thesis
    proof (cases "calls ! t")
      case (CallAppend rec)
      then have "fits rec" using fit t len by (auto simp: calls_fit_def dest!: nth_mem)
      with call_append_inv [OF core this] cs CallAppend Idle show ?thesis by auto
    next
      case CallClose
      with call_close_inv [OF core, of w1 p b] Idle cs show ?thesis by (auto intro!: exI [of _ "[]"])
    qed
  next
    case (Woken r k)
    with await_inv [OF core, of k r w1 p b] cs pt core show ?thesis by (auto intro!: exI [of _ "[]"])
  next
    case (Syncing r k fs)
    with cs obtain e where "lead_sync w = (e, w1)" "p = Synced r k fs e" by (auto split: prod.splits)
    with lead_sync_inv [OF core] pt Syncing leads_unique [OF inv t] show ?thesis
      by (auto intro!: exI [of _ "[]"])
  next
    case (Synced r k fs e)
    with cs have st1: "after_sync r k fs e w = (w1, p, b)" by simp
    have "leading w" using leads_unique [OF inv t] Synced by simp
    from after_sync_inv [OF core this pt [unfolded Synced] st1] Synced show ?thesis
      by (auto intro!: exI [of _ "[]"])
  next
    case CloseWoken
    with call_close_inv [OF core, of w1 p b] cs show ?thesis by (auto intro!: exI [of _ "[]"])
  qed (use cs in auto)
  then obtain new where "gc_inv (w1, (broadcast b pcs)[t := p]) (att @ new) n0"
    using gc_inv_update [OF inv t] by blast
  with s1 t len show ?thesis by auto
qed

lemma gc_init_inv:
  assumes "log_of w rs" and "pendingSeq w = 0" and "flushedSeq w = 0"
  shows "gc_inv (gc_init calls w) rs (length rs)"
  using assms
  by (auto simp: gc_inv_def gc_init_def core_def stable_def log_of_def log_state_def log_bytes_def)

lemma gc_reach_inv:
  assumes "gc_reach calls w n m s" and "log_of w rs" and "pendingSeq w = 0" and "flushedSeq w = 0"
    and "calls_fit calls"
  shows "\<exists>new. gc_inv s (rs @ new) (length rs) \<and> length (snd s) = length calls"
  using assms
proof (induction rule: gc_reach.induct)
  case gc_start
  then show ?case using gc_init_inv by (intro exI [of _ "[]"]) (simp add: gc_init_def)
next
  case (gc_move n m s t s1)
  with gc_step_inv [of "fst s" "snd s" "rs @ _" "length rs" calls t s1] show ?case
    by (metis append.assoc prod.collapse)
next
  case (gc_vain n m s t s1)
  with gc_step_inv [of "fst s" "snd s" "rs @ _" "length rs" calls t s1] show ?case
    by (metis append.assoc prod.collapse)
qed

section \<open>Progress\<close>

fun returned :: "pc \<Rightarrow> bool" where
  "returned (Returned _ _) = True"
| "returned (CloseReturned _) = True"
| "returned _ = False"

text \<open>
  The steps that are left, vain ones apart: at most four for a call, the rounds it leads for others
  included.
\<close>

fun pc_weight :: "nat \<Rightarrow> pc \<Rightarrow> nat" where
  "pc_weight pend Idle = 4"
| "pc_weight pend (Waiting _ _) = 1"
| "pc_weight pend (Woken _ _) = 1"
| "pc_weight pend (Syncing _ _ fs) = 3 + 2 * (pend - fs)"
| "pc_weight pend (Synced _ _ fs _) = 2 + 2 * (pend - fs)"
| "pc_weight pend (Returned _ _) = 0"
| "pc_weight pend CloseWaiting = 1"
| "pc_weight pend CloseWoken = 1"
| "pc_weight pend (CloseReturned _) = 0"

definition gc_weight :: "wal \<times> pc list \<Rightarrow> nat" where
  "gc_weight s = sum_list (map (pc_weight (pendingSeq (fst s))) (snd s))"

fun woken :: "pc \<Rightarrow> bool" where
  "woken (Woken _ _) = True"
| "woken CloseWoken = True"
| "woken _ = False"

lemma notify_weight [simp]: "pc_weight pend (notify p) = pc_weight pend p"
  by (cases p) simp_all

lemma broadcast_weight [simp]:
  "map (pc_weight pend) (broadcast b pcs) = map (pc_weight pend) pcs"
  "t < length pcs \<Longrightarrow> pc_weight pend (broadcast b pcs ! t) = pc_weight pend (pcs ! t)"
  by (simp_all add: broadcast_def)

lemma pc_weight_Suc: "pc_weight (Suc n) p \<le> pc_weight n p + (if leads p then 2 else 0)"
  by (cases p) auto

lemma weight_Suc:
  "sum_list (map (pc_weight (Suc n)) pcs) \<le> sum_list (map (pc_weight n) pcs) + 2 * length (filter leads pcs)"
proof (induction pcs)
  case (Cons p pcs)
  with pc_weight_Suc [of n p] show ?case by (auto split: if_splits)
qed simp

lemma weight_update:
  assumes "t < length pcs"
  shows "sum_list (map f (pcs[t := p])) + f (pcs ! t) = sum_list (map f pcs) + (f p :: nat)"
  using assms
proof (induction pcs arbitrary: t)
  case (Cons q pcs)
  then show ?case by (cases t) auto
qed simp

lemma lead_start_weight:
  "lead_start r k w = (w1, p, b) \<Longrightarrow> pendingSeq w1 = pendingSeq w \<and> pc_weight (pendingSeq w1) p \<le> 3"
  by (auto simp: lead_start_def lead_flush_def split: prod.splits option.splits)

lemma call_append_weight:
  assumes "call_append rec w = (w1, p, b)"
  shows "(pendingSeq w1 = pendingSeq w \<or> pendingSeq w1 = Suc (pendingSeq w))
    \<and> pc_weight (pendingSeq w1) p + (if leading w then 2 else 0) < 4"
proof (cases "append_buffer rec w")
  case (Pair res w2)
  show ?thesis
  proof (cases res)
    case (Inl e)
    with assms Pair append_buffer_seq [OF Pair] show ?thesis by (auto simp: call_append_def)
  next
    case (Inr pk)
    obtain pos k where pk: "pk = (pos, k)" by force
    show ?thesis
    proof (cases "leading w")
      case True
      with assms Pair Inr pk append_buffer_seq [OF Pair] show ?thesis by (auto simp: call_append_def await_def Let_def split: if_splits)
    next
      case False
      with assms Pair Inr pk append_buffer_seq [OF Pair]
      have "lead_start (rec\<lparr>CommitPosition := pos\<rparr>) k (w2\<lparr>leading := True\<rparr>) = (w1, p, b)"
        "pendingSeq w2 = Suc (pendingSeq w)" by (auto simp: call_append_def)
      with lead_start_weight [OF this(1)] False show ?thesis by auto
    qed
  qed
qed

text \<open>The steps of a call that has its record in the log.\<close>

lemma after_sync_weight:
  assumes "after_sync r k fs e w = (w1, p, b)" and "fs \<le> pendingSeq w"
  shows "pendingSeq w1 = pendingSeq w \<and> pc_weight (pendingSeq w1) p < pc_weight (pendingSeq w) (Synced r k fs e)"
proof (cases e)
  case None
  show ?thesis
  proof (cases "pendingSeq w = fs")
    case False
    with None assms obtain b1 where ls: "lead_start r k (w\<lparr>flushedSeq := fs, flushErr := None\<rparr>) = (w1, p, b1)"
      by (auto simp: after_sync_def lead_synced_def split: prod.splits)
    from lead_start_weight [OF ls] False assms(2) show ?thesis by auto
  qed (use None assms in \<open>auto simp: after_sync_def lead_synced_def\<close>)
qed (use assms in \<open>auto simp: after_sync_def lead_synced_def\<close>)

lemma wal_Close_pendingSeq: "wal_Close w = (e, w1) \<Longrightarrow> pendingSeq w1 = pendingSeq w"
  by (auto simp: wal_Close_def split: prod.splits option.splits)

lemma call_step_weight:
  assumes "call_step c p w = Some (w1, p1, b)" and "pc_inv w att n0 p"
  shows "(pendingSeq w1 = pendingSeq w
       \<and> pc_weight (pendingSeq w) p1 + (if vain p p1 then 0 else 1) \<le> pc_weight (pendingSeq w) p)
    \<or> (pendingSeq w1 = Suc (pendingSeq w) \<and> \<not> leads p \<and> \<not> vain p p1
       \<and> pc_weight (pendingSeq w1) p1 + (if leading w then 2 else 0) < pc_weight (pendingSeq w1) p)"
proof (cases p)
  case Idle
  with assms(1) show ?thesis
    by (cases c) (auto simp: call_close_def dest!: call_append_weight wal_Close_pendingSeq split: if_splits prod.splits)
next
  case (Synced r k fs e)
  with assms after_sync_weight [of r k fs e w w1 p1 b] show ?thesis by auto
qed (use assms lead_pendingSeq wal_Close_pendingSeq in \<open>auto simp: await_def call_close_def split: if_splits prod.splits\<close>)

lemma gc_step_weight:
  assumes inv: "gc_inv (w, pcs) att n0" and len: "length pcs = length calls"
    and st: "gc_step calls t (w, pcs) = Some s1"
  shows "gc_weight s1 + (if vain (pcs ! t) (snd s1 ! t) then 0 else 1) \<le> gc_weight (w, pcs)"
proof -
  from st len obtain w1 p b where t: "t < length pcs" and cs: "call_step (calls ! t) (pcs ! t) w = Some (w1, p, b)"
    and s1: "s1 = (w1, (broadcast b pcs)[t := p])" by (rule gc_step_elim)
  have p: "snd s1 ! t = p" using s1 t by simp
  note upd = weight_update [of t "broadcast b pcs" _ p, unfolded broadcast_length, OF t]
  have "pc_inv w att n0 (pcs ! t)" using inv t by (auto simp: gc_inv_def)
  from call_step_weight [OF cs this] show ?thesis
  proof
    assume "pendingSeq w1 = pendingSeq w \<and> pc_weight (pendingSeq w) p + (if vain (pcs ! t) p then 0 else 1)
      \<le> pc_weight (pendingSeq w) (pcs ! t)"
    with upd [of "pc_weight (pendingSeq w)"] s1 t p show ?thesis
      by (simp add: gc_weight_def split: if_splits)
  next
    assume grow: "pendingSeq w1 = Suc (pendingSeq w) \<and> \<not> leads (pcs ! t) \<and> \<not> vain (pcs ! t) p
       \<and> pc_weight (pendingSeq w1) p + (if leading w then 2 else 0) < pc_weight (pendingSeq w1) (pcs ! t)"
    then have up: "pendingSeq w1 = Suc (pendingSeq w)" by simp
    have "length (filter leads pcs) = (if leading w then 1 else 0)" using inv by (simp add: gc_inv_def)
    with grow [unfolded up] upd [of "pc_weight (Suc (pendingSeq w))"] weight_Suc [of "pendingSeq w" pcs] s1 up t p
    show ?thesis by (auto simp: gc_weight_def split: if_splits)
  qed
qed

text \<open>A vain step uses up a notification.\<close>

lemma vain_woken: "vain p q \<Longrightarrow> woken p \<and> \<not> woken q"
  by (cases "(p, q)" rule: vain.cases) auto

lemma woken_update:
  assumes "t < length pcs" and "vain (pcs ! t) p"
  shows "Suc (length (filter woken (pcs[t := p]))) = length (filter woken pcs)"
  using assms
proof (induction pcs arbitrary: t)
  case (Cons q pcs)
  then show ?case using vain_woken [of q p] by (cases t) auto
qed simp

lemma vain_quiet: "call_step c p w = Some (w1, p1, b) \<Longrightarrow> vain p p1 \<Longrightarrow> \<not> b"
  by (cases p) (auto simp: await_def call_close_def split: if_splits prod.splits)

lemma gc_vain_woken:
  assumes "gc_step calls t (w, pcs) = Some s1" and "length pcs = length calls" and "vain (pcs ! t) (snd s1 ! t)"
  shows "Suc (length (filter woken (snd s1))) = length (filter woken pcs)"
  using assms(1,2)
proof (rule gc_step_elim)
  fix w1 p b
  assume st: "t < length pcs" "call_step (calls ! t) (pcs ! t) w = Some (w1, p, b)" "s1 = (w1, (broadcast b pcs)[t := p])"
  then have "vain (pcs ! t) p" using assms(3) by simp
  with vain_quiet [OF st(2)] woken_update [OF st(1)] st(3) show ?thesis by (simp add: broadcast_def)
qed

text \<open>
  A call that runs without others in between does what \<open>wal_Append\<close> of theory Wal does.
\<close>

lemma lead_start_sync_wal_Append:
  assumes "\<not> leading w" and "wal_Append rec w = (res, w1)"
  shows "\<exists>r p. call_append rec w = p \<and>
    ((\<exists>b. p = (w1, Returned r res, b))
     \<or> (\<exists>w2 k fs e w3. p = (w2, Syncing r k fs, False) \<and> lead_sync w2 = (e, w3)
          \<and> after_sync r k fs e w3 = (w1, Returned r res, True)))"
proof (cases "append_buffer rec w")
  case (Pair x w2)
  note sq = append_buffer_seq [OF Pair]
  show ?thesis
  proof (cases x)
    case (Inl e)
    with Pair assms show ?thesis by (auto simp: wal_Append_def call_append_def)
  next
    case (Inr pk)
    obtain pos k where pk: "pk = (pos, k)" by force
    let ?r = "rec\<lparr>CommitPosition := pos\<rparr>" and ?w = "w2\<lparr>leading := True\<rparr>"
    have lead: "lead_loop pos ?w = (res, w1)" and ca: "call_append rec w = lead_start ?r k ?w"
      using Pair Inr pk assms sq by (auto simp: wal_Append_def call_append_def)
    obtain e w3 where fl: "lead_flush ?w = (e, w3)" by (metis prod.exhaust)
    show ?thesis
    proof (cases e)
      case (Some err)
      with lead ca fl show ?thesis by (auto simp: lead_loop_once lead_start_def)
    next
      case None
      obtain se w4 where sy: "lead_sync w3 = (se, w4)" by (metis prod.exhaust)
      have "pendingSeq w4 = pendingSeq ?w" using lead_pendingSeq(1) [OF fl] lead_pendingSeq(2) [OF sy] by simp
      then have "after_sync ?r k (pendingSeq ?w) se w4 = (w1, Returned ?r res, True)"
        using lead fl sy None
        by (cases se) (auto simp: lead_loop_once after_sync_def lead_synced_def)
      with ca fl None sy show ?thesis by (auto simp: lead_start_def)
    qed
  qed
qed

lemma gc_reach_solo:
  assumes "\<not> leading w" and "wal_Append rec w = (res, w1)"
  shows "\<exists>n r. gc_reach [CallAppend rec] w n 0 (w1, [Returned r res])"
proof -
  have start: "gc_reach [CallAppend rec] w 0 0 (w, [Idle])"
    using gc_start [of "[CallAppend rec]" w] by (simp add: gc_init_def)
  from lead_start_sync_wal_Append [OF assms] obtain r where
    "(\<exists>b. call_append rec w = (w1, Returned r res, b)) \<or>
     (\<exists>w2 k fs e w3. call_append rec w = (w2, Syncing r k fs, False) \<and> lead_sync w2 = (e, w3)
       \<and> after_sync r k fs e w3 = (w1, Returned r res, True))" by blast
  then show ?thesis
  proof (elim disjE exE conjE)
    fix b assume "call_append rec w = (w1, Returned r res, b)"
    then have "gc_reach [CallAppend rec] w (Suc 0) 0 (w1, [Returned r res])"
      by (intro gc_move [OF start, of 0]) (simp_all add: broadcast_def)
    then show ?thesis by blast
  next
    fix w2 k fs e w3
    assume c: "call_append rec w = (w2, Syncing r k fs, False)" "lead_sync w2 = (e, w3)"
      "after_sync r k fs e w3 = (w1, Returned r res, True)"
    have s1: "gc_reach [CallAppend rec] w (Suc 0) 0 (w2, [Syncing r k fs])"
      by (rule gc_move [OF start, of 0]) (simp_all add: c broadcast_def)
    have s2: "gc_reach [CallAppend rec] w (Suc (Suc 0)) 0 (w3, [Synced r k fs e])"
      by (rule gc_move [OF s1, of 0]) (simp_all add: c broadcast_def)
    have "gc_reach [CallAppend rec] w (Suc (Suc (Suc 0))) 0 (w1, [Returned r res])"
      by (rule gc_move [OF s2, of 0]) (simp_all add: c broadcast_def)
    then show ?thesis by blast
  qed
qed

text \<open>The example of the theorems below: one call on a new log.\<close>

lemma gc_sample:
  obtains n w1 r where "gc_reach [CallAppend sample_record] (opened [] []) n 0 (w1, [Returned r (Inr 1)])"
    and "log_of (opened [] []) []" and "calls_fit [CallAppend sample_record]"
    and "durable (fd w1) \<le> length (content (fd w1))"
proof -
  have lo: "log_of (opened [] []) []" "healthy (fd (opened [] []))"
    using log_of_opened [of "[]" "[]"] by simp_all
  obtain w1 where app: "wal_Append sample_record (opened [] []) = (Inr 1, w1)"
    and "log_of w1 ([] @ [sample_record\<lparr>CommitPosition := of_nat (Suc (length ([] :: Record list)))\<rparr>])"
    by (rule wal_Append_healthy [OF lo]) auto
  then have "durable (fd w1) \<le> length (content (fd w1))" by (simp add: log_of_def)
  with gc_reach_solo [OF _ app] lo that show thesis by (auto simp: opened_def calls_fit_def)
qed

section \<open>Properties\<close>

text \<open>
  C3. Group commit: whatever the schedule of the concurrent calls and whatever system calls
  failed, once some call of \<^verbatim>\<open>Append\<close> has returned a position, its record survives every later
  crash, as follower or as leader.
\<close>

theorem group_commit_durable:
  assumes "gc_reach calls w n m s" and "log_of w rs" and "pendingSeq w = 0" and "flushedSeq w = 0"
    and "calls_fit calls" and "Returned r (Inr pos) \<in> set (snd s)"
    and "durable (fd (fst s)) \<le> k" and "k \<le> length (content (fd (fst s)))"
  shows "\<exists>kept. wal_Open pth (crash k (fd (fst s))) collect [] = Ret (Inr (opened pth kept), kept)
    \<and> numbered kept \<and> CommitPosition r = pos \<and> r \<in> set kept"
proof -
  from gc_reach_inv [OF assms(1-5)] obtain new where inv: "gc_inv s (rs @ new) (length rs)" by blast
  let ?att = "rs @ new"
  from inv assms(6) obtain i where i: "pos = CommitPosition r" "i < length ?att" "?att ! i = r"
    "stable (fst s) ?att (Suc i)" by (auto simp: gc_inv_def dest!: bspec)
  from inv i(4) have st: "log_state (fst s) ?att (Suc i)"
    by (auto simp: gc_inv_def core_def log_state_def stable_def)
  from log_state_crash [OF st assms(7,8)] obtain m j where
    cr: "crash k (fd (fst s)) = disk (log_bytes (take m ?att) @ take j (frame (?att ! m)))"
    and m: "Suc i \<le> m" and j: "j = 0 \<or> fits (?att ! m) \<and> j < length (frame (?att ! m))" by blast
  have "well_formed ?att" using st by (simp add: log_state_def)
  then have wf: "well_formed (take m ?att)" by (rule well_formed_take)
  have "wal_Open pth (crash k (fd (fst s))) collect [] = Ret (Inr (opened pth (take m ?att)), take m ?att)"
    unfolding cr by (rule wal_Open_log [OF wf _ j]) (simp add: replay_all_collect)
  moreover have "r \<in> set (take m ?att)"
    unfolding in_set_conv_nth using m i(2,3) by (intro exI [of _ i]) (simp del: take_append)
  ultimately show ?thesis using wf i(1) by (auto simp: well_formed_def)
qed

theorem group_commit_durable_witness:
  "\<exists>n w1 r kept. gc_reach [CallAppend sample_record] (opened [] []) n 0 (w1, [Returned r (Inr 1)])
    \<and> wal_Open [] (crash (durable (fd w1)) (fd w1)) collect [] = Ret (Inr (opened [] kept), kept) \<and> r \<in> set kept"
proof (rule gc_sample)
  fix n w1 r
  assume g: "gc_reach [CallAppend sample_record] (opened [] []) n 0 (w1, [Returned r (Inr 1)])"
    "log_of (opened [] []) []" "calls_fit [CallAppend sample_record]" "durable (fd w1) \<le> length (content (fd w1))"
  from group_commit_durable [OF g(1,2) _ _ g(3), of r 1 "durable (fd w1)" "[]"] g show ?thesis
    by (auto simp: opened_def)
qed

text \<open>
  C33. No lost wakeup and no deadlock: a call sleeps in \<^verbatim>\<open>Wait\<close> until a broadcast comes after it went to
  sleep, and as long as one sleeps some call leads and can move; so a reachable state in which
  no call can move is one in which every call has returned.
\<close>

theorem gc_stuck_returned:
  assumes "gc_reach calls w n m s" and "log_of w rs" and "pendingSeq w = 0" and "flushedSeq w = 0"
    and "calls_fit calls" and stuck: "\<forall>t < length calls. gc_step calls t s = None"
  shows "\<forall>p \<in> set (snd s). returned p"
proof -
  from gc_reach_inv [OF assms(1-5)] obtain new where inv: "gc_inv s (rs @ new) (length rs)"
    and len: "length (snd s) = length calls" by blast
  let ?w = "fst s" and ?pcs = "snd s"
  have none: "call_step (calls ! t) (?pcs ! t) ?w = None" if "t < length calls" for t
    using stuck that by (cases s) auto
  have "\<not> leads (?pcs ! t)" if "t < length calls" for t
    using none [OF that] by (cases "?pcs ! t") (auto split: prod.splits)
  then have "filter leads ?pcs = []" using len by (simp add: filter_empty_conv all_set_conv_all_nth)
  with inv have idle: "\<not> leading ?w" by (auto simp: gc_inv_def split: if_splits)
  show ?thesis
  proof
    fix p assume "p \<in> set ?pcs"
    then obtain t where t: "t < length calls" "p = ?pcs ! t" using len by (auto simp: in_set_conv_nth)
    have "\<not> asleep p" using inv idle \<open>p \<in> set ?pcs\<close> by (auto simp: gc_inv_def)
    moreover have "call_step (calls ! t) p ?w = None" using none [OF t(1)] t(2) by simp
    ultimately show "returned p" by (cases p; cases "calls ! t") (auto split: prod.splits)
  qed
qed

theorem gc_stuck_returned_witness:
  "\<exists>n w1 r. gc_reach [CallAppend sample_record] (opened [] []) n 0 (w1, [Returned r (Inr 1)])
    \<and> (\<forall>p \<in> set [Returned r (Inr 1)]. returned p)"
proof (rule gc_sample)
  fix n w1 r
  assume g: "gc_reach [CallAppend sample_record] (opened [] []) n 0 (w1, [Returned r (Inr 1)])"
    "log_of (opened [] []) []" "calls_fit [CallAppend sample_record]"
  from gc_stuck_returned [OF g(1,2) _ _ g(3)] g show ?thesis by (auto simp: opened_def)
qed

text \<open>
  C34. Every call returns: a schedule of \<open>n\<close> calls has at most four times \<open>n\<close> steps other than those in
  which a notified call goes back to sleep, and at most \<open>n\<close> of these for each of the others; so
  a leader cannot be kept in its loop for ever by a finite number of other calls.
\<close>

theorem gc_reach_bounded:
  assumes "gc_reach calls w n m s" and "log_of w rs" and "pendingSeq w = 0" and "flushedSeq w = 0"
    and "calls_fit calls"
  shows "n + gc_weight s \<le> 4 * length calls \<and> m + length (filter woken (snd s)) \<le> n * length calls"
  using assms
proof (induction rule: gc_reach.induct)
  case gc_start
  then show ?case by (simp add: gc_init_def gc_weight_def sum_list_replicate)
next
  case (gc_move n m s t s1)
  from gc_reach_inv [OF gc_move.hyps(1) gc_move.prems] obtain new where
    inv: "gc_inv s (rs @ new) (length rs)" "length (snd s) = length calls" by blast
  then have "gc_weight s1 < gc_weight s"
    using gc_step_weight [of "fst s" "snd s" "rs @ new" "length rs" calls t s1] gc_move.hyps(2,3) by simp
  moreover have "length (filter woken (snd s1)) \<le> length calls"
    using gc_step_inv [of "fst s" "snd s" "rs @ new" "length rs" calls t s1] inv gc_move length_filter_le [of woken "snd s1"]
    by auto
  ultimately show ?case using gc_move by simp
next
  case (gc_vain n m s t s1)
  from gc_reach_inv [OF gc_vain.hyps(1) gc_vain.prems] obtain new where
    inv: "gc_inv s (rs @ new) (length rs)" "length (snd s) = length calls" by blast
  then have "gc_weight s1 \<le> gc_weight s"
    using gc_step_weight [of "fst s" "snd s" "rs @ new" "length rs" calls t s1] gc_vain.hyps(2,3) by simp
  moreover have "Suc (length (filter woken (snd s1))) = length (filter woken (snd s))"
    using gc_vain_woken [of calls t "fst s" "snd s" s1] inv gc_vain.hyps by simp
  ultimately show ?case using gc_vain by simp
qed

theorem gc_reach_bounded_witness:
  "\<exists>n w1 r. gc_reach [CallAppend sample_record] (opened [] []) n 0 (w1, [Returned r (Inr 1)])
    \<and> n + gc_weight (w1, [Returned r (Inr 1)]) \<le> 4"
proof (rule gc_sample)
  fix n w1 r
  assume g: "gc_reach [CallAppend sample_record] (opened [] []) n 0 (w1, [Returned r (Inr 1)])"
    "log_of (opened [] []) []" "calls_fit [CallAppend sample_record]"
  from gc_reach_bounded [OF g(1,2) _ _ g(3)] g show ?thesis by (auto simp: opened_def)
qed

text \<open>
  A call of \<^verbatim>\<open>Append\<close> that finds no leader and nobody asleep and runs without others in between has the same effect and
  the same result as the sequential model \<open>wal_Append\<close>, on which the other components rest.
\<close>

lemma gc_solo_wal_Append:
  assumes idle: "\<not> leading w" and app: "wal_Append rec w = (res, w1)"
    and t: "t < length calls" "length pcs = length calls" "calls ! t = CallAppend rec" "pcs ! t = Idle"
    and awake: "\<forall>p \<in> set pcs. \<not> asleep p"
  shows "\<exists>sched r. set sched \<subseteq> {t} \<and> foldl (\<lambda>s u. Option.bind s (gc_step calls u)) (Some (w, pcs)) sched =
    Some (w1, pcs[t := Returned r res])"
proof -
  from lead_start_sync_wal_Append [OF idle app] obtain r where
    "(\<exists>b. call_append rec w = (w1, Returned r res, b)) \<or>
     (\<exists>w2 k fs e w3. call_append rec w = (w2, Syncing r k fs, False) \<and> lead_sync w2 = (e, w3)
       \<and> after_sync r k fs e w3 = (w1, Returned r res, True))" by blast
  then show ?thesis
  proof (elim disjE exE conjE)
    fix b assume "call_append rec w = (w1, Returned r res, b)"
    with t awake show ?thesis by (intro exI [of _ "[t]"] exI [of _ r]) (simp add: broadcast_awake)
  next
    fix w2 k fs e w3
    assume c: "call_append rec w = (w2, Syncing r k fs, False)" "lead_sync w2 = (e, w3)"
      "after_sync r k fs e w3 = (w1, Returned r res, True)"
    have "\<forall>p \<in> set (pcs[t := Synced r k fs e]). \<not> asleep p" "\<forall>p \<in> set (pcs[t := Syncing r k fs]). \<not> asleep p"
      using awake set_update_subset_insert [of pcs t] by fastforce+
    with t awake c show ?thesis
      by (intro exI [of _ "[t, t, t]"] exI [of _ r]) (simp add: broadcast_awake)
  qed
qed

lemma gc_solo_wal_Append_example:
  "\<exists>sched r. set sched \<subseteq> {0} \<and>
    foldl (\<lambda>s u. Option.bind s (gc_step [CallAppend sample_record] u)) (Some (opened [] [], [Idle])) sched =
    Some (snd (wal_Append sample_record (opened [] [])),
      [Returned r (fst (wal_Append sample_record (opened [] [])))])"
  using gc_solo_wal_Append [of "opened [] []" sample_record "fst (wal_Append sample_record (opened [] []))"
      "snd (wal_Append sample_record (opened [] []))" 0 "[CallAppend sample_record]" "[Idle]"]
  by (simp add: opened_def)

end
