(* ===== verification/LogClient.thy ===== *)
theory LogClient
  imports GroupCommit
begin

text \<open>
  The contract between the log and the components that keep their state in it: the engine
  and the consumer offsets.  Such a component gives \<^verbatim>\<open>Open\<close> a callback that applies one record,
  and applies the same change after every successful \<^verbatim>\<open>Append\<close>.  Its state is then a function
  of the log, \<^verbatim>\<open>Open\<close> restores it, and a crash during an \<^verbatim>\<open>Append\<close> leaves the state before or
  after it.
\<close>

text \<open>The component state \<open>s\<close> is what the records \<open>rs\<close> of the log make of \<open>init\<close>.\<close>

definition tracks :: "(Record \<Rightarrow> 's \<Rightarrow> 's) \<Rightarrow> (Record \<Rightarrow> bool) \<Rightarrow> 's \<Rightarrow> wal \<Rightarrow> 's \<Rightarrow> Record list \<Rightarrow> bool" where
  "tracks app valid init w s rs \<longleftrightarrow> log_of w rs \<and> (\<forall>r \<in> set rs. valid r) \<and> s = fold app rs init"

lemma tracks_log_of: "tracks app valid init w s rs \<Longrightarrow> log_of w rs"
  by (simp add: tracks_def)

text \<open>The file after an \<^verbatim>\<open>Append\<close> in which system calls may have failed.\<close>

lemma append_log_state:
  assumes lo: "log_of w rs" and fits: "fits rec" and app: "wal_Append rec w = (res, w1)"
  shows "log_state w1 (rs @ [rec\<lparr>CommitPosition := of_nat (Suc (length rs))\<rparr>])
    (case res of Inr _ \<Rightarrow> Suc (length rs) | Inl _ \<Rightarrow> length rs)"
proof -
  let ?rec = "rec\<lparr>CommitPosition := next_pos w\<rparr>"
  have n: "next_pos w = of_nat (Suc (length rs))" using lo by (simp add: log_of_def)
  have n2: "next_pos w + 1 = of_nat (Suc (length (rs @ [?rec])))" by (simp add: n)
  have ok: "werr (wr w) = None" "wbuf (wr w) = []" using lo by (simp_all add: log_of_def)
  obtain r2 w2 where buf: "append_buffer rec w = (r2, w2)" by (metis prod.exhaust)
  from append_buffer_effect [OF ok(1) buf] obtain rest where eff:
    "content (fd w2) @ rest = content (fd w) @ wbuf (wr w) @ frame ?rec" "length (content (fd w)) \<le> length (content (fd w2))"
    "durable (fd w2) = durable (fd w)" "next_pos w2 = next_pos w + 1"
    "case r2 of Inr (pos, _) \<Rightarrow> pos = next_pos w \<and> werr (wr w2) = None \<and> rest = wbuf (wr w2)
       | Inl _ \<Rightarrow> werr (wr w2) \<noteq> None"
    by (elim exE conjE) (rule that)
  have wf: "well_formed (rs @ [?rec])" using lo fits by (simp add: log_of_def well_formed_snoc fits_def)
  have bytes: "content (fd w2) @ rest = log_bytes (rs @ [?rec])"
    and dur: "durable (fd w) = length (log_bytes rs)" "content (fd w) = log_bytes rs"
    using eff(1) lo ok by (simp_all add: log_of_def)
  show ?thesis
  proof (cases r2)
    case (Inl err)
    with app buf have "res = Inl err" "w1 = w2" by (auto simp: wal_Append_def)
    with wf eff(2-5) bytes Inl dur show ?thesis by (auto simp: log_state_def n simp del: of_nat_Suc)
  next
    case (Inr pm)
    then have r2: "r2 = Inr (next_pos w, snd pm)" and ok2: "werr (wr w2) = None" and rest: "rest = wbuf (wr w2)"
      using eff(5) by (auto split: prod.splits)
    with app buf have lead: "lead_loop (next_pos w) (w2\<lparr>leading := True\<rparr>) = (res, w1)"
      by (simp add: wal_Append_def)
    have "durable (fd (w2\<lparr>leading := True\<rparr>)) \<le> length (content (fd (w2\<lparr>leading := True\<rparr>)))"
      using dur eff by simp
    note le = lead_loop_effect [OF lead this]
    then have all: "content (fd w1) @ wbuf (wr w1) = log_bytes (rs @ [?rec])" using bytes rest by simp
    have "\<exists>rest. content (fd w1) @ rest = log_bytes (rs @ [?rec])
        \<and> (werr (wr w1) = None \<longrightarrow> rest = wbuf (wr w1) \<and> next_pos w1 = of_nat (Suc (length (rs @ [?rec]))))"
      using all le eff(4) n2 by (intro exI [of _ "wbuf (wr w1)"]) simp
    with wf le eff(2,3) dur show ?thesis
      unfolding n [symmetric] by (cases res) (auto simp: log_state_def all simp del: of_nat_Suc)
  qed
qed

locale log_client =
  fixes rep :: "'s replay"
    and app :: "Record \<Rightarrow> 's \<Rightarrow> 's"
    and valid :: "Record \<Rightarrow> bool"
    and init :: 's
  assumes rep_app: "valid r \<Longrightarrow> rep r s = Ret (Some (app r s))"
    and valid_position: "valid r \<Longrightarrow> valid (r\<lparr>CommitPosition := p\<rparr>)"
begin

lemma replay_all_fold: "\<forall>r \<in> set rs. valid r \<Longrightarrow> replay_all rep rs s = Ret (Some (fold app rs s))"
  by (induction rs arbitrary: s) (simp_all add: rep_app)

text \<open>\<^verbatim>\<open>Open\<close> on a whole log.\<close>

lemma open_log:
  assumes "well_formed rs" and "\<forall>r \<in> set rs. valid r"
  shows "wal_Open pth (disk (log_bytes rs)) rep init = Ret (Inr (opened pth rs), fold app rs init)"
  using wal_Open_log [OF assms(1) replay_all_fold [OF assms(2)], of 0] by simp

lemma tracks_opened:
  assumes "well_formed rs" and "\<forall>r \<in> set rs. valid r"
  shows "tracks app valid init (opened pth rs) (fold app rs init) rs"
  using assms log_of_opened by (auto simp: tracks_def)

text \<open>A component that is stopped, by a crash or not, comes back with the state it had.\<close>

lemma reopen:
  assumes "tracks app valid init w s rs" and "durable (fd w) \<le> k"
  shows "wal_Open pth (crash k (fd w)) rep init = Ret (Inr (opened pth rs), s)"
  using assms open_log [of rs pth] by (auto simp: tracks_def crash_def log_of_def)

lemma append_ok:
  assumes "tracks app valid init w s rs" and "fits rec" and "valid rec"
    and "wal_Append rec w = (Inr pos, w1)"
  shows "pos = of_nat (Suc (length rs)) \<and> path w1 = path w
    \<and> tracks app valid init w1 (app (rec\<lparr>CommitPosition := pos\<rparr>) s) (rs @ [rec\<lparr>CommitPosition := pos\<rparr>])"
  using wal_Append_log_of [OF tracks_log_of [OF assms(1)] assms(2,4)] assms(1,3)
  by (auto simp: tracks_def valid_position)

lemma append_healthy:
  assumes "tracks app valid init w s rs" and "healthy (fd w)" and "fits rec" and "valid rec"
  obtains w1 where "wal_Append rec w = (Inr (of_nat (Suc (length rs))), w1)"
    and "tracks app valid init w1 (app (rec\<lparr>CommitPosition := of_nat (Suc (length rs))\<rparr>) s)
      (rs @ [rec\<lparr>CommitPosition := of_nat (Suc (length rs))\<rparr>])"
    and "healthy (fd w1)" and "path w1 = path w"
proof (rule wal_Append_healthy [OF tracks_log_of [OF assms(1)] assms(2,3)])
  fix w1
  assume w1: "wal_Append rec w = (Inr (of_nat (Suc (length rs))), w1)" "healthy (fd w1)" "path w1 = path w"
  from append_ok [OF assms(1,3,4) w1(1)] w1 show thesis by (auto intro: that)
qed

text \<open>
  An \<^verbatim>\<open>Append\<close> during which system calls fail and the machine then crashes: the state that
  comes back is the one before the \<^verbatim>\<open>Append\<close> or the one after it, and the one after it if the
  \<^verbatim>\<open>Append\<close> was acknowledged.
\<close>

lemma append_crash:
  assumes tr: "tracks app valid init w s rs" and fits: "fits rec" and valid: "valid rec"
    and app: "wal_Append rec w = (res, w1)"
    and k: "durable (fd w1) \<le> k" "k \<le> length (content (fd w1))"
  defines "rec1 \<equiv> rec\<lparr>CommitPosition := of_nat (Suc (length rs))\<rparr>"
  shows "wal_Open pth (crash k (fd w1)) rep init = Ret (Inr (opened pth (rs @ [rec1])), app rec1 s)
    \<or> (\<exists>e. res = Inl e) \<and> wal_Open pth (crash k (fd w1)) rep init = Ret (Inr (opened pth rs), s)"
proof -
  have lo: "log_of w rs" using tr by (rule tracks_log_of)
  note st = append_log_state [OF lo fits app, folded rec1_def]
  from log_state_crash [OF st k] obtain m j where
    cr: "crash k (fd w1) = disk (log_bytes (take m (rs @ [rec1])) @ take j (frame ((rs @ [rec1]) ! m)))"
    and m: "(case res of Inr _ \<Rightarrow> Suc (length rs) | Inl _ \<Rightarrow> length rs) \<le> m" "m \<le> length (rs @ [rec1])"
    and j: "j = 0 \<or> fits ((rs @ [rec1]) ! m) \<and> j < length (frame ((rs @ [rec1]) ! m))" by blast
  have wf: "well_formed (rs @ [rec1])" using st by (simp add: log_state_def)
  have val: "\<forall>r \<in> set (rs @ [rec1]). valid r" and s: "s = fold app rs init"
    using tr valid by (auto simp: tracks_def rec1_def valid_position)
  have open_m: "wal_Open pth (crash k (fd w1)) rep init =
      Ret (Inr (opened pth (take m (rs @ [rec1]))), fold app (take m (rs @ [rec1])) init)"
    unfolding cr using val
    by (intro wal_Open_log [OF well_formed_take [OF wf] replay_all_fold j]) (auto dest: in_set_takeD)
  have "m = length rs \<or> m = Suc (length rs)" using m by (auto split: sum.splits)
  then show ?thesis
  proof
    assume "m = length rs"
    with open_m s m show ?thesis by (cases res) auto
  next
    assume "m = Suc (length rs)"
    with open_m s show ?thesis by simp
  qed
qed

end

end
