(* ===== verification/Engine.thy ===== *)
theory Engine
  imports LogClient
begin

text \<open>
  The partition state machine of \<^verbatim>\<open>internal/engine/engine.go\<close>: a map from keys to values with
  version and expiry, and the outcomes of idempotency keys, kept in the log.  Every operation
  that writes holds \<^verbatim>\<open>e.mu\<close> until it returns, so its \<^verbatim>\<open>Append\<close> is the uncontended one of theory Wal.
  A reading of the clock is an argument: the time in nanoseconds since the epoch.
\<close>

section \<open>State\<close>

datatype engine_error = ErrVersionMismatch | ErrNotFound | WalErr wal_error

text \<open>\<open>None\<close> is the zero time, which means no expiry.\<close>

record entry =
  ent_value :: bytes
  ent_version :: u64
  ent_expiresAt :: "int option"

record Outcome =
  out_CommitPosition :: u64
  out_Version :: u64
  Deduplicated :: bool

record engine =
  elog :: wal
  index :: "bytes \<rightharpoonup> entry"
  dedup :: "bytes \<rightharpoonup> Outcome"

text \<open>\<^verbatim>\<open>time.Unix(0, n)\<close> when the record has an expiry.\<close>

definition expiry_time :: "i64 \<Rightarrow> int option" where
  "expiry_time n = (if 0 < sint n then Some (sint n) else None)"

definition expired :: "int \<Rightarrow> entry \<Rightarrow> bool" where
  "expired now ent = (case ent_expiresAt ent of None \<Rightarrow> False | Some t \<Rightarrow> t < now)"

section \<open>Recovery\<close>

type_synonym tables = "(bytes \<rightharpoonup> entry) \<times> (bytes \<rightharpoonup> Outcome)"

definition put_entry :: "Record \<Rightarrow> entry" where
  "put_entry rec = \<lparr>ent_value = Value rec, ent_version = CommitPosition rec,
                    ent_expiresAt = expiry_time (ExpiresAtUnixNano rec)\<rparr>"

definition put_outcome :: "u64 \<Rightarrow> Outcome" where
  "put_outcome pos = \<lparr>out_CommitPosition = pos, out_Version = pos, Deduplicated = False\<rparr>"

fun engine_apply :: "Record \<Rightarrow> tables \<Rightarrow> tables" where
  "engine_apply rec (ix, dd) =
     (if Kind rec = KindPut then ix(Key rec \<mapsto> put_entry rec)
      else if Kind rec = KindDelete then ix(Key rec := None)
      else ix,
      if IdempotencyKey rec \<noteq> [] then dd(IdempotencyKey rec \<mapsto> put_outcome (CommitPosition rec)) else dd)"

definition engine_replay :: "tables replay" where
  "engine_replay rec s = Ret (Some (engine_apply rec s))"

definition engine_Open :: "bytes \<Rightarrow> osfile \<Rightarrow> (wal_error \<times> osfile + engine) go" where
  "engine_Open pth f0 =
     go_bind (wal_Open pth f0 engine_replay (Map.empty, Map.empty)) (\<lambda>(res, ix, dd).
       Ret (case res of
              Inl err \<Rightarrow> Inl err
            | Inr w \<Rightarrow> Inr \<lparr>elog = w, index = ix, dedup = dd\<rparr>))"

section \<open>Operations\<close>

text \<open>The value and the version, or \<open>None\<close> when \<^verbatim>\<open>found\<close> is false.\<close>

definition engine_Get :: "int \<Rightarrow> bytes \<Rightarrow> engine \<Rightarrow> (bytes \<times> u64) option" where
  "engine_Get now key e =
     (case index e key of
        None \<Rightarrow> None
      | Some ent \<Rightarrow> if expired now ent then None else Some (ent_value ent, ent_version ent))"

text \<open>
  \<^verbatim>\<open>clock.Now().Add(time.Duration(ttlSeconds) * time.Second).UnixNano()\<close>: the product and the
  result are 64-bit integers that wrap around.
\<close>

definition ttl_expiry :: "int \<Rightarrow> i64 \<Rightarrow> i64" where
  "ttl_expiry now ttlSeconds =
     (if 0 < sint ttlSeconds then of_int (now + sint (ttlSeconds * 1000000000)) else 0)"

definition ApplyPut :: "bytes \<Rightarrow> bytes \<Rightarrow> i64 \<Rightarrow> bytes \<Rightarrow> engine \<Rightarrow> (engine_error + Outcome) \<times> engine" where
  "ApplyPut key val expiresAtUnixNano idempotencyKey e =
     (case (if idempotencyKey \<noteq> [] then dedup e idempotencyKey else None) of
        Some out \<Rightarrow> (Inr (out\<lparr>Deduplicated := True\<rparr>), e)
      | None \<Rightarrow>
          (case wal_Append \<lparr>CommitPosition = 0, Kind = KindPut, Key = key, Value = val,
                            ExpiresAtUnixNano = expiresAtUnixNano, IdempotencyKey = idempotencyKey\<rparr> (elog e) of
             (Inl err, w) \<Rightarrow> (Inl (WalErr err), e\<lparr>elog := w\<rparr>)
           | (Inr pos, w) \<Rightarrow>
               (let ent = \<lparr>ent_value = val, ent_version = pos, ent_expiresAt = expiry_time expiresAtUnixNano\<rparr>;
                    out = \<lparr>out_CommitPosition = pos, out_Version = pos, Deduplicated = False\<rparr> in
                (Inr out,
                 e\<lparr>elog := w, index := (index e)(key \<mapsto> ent),
                   dedup := (if idempotencyKey \<noteq> [] then (dedup e)(idempotencyKey \<mapsto> out) else dedup e)\<rparr>))))"

definition engine_Put :: "int \<Rightarrow> bytes \<Rightarrow> bytes \<Rightarrow> i64 \<Rightarrow> bytes \<Rightarrow> engine \<Rightarrow> (engine_error + Outcome) \<times> engine" where
  "engine_Put now key val ttlSeconds idempotencyKey e =
     ApplyPut key val (ttl_expiry now ttlSeconds) idempotencyKey e"

definition engine_Delete :: "bytes \<Rightarrow> bytes \<Rightarrow> engine \<Rightarrow> (engine_error + Outcome) \<times> engine" where
  "engine_Delete key idempotencyKey e =
     (case (if idempotencyKey \<noteq> [] then dedup e idempotencyKey else None) of
        Some out \<Rightarrow> (Inr (out\<lparr>Deduplicated := True\<rparr>), e)
      | None \<Rightarrow>
          (case wal_Append \<lparr>CommitPosition = 0, Kind = KindDelete, Key = key, Value = [],
                            ExpiresAtUnixNano = 0, IdempotencyKey = idempotencyKey\<rparr> (elog e) of
             (Inl err, w) \<Rightarrow> (Inl (WalErr err), e\<lparr>elog := w\<rparr>)
           | (Inr pos, w) \<Rightarrow>
               (let out = \<lparr>out_CommitPosition = pos, out_Version = pos, Deduplicated = False\<rparr> in
                (Inr out,
                 e\<lparr>elog := w, index := (index e)(key := None),
                   dedup := (if idempotencyKey \<noteq> [] then (dedup e)(idempotencyKey \<mapsto> out) else dedup e)\<rparr>))))"

text \<open>The version a conditional write compares with: 0 for an absent or expired key.\<close>

definition currentVersion :: "int \<Rightarrow> bytes \<Rightarrow> engine \<Rightarrow> u64" where
  "currentVersion now key e =
     (case index e key of
        None \<Rightarrow> 0
      | Some ent \<Rightarrow> if expired now ent then 0 else ent_version ent)"

definition ApplyCompareAndSet :: "int \<Rightarrow> bytes \<Rightarrow> bytes \<Rightarrow> u64 \<Rightarrow> i64 \<Rightarrow> bytes \<Rightarrow> engine
    \<Rightarrow> (engine_error + Outcome) \<times> engine" where
  "ApplyCompareAndSet now key val expectedVersion expiresAtUnixNano idempotencyKey e =
     (case (if idempotencyKey \<noteq> [] then dedup e idempotencyKey else None) of
        Some out \<Rightarrow> (Inr (out\<lparr>Deduplicated := True\<rparr>), e)
      | None \<Rightarrow>
          if currentVersion now key e \<noteq> expectedVersion then (Inl ErrVersionMismatch, e)
          else
            (case wal_Append \<lparr>CommitPosition = 0, Kind = KindPut, Key = key, Value = val,
                              ExpiresAtUnixNano = expiresAtUnixNano, IdempotencyKey = idempotencyKey\<rparr> (elog e) of
               (Inl err, w) \<Rightarrow> (Inl (WalErr err), e\<lparr>elog := w\<rparr>)
             | (Inr pos, w) \<Rightarrow>
                 (let ent = \<lparr>ent_value = val, ent_version = pos, ent_expiresAt = expiry_time expiresAtUnixNano\<rparr>;
                      out = \<lparr>out_CommitPosition = pos, out_Version = pos, Deduplicated = False\<rparr> in
                  (Inr out,
                   e\<lparr>elog := w, index := (index e)(key \<mapsto> ent),
                     dedup := (if idempotencyKey \<noteq> [] then (dedup e)(idempotencyKey \<mapsto> out) else dedup e)\<rparr>))))"

text \<open>Two readings of the clock: one for the expiry, one for the test of the stored entry.\<close>

definition CompareAndSet :: "int \<Rightarrow> int \<Rightarrow> bytes \<Rightarrow> bytes \<Rightarrow> u64 \<Rightarrow> i64 \<Rightarrow> bytes \<Rightarrow> engine
    \<Rightarrow> (engine_error + Outcome) \<times> engine" where
  "CompareAndSet now1 now2 key val expectedVersion ttlSeconds idempotencyKey e =
     ApplyCompareAndSet now2 key val expectedVersion (ttl_expiry now1 ttlSeconds) idempotencyKey e"

section \<open>Change stream, snapshot, reset\<close>

record ChangeRecord =
  Offset :: u64
  chg_Kind :: RecordKind
  chg_Key :: bytes
  chg_Value :: bytes

definition change_of :: "Record \<Rightarrow> ChangeRecord" where
  "change_of r = \<lparr>Offset = CommitPosition r, chg_Kind = Kind r, chg_Key = Key r, chg_Value = Value r\<rparr>"

definition engine_Fetch :: "u64 \<Rightarrow> int \<Rightarrow> engine \<Rightarrow> ((wal_error + ChangeRecord list) \<times> engine) go" where
  "engine_Fetch from limit e =
     go_bind (ReadRange from limit (elog e)) (\<lambda>((recs, err), w).
       Ret (case err of
              Some x \<Rightarrow> Inl x
            | None \<Rightarrow> Inr (map change_of recs), e\<lparr>elog := w\<rparr>))"

record SnapshotEntry =
  snap_Key :: bytes
  snap_Value :: bytes
  snap_ExpiresAtUnixNano :: i64

text \<open>
  \<^verbatim>\<open>Snapshot\<close> ranges over the map, in an order that Go leaves open, and reads the clock for every
  key: the keys in that order, each with its reading of the clock, are an argument.
\<close>

definition Snapshot :: "(bytes \<times> int) list \<Rightarrow> engine \<Rightarrow> SnapshotEntry list" where
  "Snapshot order e =
     concat (map (\<lambda>(k, now).
       case index e k of
         None \<Rightarrow> []
       | Some ent \<Rightarrow>
           if expired now ent then []
           else [\<lparr>snap_Key = k, snap_Value = ent_value ent,
                  snap_ExpiresAtUnixNano = (case ent_expiresAt ent of None \<Rightarrow> 0 | Some t \<Rightarrow> of_int t)\<rparr>]) order)"

definition ranges_over :: "(bytes \<times> int) list \<Rightarrow> engine \<Rightarrow> bool" where
  "ranges_over order e \<longleftrightarrow> distinct (map fst order) \<and> set (map fst order) = dom (index e)"

text \<open>
  \<^verbatim>\<open>Reset\<close>.  After an error the engine keeps the closed log and its tables.
\<close>

definition engine_Reset :: "engine \<Rightarrow> (engine_error option \<times> engine) go" where
  "engine_Reset e =
     (case wal_Close (elog e) of
        (Some err, w) \<Rightarrow> Ret (Some (WalErr err), e\<lparr>elog := w\<rparr>)
      | (None, w) \<Rightarrow>
          (case os_Remove (fd w) of
             (rm, f) \<Rightarrow>
               if rm \<noteq> None \<and> rm \<noteq> Some ENOENT
               then Ret (Some (WalErr (RemoveFailed (the rm))), e\<lparr>elog := w\<lparr>fd := f\<rparr>\<rparr>)
               else
                 go_bind (wal_Open (path w) f (\<lambda>rec s. Ret (Some s)) ()) (\<lambda>(res, _).
                   case res of
                     Inl (err, f1) \<Rightarrow> Ret (Some (WalErr err), e\<lparr>elog := w\<lparr>fd := f1\<rparr>\<rparr>)
                   | Inr w1 \<Rightarrow> Ret (None, e\<lparr>elog := w1, index := Map.empty, dedup := Map.empty\<rparr>))))"

definition engine_LastCommitPosition :: "engine \<Rightarrow> u64" where
  "engine_LastCommitPosition e = LastCommitPosition (elog e)"

definition engine_Close :: "engine \<Rightarrow> wal_error option \<times> engine" where
  "engine_Close e = (case wal_Close (elog e) of (err, w) \<Rightarrow> (err, e\<lparr>elog := w\<rparr>))"

end
