(* ===== verification/EngineSpec.thy ===== *)
theory EngineSpec
  imports Engine
begin

text \<open>
  What the engine promises: its tables are a function of the log, so it comes back after a
  crash with every acknowledged mutation; the answer of \<^verbatim>\<open>Get\<close> is the last change of the key in the
  change stream; an idempotency key commits at most once; conditional writes; expiry;
  snapshots.
\<close>

section \<open>The engine and its log\<close>

interpretation engine_log: log_client engine_replay engine_apply "\<lambda>_. True" "(Map.empty, Map.empty)"
  by unfold_locales (simp_all add: engine_replay_def)

definition engine_inv :: "engine \<Rightarrow> Record list \<Rightarrow> bool" where
  "engine_inv e rs \<longleftrightarrow> tracks engine_apply (\<lambda>_. True) (Map.empty, Map.empty) (elog e) (index e, dedup e) rs"

definition engine_of :: "bytes \<Rightarrow> Record list \<Rightarrow> engine" where
  "engine_of pth rs =
     (case fold engine_apply rs (Map.empty, Map.empty) of
        (ix, dd) \<Rightarrow> \<lparr>elog = opened pth rs, index = ix, dedup = dd\<rparr>)"

abbreviation engine_healthy :: "engine \<Rightarrow> bool" where
  "engine_healthy e \<equiv> healthy (fd (elog e))"

lemma engine_inv_of: "well_formed rs \<Longrightarrow> engine_inv (engine_of pth rs) rs \<and> engine_healthy (engine_of pth rs)"
  using log_of_opened by (auto simp: engine_inv_def engine_of_def tracks_def split: prod.splits)

lemma engine_inv_tables: "engine_inv e rs \<Longrightarrow> fold engine_apply rs (Map.empty, Map.empty) = (index e, dedup e)"
  by (simp add: engine_inv_def tracks_def)

lemma engine_inv_wf: "engine_inv e rs \<Longrightarrow> well_formed rs"
  by (simp add: engine_inv_def tracks_def log_of_def)

text \<open>The tables after a crash between operations.\<close>

lemma engine_reopen:
  assumes "engine_inv e rs" and "durable (fd (elog e)) \<le> k"
  shows "engine_Open pth (crash k (fd (elog e))) = Ret (Inr \<lparr>elog = opened pth rs, index = index e, dedup = dedup e\<rparr>)"
  using engine_log.reopen [OF assms [unfolded engine_inv_def]] by (simp add: engine_Open_def)

section \<open>Writing\<close>

text \<open>The three writing operations: what they append, and what they do with the result.\<close>

definition put_record :: "bytes \<Rightarrow> bytes \<Rightarrow> i64 \<Rightarrow> bytes \<Rightarrow> Record" where
  "put_record key val expiry idk = \<lparr>CommitPosition = 0, Kind = KindPut, Key = key, Value = val,
     ExpiresAtUnixNano = expiry, IdempotencyKey = idk\<rparr>"

definition delete_record :: "bytes \<Rightarrow> bytes \<Rightarrow> Record" where
  "delete_record key idk = \<lparr>CommitPosition = 0, Kind = KindDelete, Key = key, Value = [],
     ExpiresAtUnixNano = 0, IdempotencyKey = idk\<rparr>"

definition replayed :: "bytes \<Rightarrow> engine \<Rightarrow> Outcome option" where
  "replayed idk e = (if idk \<noteq> [] then dedup e idk else None)"

definition commit :: "Record \<Rightarrow> engine \<Rightarrow> (engine_error + Outcome) \<times> engine" where
  "commit rec e =
     (case wal_Append rec (elog e) of
        (Inl err, w) \<Rightarrow> (Inl (WalErr err), e\<lparr>elog := w\<rparr>)
      | (Inr pos, w) \<Rightarrow>
          (case engine_apply (rec\<lparr>CommitPosition := pos\<rparr>) (index e, dedup e) of
             (ix, dd) \<Rightarrow> (Inr (put_outcome pos), \<lparr>elog = w, index = ix, dedup = dd\<rparr>)))"

lemma Kind_neq [simp]: "KindPut \<noteq> KindDelete" "KindDelete \<noteq> KindPut"
  by (simp_all add: KindPut_def KindDelete_def)

lemma ApplyPut_commit:
  "ApplyPut key val expiry idk e =
     (case replayed idk e of
        Some out \<Rightarrow> (Inr (out\<lparr>Deduplicated := True\<rparr>), e)
      | None \<Rightarrow> commit (put_record key val expiry idk) e)"
  by (cases e) (auto simp: ApplyPut_def replayed_def commit_def put_record_def put_entry_def put_outcome_def Let_def
      split: option.splits prod.splits sum.splits)

lemma engine_Delete_commit:
  "engine_Delete key idk e =
     (case replayed idk e of
        Some out \<Rightarrow> (Inr (out\<lparr>Deduplicated := True\<rparr>), e)
      | None \<Rightarrow> commit (delete_record key idk) e)"
  by (cases e) (auto simp: engine_Delete_def replayed_def commit_def delete_record_def put_outcome_def Let_def
      split: option.splits prod.splits sum.splits)

lemma ApplyCompareAndSet_commit:
  "ApplyCompareAndSet now key val v expiry idk e =
     (case replayed idk e of
        Some out \<Rightarrow> (Inr (out\<lparr>Deduplicated := True\<rparr>), e)
      | None \<Rightarrow>
          if currentVersion now key e \<noteq> v then (Inl ErrVersionMismatch, e)
          else commit (put_record key val expiry idk) e)"
  by (cases e) (auto simp: ApplyCompareAndSet_def replayed_def commit_def put_record_def put_entry_def put_outcome_def Let_def
      split: option.splits prod.splits sum.splits)

abbreviation at_end :: "Record \<Rightarrow> Record list \<Rightarrow> Record" where
  "at_end rec rs \<equiv> rec\<lparr>CommitPosition := of_nat (Suc (length rs))\<rparr>"

lemma commit_ok:
  assumes "engine_inv e rs" and "fits rec" and "commit rec e = (Inr out, e1)"
  shows "out = put_outcome (of_nat (Suc (length rs))) \<and> engine_inv e1 (rs @ [at_end rec rs])
    \<and> path (elog e1) = path (elog e)"
proof -
  from assms(3) obtain pos w where app: "wal_Append rec (elog e) = (Inr pos, w)" and out: "out = put_outcome pos"
    and e1: "elog e1 = w" "(index e1, dedup e1) = engine_apply (rec\<lparr>CommitPosition := pos\<rparr>) (index e, dedup e)"
    by (auto simp: commit_def split: prod.splits sum.splits)
  note ok = engine_log.append_ok [OF assms(1) [unfolded engine_inv_def] assms(2) TrueI app]
  then have pos: "pos = of_nat (Suc (length rs))" by simp
  from ok out e1 show ?thesis
    unfolding pos by (simp add: engine_inv_def del: engine_apply.simps of_nat_Suc)
qed

lemma commit_healthy:
  assumes "engine_inv e rs" and "engine_healthy e" and "fits rec"
  obtains e1 where "commit rec e = (Inr (put_outcome (of_nat (Suc (length rs)))), e1)"
    and "engine_inv e1 (rs @ [at_end rec rs])" and "engine_healthy e1" and "path (elog e1) = path (elog e)"
proof (rule engine_log.append_healthy [OF assms(1) [unfolded engine_inv_def] assms(2,3) TrueI])
  fix w assume w: "wal_Append rec (elog e) = (Inr (of_nat (Suc (length rs))), w)" "healthy (fd w)"
    and tr: "tracks engine_apply (\<lambda>_. True) (Map.empty, Map.empty) w (engine_apply (at_end rec rs) (index e, dedup e)) (rs @ [at_end rec rs])"
    and path: "path w = path (elog e)"
  show thesis
  proof (cases "engine_apply (at_end rec rs) (index e, dedup e)")
    case (Pair ix dd)
    with w tr path show thesis
      by (intro that [of "\<lparr>elog = w, index = ix, dedup = dd\<rparr>"])
        (simp_all add: commit_def engine_inv_def del: engine_apply.simps of_nat_Suc)
  qed
qed

text \<open>
  A commit during which system calls fail, and a crash after it: either the record is there
  or nothing changed, and it is there if the commit was acknowledged.
\<close>

lemma commit_crash:
  assumes "engine_inv e rs" and "fits rec" and "commit rec e = (res, e1)"
    and "durable (fd (elog e1)) \<le> k" and "k \<le> length (content (fd (elog e1)))"
  shows "engine_Open pth (crash k (fd (elog e1))) = Ret (Inr (engine_of pth (rs @ [at_end rec rs])))
    \<or> (\<exists>err. res = Inl err) \<and> engine_Open pth (crash k (fd (elog e1))) = Ret (Inr (engine_of pth rs))"
proof -
  obtain x w where app: "wal_Append rec (elog e) = (x, w)" by (metis prod.exhaust)
  then have "elog e1 = w" and res: "(\<exists>err. x = Inl err) \<longrightarrow> (\<exists>err. res = Inl err)"
    using assms(3) by (auto simp: commit_def split: prod.splits sum.splits)
  then show ?thesis
    using engine_log.append_crash [OF assms(1) [unfolded engine_inv_def] assms(2) TrueI app, of k pth] assms(4,5)
      engine_inv_tables [OF assms(1)]
    by (auto simp: engine_Open_def engine_of_def simp del: engine_apply.simps of_nat_Suc split: prod.splits)
qed

section \<open>Sequences of operations\<close>

datatype op =
    DoPut int bytes bytes i64 bytes
  | DoDelete bytes bytes
  | DoCompareAndSet int int bytes bytes u64 i64 bytes

fun run_op :: "op \<Rightarrow> engine \<Rightarrow> (engine_error + Outcome) \<times> engine" where
  "run_op (DoPut now key val ttl idk) e = engine_Put now key val ttl idk e"
| "run_op (DoDelete key idk) e = engine_Delete key idk e"
| "run_op (DoCompareAndSet now1 now2 key val v ttl idk) e = CompareAndSet now1 now2 key val v ttl idk e"

fun op_record :: "op \<Rightarrow> Record" where
  "op_record (DoPut now key val ttl idk) = put_record key val (ttl_expiry now ttl) idk"
| "op_record (DoDelete key idk) = delete_record key idk"
| "op_record (DoCompareAndSet now1 now2 key val v ttl idk) = put_record key val (ttl_expiry now1 ttl) idk"

fun run_ops :: "op list \<Rightarrow> engine \<Rightarrow> (engine_error + Outcome) list \<times> engine" where
  "run_ops [] e = ([], e)"
| "run_ops (x # xs) e =
     (case run_op x e of
        (r, e1) \<Rightarrow> (case run_ops xs e1 of (rs, e2) \<Rightarrow> (r # rs, e2)))"

abbreviation ops_fit :: "op list \<Rightarrow> bool" where
  "ops_fit xs \<equiv> \<forall>x \<in> set xs. fits (op_record x)"

text \<open>Operation records leave the position to the log.\<close>

lemma op_record_key: "Key (put_record key val expiry idk) = key" "Key (delete_record key idk) = key"
  "IdempotencyKey (put_record key val expiry idk) = idk" "IdempotencyKey (delete_record key idk) = idk"
  "Kind (put_record key val expiry idk) = KindPut" "Kind (delete_record key idk) = KindDelete"
  "Value (put_record key val expiry idk) = val" "ExpiresAtUnixNano (put_record key val expiry idk) = expiry"
  by (simp_all add: put_record_def delete_record_def)

lemmas [simp] = op_record_key

text \<open>An operation is answered from the tables, or commits its record.\<close>

fun op_mismatch :: "op \<Rightarrow> engine \<Rightarrow> bool" where
  "op_mismatch (DoCompareAndSet now1 now2 key val v ttl idk) e = (currentVersion now2 key e \<noteq> v)"
| "op_mismatch _ e = False"

lemma run_op_commit:
  "run_op x e =
     (case replayed (IdempotencyKey (op_record x)) e of
        Some out \<Rightarrow> (Inr (out\<lparr>Deduplicated := True\<rparr>), e)
      | None \<Rightarrow> if op_mismatch x e then (Inl ErrVersionMismatch, e) else commit (op_record x) e)"
  by (cases x) (simp_all add: engine_Put_def CompareAndSet_def ApplyPut_commit engine_Delete_commit
      ApplyCompareAndSet_commit split: option.split)

lemma run_op_cases:
  assumes "run_op x e = (res, e1)"
  obtains (replay) out where "replayed (IdempotencyKey (op_record x)) e = Some out"
      and "res = Inr (out\<lparr>Deduplicated := True\<rparr>)" and "e1 = e"
    | (mismatch) "op_mismatch x e" and "res = Inl ErrVersionMismatch" and "e1 = e"
    | (commits) "replayed (IdempotencyKey (op_record x)) e = None" and "\<not> op_mismatch x e"
      and "commit (op_record x) e = (res, e1)"
proof (cases "replayed (IdempotencyKey (op_record x)) e")
  case None
  with assms show thesis by (cases "op_mismatch x e") (auto simp: run_op_commit intro: mismatch commits)
next
  case (Some out)
  with assms show thesis by (intro replay [of out]) (auto simp: run_op_commit)
qed

lemma run_op_healthy:
  assumes "engine_inv e rs" and "engine_healthy e" and "fits (op_record x)" and "run_op x e = (res, e1)"
  shows "\<exists>new. engine_inv e1 (rs @ new) \<and> engine_healthy e1 \<and> path (elog e1) = path (elog e)
    \<and> (new = [] \<or> new = [at_end (op_record x) rs])"
  using assms(4)
proof (cases rule: run_op_cases)
  case commits
  show ?thesis
  proof (rule commit_healthy [OF assms(1-3)])
    fix e2
    assume e2: "commit (op_record x) e = (Inr (put_outcome (of_nat (Suc (length rs)))), e2)"
      "engine_inv e2 (rs @ [at_end (op_record x) rs])" "engine_healthy e2" "path (elog e2) = path (elog e)"
    with commits(3) have "e1 = e2" by simp
    with e2 show ?thesis by (intro exI [of _ "[at_end (op_record x) rs]"]) simp
  qed
qed (use assms in \<open>auto intro: exI [of _ "[]"]\<close>)

lemma run_ops_healthy:
  assumes "engine_inv e rs" and "engine_healthy e" and "ops_fit xs" and "run_ops xs e = (results, e1)"
  shows "\<exists>new. engine_inv e1 (rs @ new) \<and> engine_healthy e1 \<and> path (elog e1) = path (elog e)"
  using assms
proof (induction xs arbitrary: e rs results)
  case Nil
  then show ?case by (auto intro: exI [of _ "[]"])
next
  case (Cons x xs)
  obtain r e2 where x: "run_op x e = (r, e2)" by (metis prod.exhaust)
  with Cons.prems obtain results2 where xs: "run_ops xs e2 = (results2, e1)" by (auto split: prod.splits)
  from run_op_healthy [OF Cons.prems(1,2) _ x] Cons.prems(3) obtain new where
    "engine_inv e2 (rs @ new)" "engine_healthy e2" "path (elog e2) = path (elog e)" by auto
  with Cons.IH [OF this(1,2) _ xs] Cons.prems(3) obtain new2 where
    "engine_inv e1 ((rs @ new) @ new2)" "engine_healthy e1" "path (elog e1) = path (elog e)" by auto
  then show ?case by (intro exI [of _ "new @ new2"]) simp
qed

section \<open>Acknowledged mutations survive\<close>

text \<open>The records of the operations that were acknowledged as committed by themselves.\<close>

fun acked_records :: "op list \<Rightarrow> (engine_error + Outcome) list \<Rightarrow> Record list" where
  "acked_records (x # xs) (Inr out # rs) =
     (if Deduplicated out then acked_records xs rs
      else (op_record x)\<lparr>CommitPosition := out_CommitPosition out\<rparr> # acked_records xs rs)"
| "acked_records (x # xs) (Inl _ # rs) = acked_records xs rs"
| "acked_records _ _ = []"

lemma commit_state:
  assumes st: "log_state (elog e) att ack" and fits: "fits rec" and c: "commit rec e = (res, e1)"
  shows "case res of
      Inr out \<Rightarrow> log_state (elog e1) (att @ [rec\<lparr>CommitPosition := out_CommitPosition out\<rparr>]) (Suc (length att))
        \<and> \<not> Deduplicated out
    | Inl _ \<Rightarrow> \<exists>new. log_state (elog e1) (att @ new) ack"
proof -
  obtain x w where app: "wal_Append rec (elog e) = (x, w)" by (metis prod.exhaust)
  from wal_Append_state [OF st fits app] app c show ?thesis
    by (cases x) (auto simp: commit_def put_outcome_def simp del: engine_apply.simps split: prod.splits)
qed

lemma run_op_state:
  assumes st: "log_state (elog e) att ack" and fits: "fits (op_record x)" and r: "run_op x e = (res, e1)"
  shows "\<exists>new ack1. log_state (elog e1) (att @ new) ack1 \<and> ack \<le> ack1
    \<and> set (acked_records [x] [res]) \<subseteq> set (take ack1 (att @ new))"
  using r
proof (cases rule: run_op_cases)
  case commits
  have le: "ack \<le> length att" using st by (simp add: log_state_def)
  show ?thesis
  proof (cases res)
    case (Inl err)
    with commit_state [OF st fits commits(3)] show ?thesis by auto
  next
    case (Inr out)
    with commit_state [OF st fits commits(3)] le show ?thesis
      by (intro exI [of _ "[(op_record x)\<lparr>CommitPosition := out_CommitPosition out\<rparr>]"] exI [of _ "Suc (length att)"]) simp
  qed
next
  case (replay out)
  with st show ?thesis by (intro exI [of _ "[]"] exI [of _ ack]) simp
next
  case mismatch
  with st show ?thesis by (intro exI [of _ "[]"] exI [of _ ack]) simp
qed

lemma acked_records_Cons: "set (acked_records (x # xs) (r # rs)) = set (acked_records [x] [r]) \<union> set (acked_records xs rs)"
  by (cases r) auto

lemma run_ops_state:
  assumes "log_state (elog e) att ack" and "ops_fit xs" and "run_ops xs e = (results, e1)"
  shows "\<exists>new ack1. log_state (elog e1) (att @ new) ack1 \<and> ack \<le> ack1
    \<and> set (acked_records xs results) \<subseteq> set (take ack1 (att @ new))"
  using assms
proof (induction xs arbitrary: e att ack results)
  case Nil
  then show ?case by (intro exI [of _ "[]"] exI [of _ ack]) simp
next
  case (Cons x xs)
  obtain r e2 where x: "run_op x e = (r, e2)" by (metis prod.exhaust)
  with Cons.prems(3) obtain rs where xs: "run_ops xs e2 = (rs, e1)" and res: "results = r # rs"
    by (auto split: prod.splits)
  from run_op_state [OF Cons.prems(1) _ x] Cons.prems(2) obtain new ack2 where
    st2: "log_state (elog e2) (att @ new) ack2" and le2: "ack \<le> ack2"
    and sub2: "set (acked_records [x] [r]) \<subseteq> set (take ack2 (att @ new))" by auto
  from Cons.IH [OF st2 _ xs] Cons.prems(2) obtain new1 ack1 where
    st1: "log_state (elog e1) ((att @ new) @ new1) ack1" and le1: "ack2 \<le> ack1"
    and sub1: "set (acked_records xs rs) \<subseteq> set (take ack1 ((att @ new) @ new1))" by auto
  have "take ack2 (att @ new) = take ack2 ((att @ new) @ new1)"
    using st2 by (simp add: log_state_def)
  then have "set (take ack2 (att @ new)) \<subseteq> set (take ack1 ((att @ new) @ new1))"
    using set_take_subset_set_take [OF le1, of "(att @ new) @ new1"] by simp
  with sub1 sub2 have "set (acked_records (x # xs) (r # rs)) \<subseteq> set (take ack1 ((att @ new) @ new1))"
    using acked_records_Cons [of x xs r rs] by blast
  with st1 le1 le2 res show ?case by (intro exI [of _ "new @ new1"] exI [of _ ack1]) simp
qed

section \<open>State and change stream\<close>

definition last_change :: "Record list \<Rightarrow> bytes \<Rightarrow> Record option" where
  "last_change rs key = find (\<lambda>r. Key r = key \<and> (Kind r = KindPut \<or> Kind r = KindDelete)) (rev rs)"

lemma last_change_Nil [simp]: "last_change [] key = None"
  by (simp add: last_change_def)

lemma last_change_snoc [simp]:
  "last_change (rs @ [r]) key =
     (if Key r = key \<and> (Kind r = KindPut \<or> Kind r = KindDelete) then Some r else last_change rs key)"
  by (auto simp: last_change_def)

lemma index_last_change:
  "fst (fold engine_apply rs (Map.empty, Map.empty)) key =
     Option.bind (last_change rs key) (\<lambda>r. if Kind r = KindPut then Some (put_entry r) else None)"
proof (induction rs rule: rev_induct)
  case (snoc r rs)
  obtain ix dd where "fold engine_apply rs (Map.empty, Map.empty) = (ix, dd)" by force
  with snoc show ?case by auto
qed simp

lemma dedup_last:
  "idk \<noteq> [] \<Longrightarrow> snd (fold engine_apply rs (Map.empty, Map.empty)) idk =
     map_option (\<lambda>r. put_outcome (CommitPosition r)) (find (\<lambda>r. IdempotencyKey r = idk) (rev rs))"
proof (induction rs rule: rev_induct)
  case (snoc r rs)
  obtain ix dd where "fold engine_apply rs (Map.empty, Map.empty) = (ix, dd)" by force
  with snoc show ?case by auto
qed simp

lemma engine_index:
  "engine_inv e rs \<Longrightarrow> index e key =
     Option.bind (last_change rs key) (\<lambda>r. if Kind r = KindPut then Some (put_entry r) else None)"
  using index_last_change [of rs key] engine_inv_tables [of e rs] by simp

lemma currentVersion_last_change:
  assumes "engine_inv e rs"
  shows "currentVersion now key e = (case last_change rs key of
      None \<Rightarrow> 0
    | Some r \<Rightarrow> if Kind r = KindPut \<and> \<not> (0 < sint (ExpiresAtUnixNano r) \<and> sint (ExpiresAtUnixNano r) < now)
              then CommitPosition r else 0)"
  by (auto simp: currentVersion_def engine_index [OF assms] put_entry_def expired_def expiry_time_def
      split: option.splits)

lemma engine_dedup:
  "engine_inv e rs \<Longrightarrow> idk \<noteq> [] \<Longrightarrow> dedup e idk =
     map_option (\<lambda>r. put_outcome (CommitPosition r)) (find (\<lambda>r. IdempotencyKey r = idk) (rev rs))"
  using dedup_last [of idk rs] engine_inv_tables [of e rs] by simp

lemma engine_Fetch_segment:
  assumes "engine_inv e rs" and "engine_healthy e" and "i < length rs" and "length rs < 2 ^ 63" and "0 < limit"
  shows "engine_Fetch (of_nat (Suc i)) limit e = Ret (Inr (map change_of (take (nat limit) (drop i rs))), e)"
proof -
  have "log_of (elog e) rs" using assms(1) by (simp add: engine_inv_def tracks_log_of)
  from ReadRange_segment [OF this assms(2-5)] show ?thesis
    by (simp add: engine_Fetch_def del: of_nat_Suc)
qed

text \<open>
  A consumer that reads the whole stream and applies it has the values and versions of the
  engine: the view below uses nothing but the change records.
\<close>

fun apply_change :: "ChangeRecord \<Rightarrow> (bytes \<rightharpoonup> bytes \<times> u64) \<Rightarrow> (bytes \<rightharpoonup> bytes \<times> u64)" where
  "apply_change c view =
     (if chg_Kind c = KindPut then view(chg_Key c \<mapsto> (chg_Value c, Offset c))
      else if chg_Kind c = KindDelete then view(chg_Key c := None)
      else view)"

lemma view_of_changes:
  "fold apply_change (map change_of rs) Map.empty key =
     map_option (\<lambda>ent. (ent_value ent, ent_version ent)) (fst (fold engine_apply rs (Map.empty, Map.empty)) key)"
proof (induction rs rule: rev_induct)
  case (snoc r rs)
  obtain ix dd where "fold engine_apply rs (Map.empty, Map.empty) = (ix, dd)" by force
  with snoc show ?case by (auto simp: change_of_def put_entry_def)
qed simp

section \<open>Idempotency keys\<close>

text \<open>Every idempotency key occurs at most once in the log.\<close>

definition once :: "Record list \<Rightarrow> bool" where
  "once rs \<longleftrightarrow> distinct (filter (\<lambda>k. k \<noteq> []) (map IdempotencyKey rs))"

lemma replayed_None:
  assumes "engine_inv e rs" and "replayed idk e = None" and "idk \<noteq> []"
  shows "idk \<notin> IdempotencyKey ` set rs"
  using assms by (auto simp: replayed_def engine_dedup find_None_iff)

text \<open>An outcome that is remembered stays remembered.\<close>

lemma commit_dedup_other:
  assumes "commit rec e = (res, e1)" and "replayed (IdempotencyKey rec) e = None" and "idk \<noteq> []"
    and "dedup e idk = Some out"
  shows "dedup e1 idk = Some out"
  using assms by (auto simp: commit_def replayed_def split: prod.splits sum.splits if_splits)

lemma run_op_dedup:
  assumes "run_op x e = (res, e1)" and "idk \<noteq> []" and "dedup e idk = Some out"
  shows "dedup e1 idk = Some out"
  using assms(1)
proof (cases rule: run_op_cases)
  case commits
  with assms show ?thesis by (auto intro: commit_dedup_other)
qed (use assms in auto)

lemma run_ops_dedup:
  assumes "run_ops xs e = (results, e1)" and "idk \<noteq> []" and "dedup e idk = Some out"
  shows "dedup e1 idk = Some out"
  using assms
proof (induction xs arbitrary: e results)
  case (Cons x xs)
  obtain r e2 where x: "run_op x e = (r, e2)" by (metis prod.exhaust)
  with Cons.prems obtain results2 where xs: "run_ops xs e2 = (results2, e1)" by (auto split: prod.splits)
  from Cons.IH [OF xs Cons.prems(2) run_op_dedup [OF x Cons.prems(2,3)]] show ?case .
qed simp

lemma run_op_remembers:
  assumes "run_op x e = (Inr out, e1)" and "IdempotencyKey (op_record x) = idk" and "idk \<noteq> []"
  shows "\<exists>o1. dedup e1 idk = Some o1 \<and> o1\<lparr>Deduplicated := True\<rparr> = out\<lparr>Deduplicated := True\<rparr>"
  using assms(1)
proof (cases rule: run_op_cases)
  case (replay o1)
  with assms show ?thesis by (auto simp: replayed_def)
next
  case commits
  with assms show ?thesis
    by (auto simp: commit_def split: prod.splits sum.splits)
qed simp

section \<open>Versions\<close>

lemma last_change_position:
  assumes "last_change rs key = Some r" and "numbered rs"
  obtains i where "i < length rs" and "rs ! i = r" and "CommitPosition r = of_nat (Suc i)" and "Key r = key"
    and "\<forall>j < length rs. i < j \<longrightarrow> \<not> (Key (rs ! j) = key \<and> (Kind (rs ! j) = KindPut \<or> Kind (rs ! j) = KindDelete))"
proof -
  let ?P = "\<lambda>r. Key r = key \<and> (Kind r = KindPut \<or> Kind r = KindDelete)"
  from assms(1) obtain i where i: "i < length rs" "?P (rev rs ! i)" "r = rev rs ! i" "\<forall>j < i. \<not> ?P (rev rs ! j)"
    by (auto simp: last_change_def find_Some_iff)
  let ?i = "length rs - Suc i"
  have "rs ! ?i = r" using i by (simp add: rev_nth)
  moreover have "\<not> ?P (rs ! j)" if "j < length rs" "?i < j" for j
  proof -
    have "rev rs ! (length rs - Suc j) = rs ! j" using that by (simp add: rev_nth Suc_diff_Suc)
    moreover have "length rs - Suc j < i" using that i(1) by linarith
    ultimately show ?thesis using i(4) by metis
  qed
  ultimately show thesis
    using i(1,2) assms(2) by (intro that [of ?i]) (auto simp: numbered_def i(3) rev_nth)
qed

text \<open>
  Once a key was written or deleted again, its old version never comes back, so a
  conditional write that expects it fails: no lost update, no ABA.
\<close>

lemma stale_version:
  assumes inv: "engine_inv e (rs @ new)" and v: "v \<noteq> 0" "unat v \<le> length rs" and big: "length (rs @ new) < 2 ^ 64 - 1"
    and chg: "\<exists>r \<in> set new. Key r = key \<and> (Kind r = KindPut \<or> Kind r = KindDelete)"
  shows "currentVersion now key e \<noteq> v"
proof (cases "last_change (rs @ new) key")
  case None
  with v show ?thesis by (simp add: currentVersion_def engine_index [OF inv])
next
  case (Some r)
  have "numbered (rs @ new)" using engine_inv_wf [OF inv] by (simp add: well_formed_def)
  from last_change_position [OF Some this] obtain i where i: "i < length (rs @ new)"
    "CommitPosition r = of_nat (Suc i)"
    "\<forall>j < length (rs @ new). i < j \<longrightarrow>
      \<not> (Key ((rs @ new) ! j) = key \<and> (Kind ((rs @ new) ! j) = KindPut \<or> Kind ((rs @ new) ! j) = KindDelete))"
    by metis
  from chg obtain j where "j < length new" "Key (new ! j) = key" "Kind (new ! j) = KindPut \<or> Kind (new ! j) = KindDelete"
    by (auto simp: in_set_conv_nth)
  with i(3) have "length rs + j \<le> i" by (auto simp: nth_append dest!: spec [of _ "length rs + j"])
  moreover have "unat (of_nat (Suc i) :: u64) = Suc i" using i(1) big by (simp del: of_nat_Suc)
  ultimately have "CommitPosition r \<noteq> v" using v(2) i(2) by (metis Suc_n_not_le_n add_leD1 le_trans)
  with v(1) Some show ?thesis
    by (auto simp: currentVersion_def engine_index [OF inv] put_entry_def)
qed

section \<open>Conditional writes\<close>

lemma commit_put_healthy:
  assumes "engine_inv e rs" and "engine_healthy e" and "fits (put_record key val expiry idk)"
  defines "pos \<equiv> of_nat (Suc (length rs)) :: u64"
  shows "\<exists>e1. commit (put_record key val expiry idk) e = (Inr (put_outcome pos), e1)
    \<and> engine_inv e1 (rs @ [at_end (put_record key val expiry idk) rs]) \<and> engine_healthy e1
    \<and> index e1 = (index e)(key \<mapsto> \<lparr>ent_value = val, ent_version = pos, ent_expiresAt = expiry_time expiry\<rparr>)"
proof (rule commit_healthy [OF assms(1-3)])
  fix e1 assume e1: "commit (put_record key val expiry idk) e = (Inr (put_outcome (of_nat (Suc (length rs)))), e1)"
    "engine_inv e1 (rs @ [at_end (put_record key val expiry idk) rs])" "engine_healthy e1"
  then have "index e1 = (index e)(key \<mapsto> \<lparr>ent_value = val, ent_version = pos, ent_expiresAt = expiry_time expiry\<rparr>)"
    by (auto simp: commit_def put_entry_def put_record_def put_outcome_def pos_def
        simp del: of_nat_Suc split: prod.splits sum.splits)
  with e1 show ?thesis by (auto simp: pos_def)
qed

section \<open>Expiry\<close>

text \<open>As long as the expiry time fits 63 bits, a key lives exactly for its TTL.\<close>

lemma ttl_expiry_exact:
  assumes "0 \<le> now" and "0 < sint ttl" and "now + sint ttl * 1000000000 < 2 ^ 63"
  shows "expiry_time (ttl_expiry now ttl) = Some (now + sint ttl * 1000000000)"
proof -
  have prod: "sint (ttl * 1000000000) = sint ttl * 1000000000"
    using assms by (simp add: sint_word_ariths signed_take_bit_int_eq_self)
  have "ttl_expiry now ttl = of_int (now + sint ttl * 1000000000)"
    using assms(2) by (simp only: ttl_expiry_def prod if_True)
  then have "sint (ttl_expiry now ttl) = now + sint ttl * 1000000000"
    using assms by (simp only: sint_sbintrunc') (simp add: signed_take_bit_int_eq_self)
  with assms show ?thesis by (simp add: expiry_time_def)
qed

lemma engine_Put_healthy:
  assumes "engine_inv e rs" and "engine_healthy e" and "fits (put_record key val (ttl_expiry now ttl) idk)"
    and "replayed idk e = None"
  shows "\<exists>e1. engine_Put now key val ttl idk e = (Inr (put_outcome (of_nat (Suc (length rs)))), e1)
    \<and> engine_inv e1 (rs @ [at_end (put_record key val (ttl_expiry now ttl) idk) rs]) \<and> engine_healthy e1
    \<and> index e1 = (index e)(key \<mapsto> \<lparr>ent_value = val, ent_version = of_nat (Suc (length rs)),
        ent_expiresAt = expiry_time (ttl_expiry now ttl)\<rparr>)"
  using commit_put_healthy [OF assms(1-3)] assms(4) by (simp add: engine_Put_def ApplyPut_commit)

section \<open>Reset\<close>

lemma wal_Close_healthy:
  assumes "healthy (fd w)" and "werr (wr w) = None"
  shows "wal_Close w = (None, w\<lparr>wr := (wr w)\<lparr>wbuf := []\<rparr>,
    fd := (fd w)\<lparr>content := content (fd w) @ wbuf (wr w), closed := True\<rparr>\<rparr>)"
  using assms by (simp add: wal_Close_def bufio_Flush_healthy file_Close_def)

lemma wal_Open_empty:
  assumes "faults f = []" and "content f = []"
  shows "wal_Open pth f replay s = Ret (Inr (opened pth []), s)"
proof -
  let ?f = "f\<lparr>closed := False\<rparr>"
  have h: "healthy ?f" using assms by (simp add: healthy_def)
  let ?g = "?f\<lparr>content := header, durable := headerSize\<rparr>"
  have hdr: "ensureHeader ?f = (None, ?g)"
    using h assms by (simp add: ensureHeader_def file_Stat_def)
  have "healthy ?g" using h by simp
  then have "wal_recover replay ?g s = Ret (Inr (1, []), ?g, s)"
    by (simp add: wal_recover_def file_Seek_def recover_loop_eof)
  moreover have "?g = (disk header)\<lparr>closed := False\<rparr>"
    using assms by (simp add: disk_def)
  ultimately show ?thesis
    using h hdr by (simp add: wal_Open_def file_Seek_def opened_def)
qed

lemma engine_Reset_healthy:
  assumes "engine_healthy e" and "werr (wr (elog e)) = None"
  shows "engine_Reset e = Ret (None, engine_of (path (elog e)) [])"
proof -
  obtain w where cl: "wal_Close (elog e) = (None, w)" "closed (fd w)" "faults (fd w) = []" "path w = path (elog e)"
    using assms by (simp add: wal_Close_healthy healthy_def)
  have rm: "os_Remove (fd w) = (None, (fd w)\<lparr>content := [], durable := 0, closed := True\<rparr>)"
    using cl by (simp add: os_Remove_def syscall_def)
  show ?thesis
    using cl rm by (simp add: engine_Reset_def wal_Open_empty engine_of_def)
qed

section \<open>Properties\<close>

text \<open>The engine of the examples: a new one, and one operation on it.\<close>

definition sample_op :: "bytes \<Rightarrow> op" where
  "sample_op idk = DoPut 0 [0x6b] [0x76] 0 idk"

lemma engine_of_reopened:
  "engine_inv e rs \<Longrightarrow> \<lparr>elog = opened pth rs, index = index e, dedup = dedup e\<rparr> = engine_of pth rs"
  using engine_inv_tables [of e rs] by (simp add: engine_of_def)

lemma engine_sample: "engine_inv (engine_of [] []) []" "engine_healthy (engine_of [] [])"
  using engine_inv_of [of "[]" "[]"] by simp_all

lemma engine_of_Nil [simp]: "index (engine_of pth []) = Map.empty" "dedup (engine_of pth []) = Map.empty"
  by (simp_all add: engine_of_def)

lemma sample_op_fits [simp]: "length idk < 1000 \<Longrightarrow> fits (op_record (sample_op idk))"
  by (simp add: sample_op_def put_record_def fits_def)

lemma sample_op_run:
  assumes "length idk < 1000"
  obtains e1 where "run_op (sample_op idk) (engine_of [] []) = (Inr (put_outcome 1), e1)"
    and "engine_inv e1 [at_end (op_record (sample_op idk)) []]" and "engine_healthy e1"
    and "durable (fd (elog e1)) \<le> length (content (fd (elog e1)))"
proof (rule commit_healthy [OF engine_sample, of "op_record (sample_op idk)"])
  fix e1 assume e1: "commit (op_record (sample_op idk)) (engine_of [] []) =
      (Inr (put_outcome (of_nat (Suc (length ([] :: Record list))))), e1)"
    "engine_inv e1 ([] @ [at_end (op_record (sample_op idk)) []])" "engine_healthy e1"
  then have "durable (fd (elog e1)) \<le> length (content (fd (elog e1)))"
    by (simp add: engine_inv_def tracks_def log_of_def)
  moreover have "IdempotencyKey (op_record (sample_op idk)) = idk" "\<not> op_mismatch (sample_op idk) (engine_of [] [])"
    "replayed idk (engine_of [] []) = None" by (simp_all add: sample_op_def replayed_def)
  then have "run_op (sample_op idk) (engine_of [] []) = (Inr (put_outcome 1), e1)"
    using e1(1) by (simp add: run_op_commit)
  ultimately show thesis using e1 that by simp
qed (simp add: assms)

text \<open>
  C2. No acknowledged mutation is lost.  After any sequence of puts, deletes and conditional
  writes in which any system call may fail, and a crash, the engine opens again, its state is the
  replay of a log that extends the old one, and that log holds the record of every operation
  that was acknowledged.
\<close>

theorem engine_acknowledged_survive:
  assumes inv: "engine_inv e rs" and fit: "ops_fit xs" and run: "run_ops xs e = (results, e1)"
    and k: "durable (fd (elog e1)) \<le> k" "k \<le> length (content (fd (elog e1)))"
  shows "\<exists>kept. engine_Open pth (crash k (fd (elog e1))) = Ret (Inr (engine_of pth kept))
    \<and> well_formed kept \<and> take (length rs) kept = rs \<and> set (acked_records xs results) \<subseteq> set kept"
proof -
  have st0: "log_state (elog e) rs (length rs)"
    using inv by (auto simp: engine_inv_def dest: tracks_log_of log_of_state)
  from run_ops_state [OF st0 fit run] obtain new ack where
    st: "log_state (elog e1) (rs @ new) ack" and ack: "length rs \<le> ack"
    and sub: "set (acked_records xs results) \<subseteq> set (take ack (rs @ new))" by blast
  let ?att = "rs @ new"
  from log_state_crash [OF st k] obtain m j where
    cr: "crash k (fd (elog e1)) = disk (log_bytes (take m ?att) @ take j (frame (?att ! m)))"
    and m: "ack \<le> m" and j: "j = 0 \<or> fits (?att ! m) \<and> j < length (frame (?att ! m))" by blast
  have "well_formed ?att" using st by (simp add: log_state_def)
  then have wf: "well_formed (take m ?att)" by (rule well_formed_take)
  have "wal_Open pth (crash k (fd (elog e1))) engine_replay (Map.empty, Map.empty) =
      Ret (Inr (opened pth (take m ?att)), fold engine_apply (take m ?att) (Map.empty, Map.empty))"
    unfolding cr by (rule wal_Open_log [OF wf engine_log.replay_all_fold j]) simp
  then have "engine_Open pth (crash k (fd (elog e1))) = Ret (Inr (engine_of pth (take m ?att)))"
    by (simp add: engine_Open_def engine_of_def split: prod.splits)
  moreover have "take (length rs) (take m ?att) = rs" using m ack by (simp add: min_absorb2)
  moreover have "set (acked_records xs results) \<subseteq> set (take m ?att)"
    using sub set_take_subset_set_take [OF m, of ?att] by blast
  ultimately show ?thesis using wf by blast
qed

theorem engine_acknowledged_survive_witness:
  "\<exists>results e1 kept. run_ops [sample_op []] (engine_of [] []) = (results, e1)
    \<and> engine_Open [] (crash (durable (fd (elog e1))) (fd (elog e1))) = Ret (Inr (engine_of [] kept))
    \<and> acked_records [sample_op []] results \<noteq> [] \<and> set (acked_records [sample_op []] results) \<subseteq> set kept"
proof (rule sample_op_run [of "[]"])
  fix e1 assume e1: "run_op (sample_op []) (engine_of [] []) = (Inr (put_outcome 1), e1)"
    "durable (fd (elog e1)) \<le> length (content (fd (elog e1)))"
  then have run: "run_ops [sample_op []] (engine_of [] []) = ([Inr (put_outcome 1)], e1)" by simp
  have "acked_records [sample_op []] [Inr (put_outcome 1)] \<noteq> []" by (simp add: put_outcome_def)
  with engine_acknowledged_survive [OF engine_sample(1) _ run order_refl e1(2), of "[]"] run
  show ?thesis by auto
qed simp

text \<open>
  C5. Mutations are atomic under crashes: after one operation, during which any system call may
  fail, and a crash, the engine that opens is the one before the operation or the one with the
  operation's record added, and it is the latter if the operation was acknowledged.
\<close>

theorem run_op_crash_atomic:
  assumes inv: "engine_inv e rs" and fits: "fits (op_record x)" and run: "run_op x e = (res, e1)"
    and k: "durable (fd (elog e1)) \<le> k" "k \<le> length (content (fd (elog e1)))"
  shows "\<exists>rs1. engine_Open pth (crash k (fd (elog e1))) = Ret (Inr (engine_of pth rs1))
    \<and> (rs1 = rs \<or> rs1 = rs @ [at_end (op_record x) rs])
    \<and> (\<forall>out. res = Inr out \<and> \<not> Deduplicated out \<longrightarrow> rs1 = rs @ [at_end (op_record x) rs])"
  using run
proof (cases rule: run_op_cases)
  case commits
  from commit_crash [OF inv fits commits(3) k, of pth] show ?thesis by auto
next
  case (replay out)
  with engine_reopen [OF inv, of k pth] k engine_of_reopened [OF inv, of pth] show ?thesis by auto
next
  case mismatch
  with engine_reopen [OF inv, of k pth] k engine_of_reopened [OF inv, of pth] show ?thesis by auto
qed

theorem run_op_crash_atomic_witness:
  "\<exists>res e1 rs1. run_op (sample_op []) (engine_of [] []) = (res, e1)
    \<and> engine_Open [] (crash (durable (fd (elog e1))) (fd (elog e1))) = Ret (Inr (engine_of [] rs1))
    \<and> rs1 = [at_end (op_record (sample_op [])) []]"
proof (rule sample_op_run [of "[]"])
  fix e1 assume e1: "run_op (sample_op []) (engine_of [] []) = (Inr (put_outcome 1), e1)"
    "durable (fd (elog e1)) \<le> length (content (fd (elog e1)))"
  from run_op_crash_atomic [OF engine_sample(1) _ e1(1) order_refl e1(2), of "[]"] e1(1) show ?thesis
    by (auto simp: put_outcome_def)
qed simp

text \<open>
  C13. Retries are idempotent across restarts: when an operation with an idempotency key was
  acknowledged, then after any further operations and a restart, every operation with that key
  returns the first outcome, marked as deduplicated, and changes nothing.
\<close>

theorem retry_after_restart:
  assumes inv: "engine_inv e rs" "engine_healthy e" and fit: "fits (op_record x)" "ops_fit xs"
    and first: "run_op x e = (Inr out, e1)" and later: "run_ops xs e1 = (results, e2)"
    and key: "IdempotencyKey (op_record x) = idk" "IdempotencyKey (op_record y) = idk" "idk \<noteq> []"
    and crash: "durable (fd (elog e2)) \<le> k"
  shows "\<exists>e3. engine_Open pth (crash k (fd (elog e2))) = Ret (Inr e3)
    \<and> index e3 = index e2 \<and> run_op y e3 = (Inr (out\<lparr>Deduplicated := True\<rparr>), e3)"
proof -
  from run_op_healthy [OF inv fit(1) first] obtain new where
    "engine_inv e1 (rs @ new)" "engine_healthy e1" by blast
  from run_ops_healthy [OF this fit(2) later] obtain new2 where e2: "engine_inv e2 ((rs @ new) @ new2)" by blast
  from run_op_remembers [OF first key(1,3)] obtain o1 where
    o1: "dedup e1 idk = Some o1" "o1\<lparr>Deduplicated := True\<rparr> = out\<lparr>Deduplicated := True\<rparr>" by blast
  from run_ops_dedup [OF later key(3) o1(1)] have "dedup e2 idk = Some o1" .
  with engine_reopen [OF e2 crash] o1(2) key show ?thesis
    by (simp add: run_op_commit replayed_def)
qed

theorem retry_after_restart_witness:
  "\<exists>out (e2 :: engine) e3. engine_Open [] (crash (durable (fd (elog e2))) (fd (elog e2))) = Ret (Inr e3)
    \<and> run_op (sample_op [1]) e3 = (Inr (out\<lparr>Deduplicated := True\<rparr>), e3)"
proof (rule sample_op_run [of "[1]"])
  fix e1 assume e1: "run_op (sample_op [1]) (engine_of [] []) = (Inr (put_outcome 1), e1)"
  have "run_ops [] e1 = ([], e1)" by simp
  moreover have "IdempotencyKey (op_record (sample_op [1])) = [1]" by (simp add: sample_op_def)
  ultimately obtain e3 where "engine_Open [] (crash (durable (fd (elog e1))) (fd (elog e1))) = Ret (Inr e3)"
    "run_op (sample_op [1]) e3 = (Inr ((put_outcome 1)\<lparr>Deduplicated := True\<rparr>), e3)"
    using retry_after_restart [OF engine_sample sample_op_fits _ e1, of "[]" "[]" e1 "[1]" "sample_op [1]"
        "durable (fd (elog e1))" "[]"] by auto
  then show ?thesis by blast
qed simp

text \<open>
  C15. At most once: on a working disk no sequence of operations puts two records with the same
  idempotency key into the log.
\<close>

theorem run_ops_once:
  assumes "engine_inv e rs" and "engine_healthy e" and "once rs" and "ops_fit xs" and "run_ops xs e = (results, e1)"
  shows "\<exists>new. engine_inv e1 (rs @ new) \<and> engine_healthy e1 \<and> once (rs @ new)"
  using assms
proof (induction xs arbitrary: e rs results)
  case Nil
  then show ?case by (auto intro: exI [of _ "[]"])
next
  case (Cons x xs)
  obtain r e2 where x: "run_op x e = (r, e2)" by (metis prod.exhaust)
  with Cons.prems obtain results2 where xs: "run_ops xs e2 = (results2, e1)" by (auto split: prod.splits)
  have "\<exists>new. engine_inv e2 (rs @ new) \<and> engine_healthy e2 \<and> once (rs @ new)"
    using x
  proof (cases rule: run_op_cases)
    case commits
    show ?thesis
    proof (rule commit_healthy [OF Cons.prems(1,2), of "op_record x"])
      fix e3
      assume e3: "commit (op_record x) e = (Inr (put_outcome (of_nat (Suc (length rs)))), e3)"
        "engine_inv e3 (rs @ [at_end (op_record x) rs])" "engine_healthy e3"
      have "once (rs @ [at_end (op_record x) rs])"
        using Cons.prems(3) replayed_None [OF Cons.prems(1) commits(1)] by (auto simp: once_def)
      with e3 commits(3) show ?thesis by (intro exI [of _ "[at_end (op_record x) rs]"]) simp
    qed (use Cons.prems in simp)
  qed (use Cons.prems in \<open>auto intro: exI [of _ "[]"]\<close>)
  then obtain new where "engine_inv e2 (rs @ new)" "engine_healthy e2" "once (rs @ new)" by blast
  from Cons.IH [OF this _ xs] Cons.prems(4) obtain new2 where
    "engine_inv e1 ((rs @ new) @ new2)" "engine_healthy e1" "once ((rs @ new) @ new2)" by auto
  then show ?case by (intro exI [of _ "new @ new2"]) simp
qed

theorem run_ops_once_witness:
  "\<exists>new e1. engine_inv e1 new \<and> once new \<and> snd (run_ops [sample_op [1], sample_op [1]] (engine_of [] [])) = e1"
  using run_ops_once [OF engine_sample, of "[sample_op [1], sample_op [1]]"
      "fst (run_ops [sample_op [1], sample_op [1]] (engine_of [] []))"
      "snd (run_ops [sample_op [1], sample_op [1]] (engine_of [] []))"]
  by (auto simp: once_def)

text \<open>
  C16. \<^verbatim>\<open>Get\<close> reads the last change: its answer is the value and the commit position of the last record
  for the key in the log, if that record is a put that has not expired, and nothing otherwise.
\<close>

theorem engine_Get_last_change:
  assumes "engine_inv e rs"
  shows "engine_Get now key e =
    Option.bind (last_change rs key) (\<lambda>r.
      if Kind r = KindPut \<and> \<not> (0 < sint (ExpiresAtUnixNano r) \<and> sint (ExpiresAtUnixNano r) < now)
      then Some (Value r, CommitPosition r) else None)"
  by (auto simp: engine_Get_def engine_index [OF assms] put_entry_def expired_def expiry_time_def
      split: option.splits Option.bind_splits)

theorem engine_Get_last_change_witness:
  "engine_Get 7 [0x6b] (engine_of [] [sample_record]) = Some ([0x76], 1)"
proof -
  have "well_formed [sample_record]"
    using well_formed_snoc [of "[]" sample_record] by (simp add: sample_record_def fits_def)
  then have "engine_inv (engine_of [] [sample_record]) [sample_record]" using engine_inv_of by blast
  from engine_Get_last_change [OF this, of 7 "[0x6b]"] show ?thesis
    using last_change_snoc [of "[]" sample_record "[0x6b]"] by (simp add: sample_record_def)
qed

text \<open>
  C17. State and change stream cannot diverge: a consumer that fetches the whole stream and applies
  the change records has exactly the values and versions of the engine's index.
\<close>

theorem stream_rebuilds_state:
  assumes "engine_inv e rs" and "engine_healthy e" and "rs \<noteq> []" and "length rs < 2 ^ 63"
    and "int (length rs) \<le> limit"
  shows "\<exists>changes. engine_Fetch 1 limit e = Ret (Inr changes, e)
    \<and> (\<forall>key. fold apply_change changes Map.empty key =
          map_option (\<lambda>ent. (ent_value ent, ent_version ent)) (index e key))"
proof -
  have n: "0 < length rs" using assms(3) by simp
  then have "0 < limit" using assms(5) by linarith
  from engine_Fetch_segment [OF assms(1,2) n assms(4) this] assms(5)
  have "engine_Fetch 1 limit e = Ret (Inr (map change_of rs), e)" by (simp add: nat_le_iff [symmetric] le_nat_iff)
  with view_of_changes [of rs] engine_inv_tables [OF assms(1)] show ?thesis by auto
qed

theorem stream_rebuilds_state_witness:
  "\<exists>changes. engine_Fetch 1 10 (engine_of [] [sample_record]) = Ret (Inr changes, engine_of [] [sample_record])
    \<and> fold apply_change changes Map.empty [0x6b] =
        map_option (\<lambda>ent. (ent_value ent, ent_version ent)) (index (engine_of [] [sample_record]) [0x6b])"
proof -
  have "well_formed [sample_record]"
    using well_formed_snoc [of "[]" sample_record] by (simp add: sample_record_def fits_def)
  then have "engine_inv (engine_of [] [sample_record]) [sample_record] \<and> engine_healthy (engine_of [] [sample_record])"
    by (rule engine_inv_of)
  from stream_rebuilds_state [OF conjunct1 [OF this] conjunct2 [OF this], of 10] show ?thesis by auto
qed

text \<open>
  C28. A conditional write whose idempotency key is empty or new commits, on a working disk, exactly
  when the expected version is the commit position of the last record for the key in the log,
  with 0 if that record is a delete or has expired or there is none: then it gets the next
  position, and no other key changes; otherwise it reports the mismatch and changes nothing, log
  included.
\<close>

theorem ApplyCompareAndSet_commits:
  fixes now :: int
  assumes "engine_inv e rs" and "engine_healthy e" and "fits (put_record key val expiry idk)"
    and "idk = [] \<or> idk \<notin> IdempotencyKey ` set rs"
  defines "pos \<equiv> of_nat (Suc (length rs)) :: u64"
    and "current \<equiv> (case last_change rs key of
        None \<Rightarrow> 0
      | Some r \<Rightarrow> if Kind r = KindPut \<and> \<not> (0 < sint (ExpiresAtUnixNano r) \<and> sint (ExpiresAtUnixNano r) < now)
                then CommitPosition r else 0)"
  shows "if current = v
    then \<exists>e1. ApplyCompareAndSet now key val v expiry idk e = (Inr (put_outcome pos), e1)
      \<and> engine_inv e1 (rs @ [at_end (put_record key val expiry idk) rs])
      \<and> index e1 = (index e)(key \<mapsto> \<lparr>ent_value = val, ent_version = pos, ent_expiresAt = expiry_time expiry\<rparr>)
    else ApplyCompareAndSet now key val v expiry idk e = (Inl ErrVersionMismatch, e)"
proof -
  have "replayed idk e = None"
    using assms(4) engine_dedup [OF assms(1), of idk] by (auto simp: replayed_def find_None_iff)
  moreover have "currentVersion now key e = current"
    unfolding current_def currentVersion_last_change [OF assms(1)] ..
  ultimately show ?thesis
    using commit_put_healthy [OF assms(1-3)] by (auto simp: ApplyCompareAndSet_commit pos_def)
qed

theorem ApplyCompareAndSet_commits_witness:
  "\<exists>e1. ApplyCompareAndSet 7 [0x6b] [0x77] 1 0 [] (engine_of [] [sample_record]) = (Inr (put_outcome 2), e1)
    \<and> index e1 = (index (engine_of [] [sample_record]))
        ([0x6b] \<mapsto> \<lparr>ent_value = [0x77], ent_version = 2, ent_expiresAt = None\<rparr>)"
proof -
  have "well_formed [sample_record]"
    using well_formed_snoc [of "[]" sample_record] by (simp add: sample_record_def fits_def)
  then have "engine_inv (engine_of [] [sample_record]) [sample_record] \<and> engine_healthy (engine_of [] [sample_record])"
    by (rule engine_inv_of)
  from ApplyCompareAndSet_commits [OF conjunct1 [OF this] conjunct2 [OF this], of "[0x6b]" "[0x77]" 0 "[]" 7 1] show ?thesis
    using last_change_snoc [of "[]" sample_record "[0x6b]"]
    by (auto simp: sample_record_def put_record_def fits_def expiry_time_def)
qed

text \<open>
  C29. No lost update and no ABA: once a key was written or deleted after a version of it was
  observed, a conditional write without idempotency key that expects the observed version is
  refused, whatever records the log got in between.  The log has only grown since: a restore,
  which starts a new log, or a deleted namespace is not in between.
\<close>

theorem stale_CompareAndSet_refused:
  assumes "engine_inv e (rs @ new)" and "v \<noteq> 0" and "unat v \<le> length rs" and "length (rs @ new) < 2 ^ 64 - 1"
    and "\<exists>r \<in> set new. Key r = key \<and> (Kind r = KindPut \<or> Kind r = KindDelete)"
  shows "CompareAndSet now1 now2 key val v ttl [] e = (Inl ErrVersionMismatch, e)"
  using stale_version [OF assms, of now2]
  by (simp add: CompareAndSet_def ApplyCompareAndSet_commit replayed_def)

theorem stale_CompareAndSet_refused_witness:
  "CompareAndSet 0 0 [0x6b] [] 1 0 [] (engine_of [] [sample_record, sample_record\<lparr>CommitPosition := 2\<rparr>]) =
    (Inl ErrVersionMismatch, engine_of [] [sample_record, sample_record\<lparr>CommitPosition := 2\<rparr>])"
proof -
  have "well_formed ([sample_record] @ [sample_record\<lparr>CommitPosition := 2\<rparr>])"
    using well_formed_snoc [of "[]" sample_record] well_formed_snoc [of "[sample_record]" "sample_record\<lparr>CommitPosition := 2\<rparr>"]
    by (simp add: sample_record_def fits_def)
  then have "engine_inv (engine_of [] ([sample_record] @ [sample_record\<lparr>CommitPosition := 2\<rparr>]))
      ([sample_record] @ [sample_record\<lparr>CommitPosition := 2\<rparr>])" using engine_inv_of by blast
  from stale_CompareAndSet_refused [OF this, of 1 "[0x6b]" 0 0 "[]" 0] show ?thesis
    by (simp add: sample_record_def)
qed

text \<open>
  C30. A key put with a positive TTL, on a working disk and not as a replay of a known idempotency key,
  is readable up to and including its expiry time and never after it, as long as the expiry time
  in nanoseconds is below \<open>2 ^ 63\<close>.
\<close>

theorem engine_Put_Get_ttl:
  assumes "engine_inv e rs" and "engine_healthy e" and "fits (put_record key val (ttl_expiry now ttl) idk)"
    and "replayed idk e = None" and "0 \<le> now" and "0 < sint ttl" and "now + sint ttl * 1000000000 < 2 ^ 63"
  shows "\<exists>out e1. engine_Put now key val ttl idk e = (Inr out, e1)
    \<and> (\<forall>t. engine_Get t key e1 = (if t \<le> now + sint ttl * 1000000000 then Some (val, out_Version out) else None))"
  using engine_Put_healthy [OF assms(1-4)] ttl_expiry_exact [OF assms(5-7)]
  by (auto simp: engine_Get_def expired_def put_outcome_def)

theorem engine_Put_Get_ttl_witness:
  "\<exists>out e1. engine_Put 1700000000000000000 [0x6b] [0x76] 60 [] (engine_of [] []) = (Inr out, e1)
    \<and> (\<forall>t. engine_Get t [0x6b] e1 = (if t \<le> 1700000060000000000 then Some ([0x76], out_Version out) else None))"
  using engine_Put_Get_ttl [OF engine_sample, of "[0x6b]" "[0x76]" 1700000000000000000 60 "[]"]
  by (simp add: put_record_def fits_def replayed_def)

text \<open>
  Expiry times wrap around: with the clock in 2023, a TTL of 9223372036 seconds overflows the
  sum, so that the key never expires, and a TTL of 18446744074 seconds overflows the product,
  so that the key is gone after one second.
\<close>

lemma engine_Put_ttl_overflow:
  "engine_Get t [0x6b] (snd (engine_Put 1700000000000000000 [0x6b] [0x76] 9223372036 [] (engine_of [] []))) =
     Some ([0x76], 1)
   \<and> engine_Get 1700000001000000000 [0x6b]
       (snd (engine_Put 1700000000000000000 [0x6b] [0x76] 18446744074 [] (engine_of [] []))) = None"
proof -
  have never: "expiry_time (ttl_expiry 1700000000000000000 9223372036) = None"
    and soon: "expiry_time (ttl_expiry 1700000000000000000 18446744074) = Some 1700000000290448384"
    by (simp_all add: expiry_time_def ttl_expiry_def signed_take_bit_int_eq_self_iff)
  have put: "\<exists>e1. engine_Put 1700000000000000000 [0x6b] [0x76] ttl [] (engine_of [] []) = (Inr (put_outcome 1), e1)
    \<and> index e1 = [[0x6b] \<mapsto> \<lparr>ent_value = [0x76], ent_version = 1,
        ent_expiresAt = expiry_time (ttl_expiry 1700000000000000000 ttl)\<rparr>]" for ttl
    using engine_Put_healthy [OF engine_sample, of "[0x6b]" "[0x76]" 1700000000000000000 ttl "[]"]
    by (auto simp: put_record_def fits_def replayed_def)
  from put [of 9223372036] put [of 18446744074] show ?thesis
    by (auto simp: engine_Get_def expired_def never soon)
qed

end
