(* ===== verification/GoGob.thy ===== *)
theory GoGob
  imports Prelude
begin

text \<open>
  What the program uses of \<^verbatim>\<open>encoding/gob\<close>: structs, slices, byte slices, strings and integers, as
  the package documentation defines their encoding.  An integer is one byte or a byte count and
  the bytes, most significant first; a signed one has its sign in the lowest bit; a struct is a
  sequence of field number increments and values that leaves out zero fields; a stream is a
  sequence of messages, type definitions before the value.  The numbers of the types are assigned
  by the process in the order in which it first meets the types, so they are a parameter.  The
  decoder skips type definitions, which in the streams of this program are those of the expected type.
\<close>

section \<open>Integers and bytes\<close>

fun be_bytes :: "nat \<Rightarrow> bytes" where
  "be_bytes n = (if n = 0 then [] else be_bytes (n div 256) @ [of_nat (n mod 256)])"

declare be_bytes.simps [simp del]

definition be_value :: "bytes \<Rightarrow> nat" where
  "be_value bs = foldl (\<lambda>a b. a * 256 + unat b) 0 bs"

definition gob_uint :: "nat \<Rightarrow> bytes" where
  "gob_uint n =
     (if n \<le> 127 then [of_nat n]
      else let bs = be_bytes n in of_nat (256 - length bs) # bs)"

fun gob_dec_uint :: "bytes \<Rightarrow> (nat \<times> bytes) option" where
  "gob_dec_uint [] = None"
| "gob_dec_uint (b # bs) =
     (if unat b \<le> 127 then Some (unat b, bs)
      else let k = 256 - unat b in
        if k \<le> 8 \<and> k \<le> length bs then Some (be_value (take k bs), drop k bs) else None)"

definition gob_int :: "int \<Rightarrow> bytes" where
  "gob_int i = gob_uint (if i < 0 then nat (- 2 * i - 1) else nat (2 * i))"

definition gob_dec_int :: "bytes \<Rightarrow> (int \<times> bytes) option" where
  "gob_dec_int bs =
     map_option (\<lambda>(n, r). (if odd n then - int ((n + 1) div 2) else int (n div 2), r)) (gob_dec_uint bs)"

definition gob_dec_bytes :: "bytes \<Rightarrow> (bytes \<times> bytes) option" where
  "gob_dec_bytes bs =
     (case gob_dec_uint bs of
        None \<Rightarrow> None
      | Some (n, r) \<Rightarrow> if n \<le> length r then Some (take n r, drop n r) else None)"

lemma be_value_snoc [simp]: "be_value (bs @ [b]) = be_value bs * 256 + unat b"
  by (simp add: be_value_def)

lemma be_value_bytes: "be_value (be_bytes n) = n"
proof (induction n rule: be_bytes.induct)
  case (1 n)
  show ?case
  proof (cases "n = 0")
    case False
    then have "be_value (be_bytes n) = be_value (be_bytes (n div 256)) * 256 + unat (of_nat (n mod 256) :: byte)"
      by (subst be_bytes.simps) simp
    moreover have "unat (of_nat (n mod 256) :: byte) = n mod 256" by (simp add: unat_of_nat)
    ultimately show ?thesis using 1 False by simp
  qed (simp add: be_bytes.simps be_value_def)
qed

lemma length_be_bytes: "n < 256 ^ k \<Longrightarrow> length (be_bytes n) \<le> k"
proof (induction k arbitrary: n)
  case (Suc k)
  then have "n div 256 < 256 ^ k" by (simp add: less_mult_imp_div_less)
  with Suc.IH [of "n div 256"] show ?case by (subst be_bytes.simps) simp
qed (simp add: be_bytes.simps)

lemma be_bytes_nonempty: "0 < n \<Longrightarrow> be_bytes n \<noteq> []"
  by (subst be_bytes.simps) simp

lemma unat_byte: "n < 256 \<Longrightarrow> unat (of_nat n :: byte) = n"
  by (simp add: unat_of_nat)

lemma gob_dec_uint_enc [simp]:
  assumes "n < 2 ^ 64"
  shows "gob_dec_uint (gob_uint n @ rest) = Some (n, rest)"
proof (cases "n \<le> 127")
  case True
  then have "unat (of_nat n :: byte) = n" by (simp add: unat_of_nat)
  with True show ?thesis by (simp add: gob_uint_def)
next
  case False
  let ?l = "length (be_bytes n)"
  have "?l \<le> 8" using assms by (intro length_be_bytes) simp
  moreover have "0 < ?l" using be_bytes_nonempty [of n] False by simp
  ultimately have l: "256 - (256 - ?l) = ?l" "\<not> 256 - ?l \<le> 127" "256 - ?l < 256" by linarith+
  have "gob_uint n = of_nat (256 - ?l) # be_bytes n" using False by (simp only: gob_uint_def Let_def if_False)
  moreover have "gob_dec_uint (of_nat (256 - ?l) # be_bytes n @ rest) = Some (n, rest)"
    using l \<open>?l \<le> 8\<close> by (simp only: gob_dec_uint.simps unat_byte Let_def) (simp add: be_value_bytes)
  ultimately show ?thesis by simp
qed

lemma gob_dec_uint_shrinks: "gob_dec_uint bs = Some (n, r) \<Longrightarrow> length r < length bs"
  by (cases bs) (auto simp: Let_def split: if_splits)

lemma gob_dec_int_enc [simp]:
  assumes "- (2 ^ 63) \<le> i" and "i < 2 ^ 63"
  shows "gob_dec_int (gob_int i @ rest) = Some (i, rest)"
proof (cases "i < 0")
  case True
  then have "odd (nat (- 2 * i - 1))" "int ((nat (- 2 * i - 1) + 1) div 2) = - i"
    by (simp_all add: even_nat_iff nat_diff_distrib' nat_mult_distrib)
  with True assms show ?thesis by (simp add: gob_int_def gob_dec_int_def)
next
  case False
  then have "even (nat (2 * i))" "int (nat (2 * i) div 2) = i" by (simp_all add: even_nat_iff nat_mult_distrib)
  with False assms show ?thesis by (simp add: gob_int_def gob_dec_int_def)
qed

lemma gob_dec_bytes_enc [simp]:
  "length b < 2 ^ 64 \<Longrightarrow> gob_dec_bytes (gob_uint (length b) @ b @ rest) = Some (b, rest)"
  by (simp add: gob_dec_bytes_def)

section \<open>Values\<close>

datatype gtype = TUint | TInt | TBytes | TSlice gtype | TStruct "gtype list"

datatype gval = VUint nat | VInt int | VBytes bytes | VSlice "gval list" | VStruct "gval list"

fun is_zero :: "gval \<Rightarrow> bool" where
  "is_zero (VUint n) = (n = 0)"
| "is_zero (VInt i) = (i = 0)"
| "is_zero (VBytes b) = (b = [])"
| "is_zero (VSlice vs) = (vs = [])"
| "is_zero (VStruct vs) = False"

text \<open>Fields of a struct: \<open>d\<close> is the increment to the field at hand.\<close>

fun gob_fields :: "nat \<Rightarrow> bytes option list \<Rightarrow> bytes" where
  "gob_fields d [] = gob_uint 0"
| "gob_fields d (None # fs) = gob_fields (Suc d) fs"
| "gob_fields d (Some v # fs) = gob_uint d @ v @ gob_fields 1 fs"

fun gob_enc :: "gval \<Rightarrow> bytes" where
  "gob_enc (VUint n) = gob_uint n"
| "gob_enc (VInt i) = gob_int i"
| "gob_enc (VBytes b) = gob_uint (length b) @ b"
| "gob_enc (VSlice vs) = gob_uint (length vs) @ concat (map gob_enc vs)"
| "gob_enc (VStruct vs) = gob_fields 1 (map (\<lambda>v. if is_zero v then None else Some (gob_enc v)) vs)"

fun zero_of :: "gtype \<Rightarrow> gval" where
  "zero_of TUint = VUint 0"
| "zero_of TInt = VInt 0"
| "zero_of TBytes = VBytes []"
| "zero_of (TSlice t) = VSlice []"
| "zero_of (TStruct ts) = VStruct (map zero_of ts)"

fun dec_n :: "(bytes \<Rightarrow> ('v \<times> bytes) option) \<Rightarrow> nat \<Rightarrow> bytes \<Rightarrow> ('v list \<times> bytes) option" where
  "dec_n d 0 bs = Some ([], bs)"
| "dec_n d (Suc n) bs =
     (case d bs of
        None \<Rightarrow> None
      | Some (v, r) \<Rightarrow> (case dec_n d n r of None \<Rightarrow> None | Some (vs, r1) \<Rightarrow> Some (v # vs, r1)))"

text \<open>
  The decoder.  In \<open>dec_fields\<close> the option is \<open>None\<close> when the next increment has to be read, and
  otherwise the number of fields to skip before the one that is present.
\<close>

function (sequential) gob_dec :: "gtype \<Rightarrow> bytes \<Rightarrow> (gval \<times> bytes) option"
  and dec_fields :: "gtype list \<Rightarrow> nat option \<Rightarrow> bytes \<Rightarrow> (gval list \<times> bytes) option" where
  "gob_dec TUint bs = map_option (\<lambda>(n, r). (VUint n, r)) (gob_dec_uint bs)"
| "gob_dec TInt bs = map_option (\<lambda>(i, r). (VInt i, r)) (gob_dec_int bs)"
| "gob_dec TBytes bs = map_option (\<lambda>(b, r). (VBytes b, r)) (gob_dec_bytes bs)"
| "gob_dec (TSlice t) bs =
     (case gob_dec_uint bs of
        None \<Rightarrow> None
      | Some (n, r) \<Rightarrow> map_option (\<lambda>(vs, r1). (VSlice vs, r1)) (dec_n (gob_dec t) n r))"
| "gob_dec (TStruct ts) bs = map_option (\<lambda>(vs, r). (VStruct vs, r)) (dec_fields ts None bs)"
| "dec_fields [] None bs =
     (case gob_dec_uint bs of Some (0, r) \<Rightarrow> Some ([], r) | _ \<Rightarrow> None)"
| "dec_fields [] (Some k) bs = None"
| "dec_fields (t # ts) None bs =
     (case gob_dec_uint bs of
        None \<Rightarrow> None
      | Some (0, r) \<Rightarrow> Some (map zero_of (t # ts), r)
      | Some (Suc k, r) \<Rightarrow> dec_fields (t # ts) (Some k) r)"
| "dec_fields (t # ts) (Some 0) bs =
     (case gob_dec t bs of
        None \<Rightarrow> None
      | Some (v, r) \<Rightarrow> map_option (\<lambda>(vs, r1). (v # vs, r1)) (dec_fields ts None r))"
| "dec_fields (t # ts) (Some (Suc k)) bs =
     map_option (\<lambda>(vs, r1). (zero_of t # vs, r1)) (dec_fields ts (Some k) bs)"
  by pat_completeness auto
termination
  by (relation "measures [\<lambda>x. case x of Inl (t, _) \<Rightarrow> size t | Inr (ts, _, _) \<Rightarrow> size_list size ts,
      \<lambda>x. case x of Inr (_, None, _) \<Rightarrow> 1 | _ \<Rightarrow> 0]") auto

text \<open>The values of a type.\<close>

fun has_type :: "gtype \<Rightarrow> gval \<Rightarrow> bool" where
  "has_type TUint (VUint n) \<longleftrightarrow> n < 2 ^ 64"
| "has_type TInt (VInt i) \<longleftrightarrow> - (2 ^ 63) \<le> i \<and> i < 2 ^ 63"
| "has_type TBytes (VBytes b) \<longleftrightarrow> length b < 2 ^ 64"
| "has_type (TSlice t) (VSlice vs) \<longleftrightarrow> length vs < 2 ^ 64 \<and> (\<forall>v \<in> set vs. has_type t v)"
| "has_type (TStruct ts) (VStruct vs) \<longleftrightarrow> list_all2 has_type ts vs \<and> length ts < 2 ^ 63"
| "has_type _ _ \<longleftrightarrow> False"

lemma has_type_zero: "has_type t v \<Longrightarrow> is_zero v \<Longrightarrow> v = zero_of t"
  by (cases t; cases v) auto

lemma dec_n_enc:
  assumes "\<forall>v \<in> set vs. \<forall>rest. d (gob_enc v @ rest) = Some (v, rest)"
  shows "dec_n d (length vs) (concat (map gob_enc vs) @ rest) = Some (vs, rest)"
  using assms by (induction vs) auto

lemma dec_fields_enc:
  assumes "list_all2 has_type ts vs" and "length ts + d < 2 ^ 64"
    and "\<forall>t \<in> set ts. \<forall>v rest. has_type t v \<longrightarrow> gob_dec t (gob_enc v @ rest) = Some (v, rest)"
  shows "dec_fields ts None (gob_fields (Suc 0) (map (\<lambda>v. if is_zero v then None else Some (gob_enc v)) vs) @ rest) =
      Some (vs, rest)
    \<and> (\<exists>n r. gob_dec_uint (gob_fields (Suc d) (map (\<lambda>v. if is_zero v then None else Some (gob_enc v)) vs) @ rest) = Some (n, r)
      \<and> (n = 0 \<longrightarrow> vs = map zero_of ts \<and> r = rest)
      \<and> (n \<noteq> 0 \<longrightarrow> d < n \<and> dec_fields ts (Some (n - Suc d)) r = Some (vs, rest)))"
  using assms
proof (induction ts vs arbitrary: d rule: list_all2_induct)
  case Nil
  show ?case by simp
next
  case (Cons t ts v vs)
  let ?enc = "map (\<lambda>v. if is_zero v then None else Some (gob_enc v))"
  have IHt: "\<forall>t \<in> set ts. \<forall>v rest. has_type t v \<longrightarrow> gob_dec t (gob_enc v @ rest) = Some (v, rest)"
    using Cons.prems(2) by auto
  have tv: "gob_dec t (gob_enc v @ r) = Some (v, r)" for r using Cons.prems(2) Cons.hyps(1) by auto
  have step: "\<exists>n r. gob_dec_uint (gob_fields (Suc d) (?enc (v # vs)) @ rest) = Some (n, r)
      \<and> (n = 0 \<longrightarrow> v # vs = map zero_of (t # ts) \<and> r = rest)
      \<and> (n \<noteq> 0 \<longrightarrow> d < n \<and> dec_fields (t # ts) (Some (n - Suc d)) r = Some (v # vs, rest))"
    if small: "length (t # ts) + d < 2 ^ 64" for d
  proof (cases "is_zero v")
    case True
    from Cons.IH [of "Suc d"] small IHt obtain n r where
      n: "gob_dec_uint (gob_fields (Suc (Suc d)) (?enc vs) @ rest) = Some (n, r)"
      "n = 0 \<longrightarrow> vs = map zero_of ts \<and> r = rest"
      "n \<noteq> 0 \<longrightarrow> Suc d < n \<and> dec_fields ts (Some (n - Suc (Suc d))) r = Some (vs, rest)" by auto
    have "n \<noteq> 0 \<longrightarrow> n - Suc d = Suc (n - Suc (Suc d))" using n(3) by auto
    with n True has_type_zero [OF Cons.hyps(1) True] show ?thesis by auto
  next
    case False
    have "dec_fields ts None (gob_fields (Suc 0) (?enc vs) @ rest) = Some (vs, rest)"
      using Cons.IH [of 0] small IHt by simp
    with False tv small show ?thesis by simp
  qed
  obtain n r where n: "gob_dec_uint (gob_fields (Suc 0) (?enc (v # vs)) @ rest) = Some (n, r)"
    "n = 0 \<longrightarrow> v # vs = map zero_of (t # ts) \<and> r = rest"
    "n \<noteq> 0 \<longrightarrow> dec_fields (t # ts) (Some (n - Suc 0)) r = Some (v # vs, rest)"
    using step [of 0] Cons.prems(1) by auto
  then have "dec_fields (t # ts) None (gob_fields (Suc 0) (?enc (v # vs)) @ rest) = Some (v # vs, rest)"
    by (cases n) auto
  with step [OF Cons.prems(1)] show ?case by blast
qed

text \<open>Decoding what was encoded, whatever follows.\<close>

lemma gob_dec_enc: "has_type t v \<Longrightarrow> gob_dec t (gob_enc v @ rest) = Some (v, rest)"
proof (induction t arbitrary: v rest)
  case (TSlice t)
  then obtain vs where v: "v = VSlice vs" "length vs < 2 ^ 64" "\<forall>v \<in> set vs. has_type t v" by (cases v) auto
  with dec_n_enc [of vs "gob_dec t" rest] TSlice.IH show ?case by simp
next
  case (TStruct ts)
  then obtain vs where v: "v = VStruct vs" "list_all2 has_type ts vs" "length ts < 2 ^ 63" by (cases v) auto
  then have "length ts + 0 < 2 ^ 64" by simp
  with dec_fields_enc [OF v(2) this, of rest] TStruct.IH v show ?case by auto
qed (auto elim!: has_type.elims(2))

section \<open>Streams\<close>

text \<open>
  A definition names a type, its number, and the numbers of its parts.  \<^verbatim>\<open>wireType\<close> is a struct with one
  field for each sort of type, of which one is set; all others are nil and left out.
\<close>

datatype wire_type =
    SliceT bytes int int
  | StructT bytes int "(bytes \<times> int) list"
  | GobEncoderT bytes int

fun wire_id :: "wire_type \<Rightarrow> int" where
  "wire_id (SliceT name i elem) = i"
| "wire_id (StructT name i fields) = i"
| "wire_id (GobEncoderT name i) = i"

definition common_type :: "bytes \<Rightarrow> int \<Rightarrow> gval" where
  "common_type name i = VStruct [VBytes name, VInt i]"

fun wire_bytes :: "wire_type \<Rightarrow> bytes" where
  "wire_bytes (SliceT name i elem) =
     gob_fields 1 [None, Some (gob_enc (VStruct [common_type name i, VInt elem]))]"
| "wire_bytes (StructT name i fields) =
     gob_fields 1 [None, None, Some (gob_enc (VStruct [common_type name i,
       VSlice (map (\<lambda>(n, t). VStruct [VBytes n, VInt t]) fields)]))]"
| "wire_bytes (GobEncoderT name i) =
     gob_fields 1 [None, None, None, None, Some (gob_enc (VStruct [common_type name i]))]"

text \<open>The messages of one \<^verbatim>\<open>Encode\<close>, and the limit on their length on a 64-bit machine.\<close>

definition tooBig :: nat where
  "tooBig = 2 ^ 33"

definition value_body :: "gval \<Rightarrow> bytes" where
  "value_body v = (case v of VStruct vs \<Rightarrow> gob_enc v | _ \<Rightarrow> gob_uint 0 @ gob_enc v)"

definition gob_messages :: "wire_type list \<Rightarrow> gval \<Rightarrow> bytes list" where
  "gob_messages defs v =
     map (\<lambda>d. gob_int (- wire_id d) @ wire_bytes d) defs @ [gob_int (wire_id (hd defs)) @ value_body v]"

definition gob_message :: "bytes \<Rightarrow> bytes" where
  "gob_message m = gob_uint (length m) @ m"

definition gob_Encode :: "wire_type list \<Rightarrow> gval \<Rightarrow> bytes option" where
  "gob_Encode defs v =
     (let ms = gob_messages defs v in
      if list_all (\<lambda>m. length m < tooBig) ms then Some (concat (map gob_message ms)) else None)"

lemma gob_dec_bytes_shrinks: "gob_dec_bytes bs = Some (m, r) \<Longrightarrow> length r < length bs"
  using gob_dec_uint_shrinks by (fastforce simp: gob_dec_bytes_def split: option.splits if_splits)

definition dec_body :: "gtype \<Rightarrow> bytes \<Rightarrow> gval option" where
  "dec_body t body =
     (case t of
        TStruct ts \<Rightarrow> map_option fst (gob_dec t body)
      | _ \<Rightarrow> (case gob_dec_uint body of
               Some (0, r) \<Rightarrow> map_option fst (gob_dec t r)
             | _ \<Rightarrow> None))"

function gob_Decode :: "gtype \<Rightarrow> int list \<Rightarrow> bytes \<Rightarrow> gval option" where
  "gob_Decode t known bs =
     (case gob_dec_bytes bs of
        None \<Rightarrow> None
      | Some (m, rest) \<Rightarrow>
          if tooBig \<le> length m then None
          else (case gob_dec_int m of
             None \<Rightarrow> None
           | Some (i, body) \<Rightarrow>
               if i < 0 then if - i \<in> set known then None else gob_Decode t (- i # known) rest
               else if i \<in> set known then dec_body t body else None))"
  by pat_completeness auto
termination
  by (relation "measure (\<lambda>(t, known, bs). length bs)") (auto dest: gob_dec_bytes_shrinks)

declare gob_Decode.simps [simp del]

text \<open>The numbers of a process: positive, distinct, and in the range of the \<^verbatim>\<open>int32\<close> that holds them.\<close>

definition good_ids :: "wire_type list \<Rightarrow> bool" where
  "good_ids defs \<longleftrightarrow> defs \<noteq> [] \<and> distinct (map wire_id defs) \<and> (\<forall>d \<in> set defs. 0 < wire_id d \<and> wire_id d < 2 ^ 31)"

lemma gob_dec_message [simp]:
  "length m < tooBig \<Longrightarrow> gob_dec_bytes (gob_message m @ rest) = Some (m, rest)"
  by (simp add: gob_message_def tooBig_def)

lemma dec_body_value:
  assumes "has_type t v"
  shows "dec_body t (value_body v) = Some v"
proof -
  have "gob_dec t (gob_enc v) = Some (v, [])" using gob_dec_enc [OF assms, of "[]"] by simp
  with assms show ?thesis by (cases t; cases v) (auto simp: dec_body_def value_body_def)
qed

lemma gob_Decode_defs:
  assumes "\<forall>d \<in> set defs. 0 < wire_id d \<and> wire_id d < 2 ^ 31 \<and> length (gob_int (- wire_id d) @ wire_bytes d) < tooBig"
    and "distinct (map wire_id defs)" and "set known \<inter> wire_id ` set defs = {}"
  shows "gob_Decode t known (concat (map (\<lambda>d. gob_message (gob_int (- wire_id d) @ wire_bytes d)) defs) @ rest) =
    gob_Decode t (rev (map wire_id defs) @ known) rest"
  using assms
proof (induction defs arbitrary: known)
  case (Cons d defs)
  let ?m = "gob_int (- wire_id d) @ wire_bytes d"
  have "gob_dec_int ?m = Some (- wire_id d, wire_bytes d)" using Cons.prems(1) by simp
  moreover have "length ?m < tooBig" "0 < wire_id d" "wire_id d \<notin> set known" using Cons.prems by auto
  ultimately have "gob_Decode t known (gob_message ?m @ r) = gob_Decode t (wire_id d # known) r" for r
    by (subst gob_Decode.simps) (simp del: length_append)
  with Cons show ?case by simp
qed simp

lemma gob_Decode_Encode:
  assumes enc: "gob_Encode defs v = Some bs" and ids: "good_ids defs" and t: "has_type t v"
  shows "gob_Decode t [] bs = Some v"
proof -
  let ?m = "gob_int (wire_id (hd defs)) @ value_body v"
  from enc have bs: "bs = concat (map (\<lambda>d. gob_message (gob_int (- wire_id d) @ wire_bytes d)) defs) @ gob_message ?m"
    and small: "\<forall>d \<in> set defs. length (gob_int (- wire_id d) @ wire_bytes d) < tooBig" "length ?m < tooBig"
    by (auto simp: gob_Encode_def gob_messages_def Let_def list_all_iff comp_def split: if_splits)
  have hd: "hd defs \<in> set defs" "0 < wire_id (hd defs)" "wire_id (hd defs) < 2 ^ 31" using ids by (auto simp: good_ids_def)
  have "gob_Decode t [] bs = gob_Decode t (rev (map wire_id defs)) (gob_message ?m)"
    using gob_Decode_defs [of defs "[]" t "gob_message ?m"] ids small by (simp add: bs good_ids_def)
  also have "\<dots> = dec_body t (value_body v)"
    using hd small(2) gob_dec_message [of ?m "[]"]
    by (subst gob_Decode.simps) (simp del: length_append)
  finally show ?thesis using dec_body_value [OF t] by simp
qed

section \<open>Sizes\<close>

text \<open>A value takes at most nine bytes more for every number, so that small values are never too big.\<close>

lemma length_gob_uint: "n < 2 ^ 64 \<Longrightarrow> length (gob_uint n) \<le> 9"
  using length_be_bytes [of n 8] by (simp add: gob_uint_def Let_def)

lemma length_gob_int: "- (2 ^ 63) \<le> i \<Longrightarrow> i < 2 ^ 63 \<Longrightarrow> length (gob_int i) \<le> 9"
  unfolding gob_int_def by (rule length_gob_uint) (auto simp: nat_less_iff)

lemma length_gob_fields:
  "d + length fs < 2 ^ 64 \<Longrightarrow>
    length (gob_fields d fs) \<le> 9 * Suc (length fs) + (\<Sum>f \<leftarrow> fs. case f of None \<Rightarrow> 0 | Some v \<Rightarrow> length v)"
proof (induction d fs rule: gob_fields.induct)
  case (1 d)
  then show ?case by (simp add: gob_uint_def)
next
  case (3 d v fs)
  then show ?case using length_gob_uint [of d] by simp
qed simp

fun gob_size :: "gval \<Rightarrow> nat" where
  "gob_size (VUint n) = 9"
| "gob_size (VInt i) = 9"
| "gob_size (VBytes b) = 9 + length b"
| "gob_size (VSlice vs) = 9 + (\<Sum>v \<leftarrow> vs. gob_size v)"
| "gob_size (VStruct vs) = 9 * Suc (length vs) + (\<Sum>v \<leftarrow> vs. gob_size v)"

lemma length_gob_enc: "has_type t v \<Longrightarrow> length (gob_enc v) \<le> gob_size v"
proof (induction t v rule: has_type.induct)
  case (4 t vs)
  have "length (concat (map gob_enc vs)) \<le> (\<Sum>v \<leftarrow> vs. gob_size v)"
    unfolding length_concat map_map by (rule sum_list_mono) (use 4 in simp)
  with 4 length_gob_uint [of "length vs"] show ?case by simp
next
  case (5 ts vs)
  let ?f = "\<lambda>v. if is_zero v then None else Some (gob_enc v)"
  have len: "length vs < 2 ^ 63" using 5 list_all2_lengthD by fastforce
  have "\<exists>t \<in> set ts. has_type t v" if "v \<in> set vs" for v
    using 5 that by (auto simp: list_all2_conv_all_nth in_set_conv_nth) (metis nth_mem)
  with "5.IH" "5.prems" have "length (gob_enc v) \<le> gob_size v" if "v \<in> set vs" for v using that by blast
  then have "(\<Sum>f \<leftarrow> map ?f vs. case f of None \<Rightarrow> 0 | Some v \<Rightarrow> length v) \<le> (\<Sum>v \<leftarrow> vs. gob_size v)"
    by (auto simp: comp_def intro: sum_list_mono)
  with length_gob_fields [of 1 "map ?f vs"] len show ?case by simp
qed (use length_gob_uint length_gob_int in auto)

lemma gob_Encode_small:
  assumes "good_ids defs" and "\<forall>d \<in> set defs. length (wire_bytes d) < 2 ^ 32" and "has_type t v" and "gob_size v < 2 ^ 32"
  shows "\<exists>bs. gob_Encode defs v = Some bs"
proof -
  have int: "length (gob_int (- wire_id d)) \<le> 9" "length (gob_int (wire_id d)) \<le> 9" if "d \<in> set defs" for d
    using assms(1) that by (auto simp: good_ids_def intro!: length_gob_int dest!: bspec [of _ _ d])
  have "length (value_body v) \<le> Suc (gob_size v)"
    using length_gob_enc [OF assms(3)] by (cases v) (simp_all add: value_body_def gob_uint_def)
  moreover have "length (gob_int (wire_id (hd defs))) \<le> 9" using assms(1) int by (simp add: good_ids_def)
  ultimately have "length (gob_int (wire_id (hd defs)) @ value_body v) < tooBig"
    using assms(4) by (simp add: tooBig_def)
  moreover have "length (gob_int (- wire_id d) @ wire_bytes d) < tooBig" if "d \<in> set defs" for d
    using int(1) [OF that] assms(2) that by (fastforce simp: tooBig_def)
  ultimately show ?thesis by (simp add: gob_Encode_def gob_messages_def Let_def list_all_iff)
qed

text \<open>Definitions with names of ordinary length are small.\<close>

fun wire_size :: "wire_type \<Rightarrow> nat" where
  "wire_size (SliceT name i elem) = 135 + length name"
| "wire_size (StructT name i fields) = 144 + length name + (\<Sum>(n, t) \<leftarrow> fields. 45 + length n)"
| "wire_size (GobEncoderT name i) = 135 + length name"

fun wire_okay :: "wire_type \<Rightarrow> bool" where
  "wire_okay (SliceT name i elem) \<longleftrightarrow> length name < 2 ^ 64 \<and> 0 < i \<and> i < 2 ^ 31 \<and> 0 < elem \<and> elem < 2 ^ 31"
| "wire_okay (StructT name i fields) \<longleftrightarrow> length name < 2 ^ 64 \<and> 0 < i \<and> i < 2 ^ 31 \<and> length fields < 2 ^ 64
     \<and> (\<forall>(n, t) \<in> set fields. length n < 2 ^ 64 \<and> 0 < t \<and> t < 2 ^ 31)"
| "wire_okay (GobEncoderT name i) \<longleftrightarrow> length name < 2 ^ 64 \<and> 0 < i \<and> i < 2 ^ 31"

definition wire_body :: "wire_type \<Rightarrow> gval" where
  "wire_body d =
     (case d of
        SliceT name i elem \<Rightarrow> VStruct [common_type name i, VInt elem]
      | StructT name i fields \<Rightarrow> VStruct [common_type name i, VSlice (map (\<lambda>(n, t). VStruct [VBytes n, VInt t]) fields)]
      | GobEncoderT name i \<Rightarrow> VStruct [common_type name i])"

definition common_gtype :: gtype where
  "common_gtype = TStruct [TBytes, TInt]"

lemma wire_body_type:
  "wire_okay d \<Longrightarrow> \<exists>t. has_type t (wire_body d)"
proof (cases d)
  case (SliceT name i elem)
  assume "wire_okay d"
  with SliceT have "has_type (TStruct [common_gtype, TInt]) (wire_body d)"
    by (simp add: wire_body_def common_type_def common_gtype_def)
  then show ?thesis ..
next
  case (StructT name i fields)
  assume "wire_okay d"
  with StructT have "has_type (TStruct [common_gtype, TSlice (TStruct [TBytes, TInt])]) (wire_body d)"
    by (force simp: wire_body_def common_type_def common_gtype_def)
  then show ?thesis ..
next
  case (GobEncoderT name i)
  assume "wire_okay d"
  with GobEncoderT have "has_type (TStruct [common_gtype]) (wire_body d)"
    by (simp add: wire_body_def common_type_def common_gtype_def)
  then show ?thesis ..
qed

lemma length_wire_bytes:
  assumes "wire_okay d"
  shows "length (wire_bytes d) \<le> wire_size d"
proof -
  from wire_body_type [OF assms] obtain t where "has_type t (wire_body d)" ..
  note body = length_gob_enc [OF this]
  show ?thesis
  proof (cases d)
    case (SliceT name i elem)
    with body show ?thesis by (simp add: wire_body_def common_type_def gob_uint_def)
  next
    case (StructT name i fields)
    have "(\<Sum>v \<leftarrow> map (\<lambda>(n, t). VStruct [VBytes n, VInt t]) fields. gob_size v) = (\<Sum>(n, t) \<leftarrow> fields. 45 + length n)"
      by (simp add: comp_def split_def)
    with StructT body show ?thesis by (simp add: wire_body_def common_type_def gob_uint_def)
  next
    case (GobEncoderT name i)
    with body show ?thesis by (simp add: wire_body_def common_type_def gob_uint_def)
  qed
qed

end
