(* ===== verification/SnapshotGob.thy ===== *)
theory SnapshotGob
  imports EngineSpec GoGob
begin

text \<open>
  Lists of \<^verbatim>\<open>engine.SnapshotEntry\<close> as gob values: what raft snapshots, raft commands and backup files
  are made of.
\<close>

text \<open>
  The numbers that one process has given to the types it encodes, and the name it has recorded
  for the slice type, which is empty if the process met the slice on its own before it met it as
  a field of a struct.
\<close>

record gob_registry =
  id_Command :: int
  id_payload :: int
  id_Meta :: int
  id_Time :: int
  id_Entries :: int
  id_SnapshotEntry :: int
  name_Entries :: bytes

text \<open>The numbers of the built-in types.\<close>

definition gob_tInt :: int where "gob_tInt = 2"
definition gob_tUint :: int where "gob_tUint = 3"
definition gob_tBytes :: int where "gob_tBytes = 5"
definition gob_tString :: int where "gob_tString = 6"

definition entries_defs :: "gob_registry \<Rightarrow> wire_type list" where
  "entries_defs reg =
     [SliceT (name_Entries reg) (id_Entries reg) (id_SnapshotEntry reg),
      StructT (lit ''SnapshotEntry'') (id_SnapshotEntry reg)
        [(lit ''Key'', gob_tBytes), (lit ''Value'', gob_tBytes), (lit ''ExpiresAtUnixNano'', gob_tInt)]]"

definition entry_type :: gtype where
  "entry_type = TStruct [TBytes, TBytes, TInt]"

definition entry_gval :: "SnapshotEntry \<Rightarrow> gval" where
  "entry_gval e = VStruct [VBytes (snap_Key e), VBytes (snap_Value e), VInt (sint (snap_ExpiresAtUnixNano e))]"

fun gval_entry :: "gval \<Rightarrow> SnapshotEntry option" where
  "gval_entry (VStruct [VBytes k, VBytes v, VInt i]) =
     Some \<lparr>snap_Key = k, snap_Value = v, snap_ExpiresAtUnixNano = of_int i\<rparr>"
| "gval_entry _ = None"

definition entries_gval :: "SnapshotEntry list \<Rightarrow> gval" where
  "entries_gval es = VSlice (map entry_gval es)"

fun gval_entries :: "gval \<Rightarrow> SnapshotEntry list option" where
  "gval_entries (VSlice vs) = those (map gval_entry vs)"
| "gval_entries _ = None"

text \<open>\<^verbatim>\<open>gob.NewEncoder(&buf).Encode(entries)\<close> and \<^verbatim>\<open>gob.NewDecoder(r).Decode(&entries)\<close>.\<close>

definition encode_entries :: "gob_registry \<Rightarrow> SnapshotEntry list \<Rightarrow> bytes option" where
  "encode_entries reg es = gob_Encode (entries_defs reg) (entries_gval es)"

definition decode_entries :: "bytes \<Rightarrow> SnapshotEntry list option" where
  "decode_entries bs = Option.bind (gob_Decode (TSlice entry_type) [] bs) gval_entries"

text \<open>Go slices have fewer than 2 to the 63 elements.\<close>

definition entry_ok :: "SnapshotEntry \<Rightarrow> bool" where
  "entry_ok e \<longleftrightarrow> length (snap_Key e) < 2 ^ 63 \<and> length (snap_Value e) < 2 ^ 63"

definition entries_ok :: "SnapshotEntry list \<Rightarrow> bool" where
  "entries_ok es \<longleftrightarrow> length es < 2 ^ 63 \<and> list_all entry_ok es"

definition registry_ok :: "gob_registry \<Rightarrow> bool" where
  "registry_ok reg \<longleftrightarrow>
     distinct [id_Command reg, id_payload reg, id_Meta reg, id_Time reg, id_Entries reg, id_SnapshotEntry reg]
     \<and> (\<forall>i \<in> set [id_Command reg, id_payload reg, id_Meta reg, id_Time reg, id_Entries reg, id_SnapshotEntry reg].
          0 < i \<and> i < 2 ^ 31)
     \<and> length (name_Entries reg) < 2 ^ 16"

lemma sint_bounds_64: "- (2 ^ 63) \<le> sint (w :: i64)" "sint (w :: i64) < 2 ^ 63"
  using sint_ge [of w] sint_lt [of w] by simp_all

lemma gval_entry_gval [simp]: "gval_entry (entry_gval e) = Some e"
  by (simp add: entry_gval_def)

lemma entry_gval_type: "entry_ok e \<Longrightarrow> has_type entry_type (entry_gval e)"
  using sint_bounds_64 by (simp add: entry_ok_def entry_type_def entry_gval_def)

lemma those_map_Some [simp]: "those (map (\<lambda>x. Some (f x)) xs) = Some (map f xs)"
  by (induction xs) simp_all

lemma gval_entries_gval [simp]: "gval_entries (entries_gval es) = Some es"
  by (simp add: entries_gval_def comp_def)

lemma entries_gval_type: "entries_ok es \<Longrightarrow> has_type (TSlice entry_type) (entries_gval es)"
  using entry_gval_type by (auto simp: entries_ok_def entries_gval_def list_all_iff)

lemma entries_defs_ids: "registry_ok reg \<Longrightarrow> good_ids (entries_defs reg)"
  by (simp add: registry_ok_def good_ids_def entries_defs_def)

lemma decode_encode_entries:
  assumes "registry_ok reg" and "entries_ok es" and "encode_entries reg es = Some bs"
  shows "decode_entries bs = Some es"
  using gob_Decode_Encode [OF _ entries_defs_ids entries_gval_type] assms
  by (simp add: encode_entries_def decode_entries_def)

text \<open>The encoding succeeds unless there is too much data.\<close>

definition entries_size :: "SnapshotEntry list \<Rightarrow> nat" where
  "entries_size es = (\<Sum>e \<leftarrow> es. 63 + length (snap_Key e) + length (snap_Value e))"

lemma gob_size_entries [simp]: "gob_size (entries_gval es) = 9 + entries_size es"
  by (induction es) (simp_all add: entries_gval_def entries_size_def entry_gval_def)

lemma entries_defs_small: "registry_ok reg \<Longrightarrow> d \<in> set (entries_defs reg) \<Longrightarrow> length (wire_bytes d) < 2 ^ 32"
  by (rule le_less_trans [OF length_wire_bytes])
    (auto simp: registry_ok_def entries_defs_def gob_tBytes_def gob_tInt_def lit_def)

lemma entries_size_ok: "entries_size es < 2 ^ 32 \<Longrightarrow> entries_ok es"
proof -
  have "63 * length es \<le> entries_size es \<and> (\<forall>e \<in> set es. length (snap_Key e) + length (snap_Value e) \<le> entries_size es)"
    by (induction es) (auto simp: entries_size_def)
  moreover assume "entries_size es < 2 ^ 32"
  ultimately show ?thesis by (fastforce simp: entries_ok_def entry_ok_def list_all_iff)
qed

lemma encode_entries_succeeds:
  assumes "registry_ok reg" and "entries_size es < 2 ^ 32 - 9"
  shows "\<exists>bs. encode_entries reg es = Some bs"
  unfolding encode_entries_def
  using gob_Encode_small [OF entries_defs_ids _ entries_gval_type [OF entries_size_ok], of reg es]
    entries_defs_small [OF assms(1)] assms by simp

text \<open>The entries of one process decode in every other process, but the bytes differ.\<close>

interpretation entries_codec: codec "\<lambda>es. the (encode_entries reg es)" decode_entries
    "\<lambda>es. registry_ok reg \<and> entries_ok es \<and> encode_entries reg es \<noteq> None"
  by unfold_locales (auto intro: decode_encode_entries)

end
