(* ===== verification/Refinement.thy ===== *)
theory Refinement
  imports Prelude
begin

text \<open>
  Sequences of calls that may panic, sequences of specification steps, and the interface under which
  a component refines its specification: then every sequence of calls returns, and gives
  the answers of the specification.
\<close>

fun run_go :: "('i \<Rightarrow> 's \<Rightarrow> ('o \<times> 's) go) \<Rightarrow> 'i list \<Rightarrow> 's \<Rightarrow> ('o list \<times> 's) go" where
  "run_go step [] s = Ret ([], s)"
| "run_go step (i # is) s =
     go_bind (step i s) (\<lambda>(r, s1). go_bind (run_go step is s1) (\<lambda>(rs, s2). Ret (r # rs, s2)))"

fun run_spec :: "('i \<Rightarrow> 'a \<Rightarrow> 'o \<times> 'a) \<Rightarrow> 'i list \<Rightarrow> 'a \<Rightarrow> 'o list \<times> 'a" where
  "run_spec step [] a = ([], a)"
| "run_spec step (i # is) a =
     (case step i a of (r, a1) \<Rightarrow> (case run_spec step is a1 of (rs, a2) \<Rightarrow> (r # rs, a2)))"

lemma go_bind_eq_Ret: "go_bind m k = Ret y \<longleftrightarrow> (\<exists>x. m = Ret x \<and> k x = Ret y)"
  by (cases m) auto

lemma go_bind_RetE: "go_bind m k = Ret y \<Longrightarrow> (\<And>x. m = Ret x \<Longrightarrow> k x = Ret y \<Longrightarrow> P) \<Longrightarrow> P"
  by (auto simp: go_bind_eq_Ret)

lemma run_go_append:
  "run_go step (is @ js) s =
     go_bind (run_go step is s) (\<lambda>(rs, s1). go_bind (run_go step js s1) (\<lambda>(rs2, s2). Ret (rs @ rs2, s2)))"
proof (induction "is" arbitrary: s)
  case Nil
  show ?case by (cases "run_go step js s") auto
next
  case (Cons i "is")
  show ?case
  proof (cases "step i s")
    case (Ret x)
    obtain r s1 where x: "x = (r, s1)" by (cases x)
    show ?thesis
    proof (cases "run_go step is s1")
      case R: (Ret y)
      obtain rs s2 where "y = (rs, s2)" by (cases y)
      with Ret x R Cons show ?thesis by (cases "run_go step js s2") (auto split: prod.splits)
    qed (use Ret x Cons in simp)
  qed simp
qed

lemma run_spec_append:
  "run_spec step (is @ js) a = (case run_spec step is a of (rs, a1) \<Rightarrow> apfst ((@) rs) (run_spec step js a1))"
proof (induction "is" arbitrary: a)
  case Nil
  show ?case by (cases "run_spec step js a") simp
next
  case (Cons i "is")
  obtain r a1 where 1: "step i a = (r, a1)" by force
  obtain rs a2 where 2: "run_spec step is a1 = (rs, a2)" by force
  obtain ss a3 where 3: "run_spec step js a2 = (ss, a3)" by force
  from Cons [of a1] 1 2 3 show ?case by simp
qed

lemma length_run_spec [simp]: "length (fst (run_spec step is a)) = length is"
  by (induction "is" arbitrary: a) (auto split: prod.split, metis fst_conv)

locale refinement =
  fixes conc :: "'i \<Rightarrow> 's \<Rightarrow> ('o \<times> 's) go"
    and spec :: "'i \<Rightarrow> 'a \<Rightarrow> 'o \<times> 'a"
    and rel :: "'s \<Rightarrow> 'a \<Rightarrow> bool"
    and okay :: "'i \<Rightarrow> bool"
  assumes step: "rel s a \<Longrightarrow> okay i \<Longrightarrow> \<exists>s1. conc i s = Ret (fst (spec i a), s1) \<and> rel s1 (snd (spec i a))"
begin

lemma run:
  assumes "rel s a" and "\<forall>i \<in> set is. okay i"
  shows "\<exists>s1. run_go conc is s = Ret (fst (run_spec spec is a), s1) \<and> rel s1 (snd (run_spec spec is a))"
  using assms
proof (induction "is" arbitrary: s a)
  case (Cons i "is")
  obtain r a1 where sp: "spec i a = (r, a1)" by (cases "spec i a")
  from step [OF Cons.prems(1), of i] Cons.prems(2) sp obtain s1 where s1: "conc i s = Ret (r, s1)" "rel s1 a1" by auto
  from Cons.IH [OF s1(2)] Cons.prems(2) obtain s2 where
    "run_go conc is s1 = Ret (fst (run_spec spec is a1), s2)" "rel s2 (snd (run_spec spec is a1))" by auto
  with s1 sp show ?case by (auto split: prod.splits)
qed simp

text \<open>Two implementations that refine the same specification step give the same answers.\<close>

lemma agree:
  assumes "rel s a" and "rel t a" and "\<forall>i \<in> set is. okay i"
  shows "\<exists>rs s1 t1 a1. run_go conc is s = Ret (rs, s1) \<and> run_go conc is t = Ret (rs, t1) \<and> rel s1 a1 \<and> rel t1 a1"
  using run [OF assms(1,3)] run [OF assms(2,3)] by blast

end

end
