(* ===== verification/Fsm.thy ===== *)
theory Fsm
  imports SnapshotGob Refinement
begin

text \<open>
  The replicated state machine: the commands of \<^verbatim>\<open>internal/replication/command.go\<close> and the adapter
  from raft to the engine of \<^verbatim>\<open>internal/replication/fsm.go\<close>.  The raft library itself is not part of
  the program: what it hands to the state machine is an argument here.  A specification on the
  list of committed records says what every replica computes.
\<close>

section \<open>Commands\<close>

type_synonym Op = byte

definition OpPut :: Op where "OpPut = 1"
definition OpDelete :: Op where "OpDelete = 2"
definition OpCompareAndSet :: Op where "OpCompareAndSet = 3"
definition OpWipeAll :: Op where "OpWipeAll = 4"
definition OpLoadSnapshot :: Op where "OpLoadSnapshot = 5"

lemmas Op_defs = OpPut_def OpDelete_def OpCompareAndSet_def OpWipeAll_def OpLoadSnapshot_def

record Command =
  cmd_Op :: Op
  cmd_Key :: bytes
  cmd_Value :: bytes
  cmd_ExpiresAtUnixNano :: i64
  cmd_ExpectedVersion :: u64
  cmd_IdempotencyKey :: bytes
  cmd_Entries :: "SnapshotEntry list"

definition command_defs :: "gob_registry \<Rightarrow> wire_type list" where
  "command_defs reg =
     StructT (lit ''Command'') (id_Command reg)
       [(lit ''Op'', gob_tUint), (lit ''Key'', gob_tBytes), (lit ''Value'', gob_tBytes),
        (lit ''ExpiresAtUnixNano'', gob_tInt), (lit ''ExpectedVersion'', gob_tUint),
        (lit ''IdempotencyKey'', gob_tString), (lit ''Entries'', id_Entries reg)]
     # entries_defs reg"

definition command_type :: gtype where
  "command_type = TStruct [TUint, TBytes, TBytes, TInt, TUint, TBytes, TSlice entry_type]"

definition command_gval :: "Command \<Rightarrow> gval" where
  "command_gval cmd =
     VStruct [VUint (unat (cmd_Op cmd)), VBytes (cmd_Key cmd), VBytes (cmd_Value cmd),
              VInt (sint (cmd_ExpiresAtUnixNano cmd)), VUint (unat (cmd_ExpectedVersion cmd)),
              VBytes (cmd_IdempotencyKey cmd), entries_gval (cmd_Entries cmd)]"

text \<open>The decoder reports an overflow when a number does not fit the \<^verbatim>\<open>uint8\<close> of the operation.\<close>

fun gval_command :: "gval \<Rightarrow> Command option" where
  "gval_command (VStruct [VUint op, VBytes k, VBytes v, VInt t, VUint ver, VBytes idk, es]) =
     (if 256 \<le> op then None
      else map_option (\<lambda>entries.
        \<lparr>cmd_Op = of_nat op, cmd_Key = k, cmd_Value = v, cmd_ExpiresAtUnixNano = of_int t,
         cmd_ExpectedVersion = of_nat ver, cmd_IdempotencyKey = idk, cmd_Entries = entries\<rparr>) (gval_entries es))"
| "gval_command _ = None"

definition encodeCommand :: "gob_registry \<Rightarrow> Command \<Rightarrow> bytes option" where
  "encodeCommand reg cmd = gob_Encode (command_defs reg) (command_gval cmd)"

definition decodeCommand :: "bytes \<Rightarrow> Command option" where
  "decodeCommand b = Option.bind (gob_Decode command_type [] b) gval_command"

section \<open>The state machine\<close>

datatype raft_error = ErrNotLeader | ErrLeadershipLost | ErrCantBootstrap | OtherRaftError

datatype repl_error =
    RaftErr raft_error
  | EncodeFailed
  | DecodeFailed
  | UnknownOp Op
  | EngineErr engine_error
  | SinkErr
  | UnexpectedResponse

record ApplyResult =
  res_Outcome :: Outcome
  res_Err :: "repl_error option"
  res_Term :: u64

definition zero_Outcome :: Outcome where
  "zero_Outcome = \<lparr>out_CommitPosition = 0, out_Version = 0, Deduplicated = False\<rparr>"

definition apply_result :: "u64 \<Rightarrow> engine_error + Outcome \<Rightarrow> ApplyResult" where
  "apply_result trm r =
     (case r of
        Inl err \<Rightarrow> \<lparr>res_Outcome = zero_Outcome, res_Err = Some (EngineErr err), res_Term = trm\<rparr>
      | Inr out \<Rightarrow> \<lparr>res_Outcome = out, res_Err = None, res_Term = trm\<rparr>)"

definition error_result :: "u64 \<Rightarrow> repl_error option \<Rightarrow> ApplyResult" where
  "error_result trm err = \<lparr>res_Outcome = zero_Outcome, res_Err = err, res_Term = trm\<rparr>"

text \<open>The loop that puts the entries of a snapshot, up to the first error.\<close>

fun put_entries :: "SnapshotEntry list \<Rightarrow> engine \<Rightarrow> engine_error option \<times> engine" where
  "put_entries [] e = (None, e)"
| "put_entries (s # ss) e =
     (case ApplyPut (snap_Key s) (snap_Value s) (snap_ExpiresAtUnixNano s) [] e of
        (Inl err, e1) \<Rightarrow> (Some err, e1)
      | (Inr _, e1) \<Rightarrow> put_entries ss e1)"

definition loadSnapshot :: "SnapshotEntry list \<Rightarrow> engine \<Rightarrow> (engine_error option \<times> engine) go" where
  "loadSnapshot entries e =
     go_bind (engine_Reset e) (\<lambda>(err, e1).
       case err of
         Some x \<Rightarrow> Ret (Some x, e1)
       | None \<Rightarrow> Ret (put_entries entries e1))"

text \<open>\<^verbatim>\<open>Apply\<close> on a log entry: its term and its data, and the local reading of the clock.\<close>

definition fsm_Apply :: "int \<Rightarrow> u64 \<Rightarrow> bytes \<Rightarrow> engine \<Rightarrow> (ApplyResult \<times> engine) go" where
  "fsm_Apply now trm data e =
     (case decodeCommand data of
        None \<Rightarrow> Ret (error_result trm (Some DecodeFailed), e)
      | Some cmd \<Rightarrow>
          if cmd_Op cmd = OpPut then
            (case ApplyPut (cmd_Key cmd) (cmd_Value cmd) (cmd_ExpiresAtUnixNano cmd) (cmd_IdempotencyKey cmd) e of
               (r, e1) \<Rightarrow> Ret (apply_result trm r, e1))
          else if cmd_Op cmd = OpDelete then
            (case engine_Delete (cmd_Key cmd) (cmd_IdempotencyKey cmd) e of
               (r, e1) \<Rightarrow> Ret (apply_result trm r, e1))
          else if cmd_Op cmd = OpCompareAndSet then
            (case ApplyCompareAndSet now (cmd_Key cmd) (cmd_Value cmd) (cmd_ExpectedVersion cmd)
                    (cmd_ExpiresAtUnixNano cmd) (cmd_IdempotencyKey cmd) e of
               (r, e1) \<Rightarrow> Ret (apply_result trm r, e1))
          else if cmd_Op cmd = OpWipeAll then
            go_bind (engine_Reset e) (\<lambda>(err, e1). Ret (error_result trm (map_option EngineErr err), e1))
          else if cmd_Op cmd = OpLoadSnapshot then
            go_bind (loadSnapshot (cmd_Entries cmd) e) (\<lambda>(err, e1).
              Ret (error_result trm (map_option EngineErr err), e1))
          else Ret (error_result trm (Some (UnknownOp (cmd_Op cmd))), e))"

definition fsm_Snapshot :: "(bytes \<times> int) list \<Rightarrow> engine \<Rightarrow> SnapshotEntry list" where
  "fsm_Snapshot order e = Snapshot order e"

definition fsm_Restore :: "reader \<Rightarrow> engine \<Rightarrow> (repl_error option \<times> engine) go" where
  "fsm_Restore rc e =
     (case decode_entries (rd_bytes rc) of
        None \<Rightarrow> Ret (Some DecodeFailed, e)
      | Some entries \<Rightarrow>
          go_bind (engine_Reset e) (\<lambda>(err, e1).
            case err of
              Some x \<Rightarrow> Ret (Some (EngineErr x), e1)
            | None \<Rightarrow>
                (case put_entries entries e1 of (err, e2) \<Rightarrow> Ret (map_option EngineErr err, e2))))"

text \<open>The sink of a raft snapshot belongs to the library: its calls say whether they fail.\<close>

record 'k SnapshotSink =
  sink_Write :: "bytes \<Rightarrow> 'k \<Rightarrow> bool \<times> 'k"
  sink_Close :: "'k \<Rightarrow> bool \<times> 'k"
  sink_Cancel :: "'k \<Rightarrow> 'k"

definition Persist :: "gob_registry \<Rightarrow> 'k SnapshotSink \<Rightarrow> SnapshotEntry list \<Rightarrow> 'k \<Rightarrow> repl_error option \<times> 'k" where
  "Persist reg sink entries k =
     (case encode_entries reg entries of
        None \<Rightarrow> (Some EncodeFailed, sink_Cancel sink k)
      | Some buf \<Rightarrow>
          (case sink_Write sink buf k of
             (False, k1) \<Rightarrow> (Some SinkErr, sink_Cancel sink k1)
           | (True, k1) \<Rightarrow>
               (case sink_Close sink k1 of
                  (ok, k2) \<Rightarrow> (if ok then None else Some SinkErr, k2))))"

text \<open>
  The future of a proposal, from the library: its error, and its response, which is \<open>None\<close> when it is
  not an \<^verbatim>\<open>ApplyResult\<close>.
\<close>

record ApplyFuture =
  fut_Error :: "raft_error option"
  fut_Response :: "ApplyResult option"

definition AsApplyResult :: "ApplyFuture \<Rightarrow> repl_error + ApplyResult" where
  "AsApplyResult future =
     (case fut_Error future of
        Some err \<Rightarrow> Inl (RaftErr err)
      | None \<Rightarrow>
          (case fut_Response future of
             None \<Rightarrow> Inl UnexpectedResponse
           | Some r \<Rightarrow> Inr r))"

text \<open>A replica applies the committed entries in order, each at its own time.\<close>

type_synonym log_entry = "int \<times> u64 \<times> bytes"

definition fsm_step :: "log_entry \<Rightarrow> engine \<Rightarrow> (ApplyResult \<times> engine) go" where
  "fsm_step = (\<lambda>(now, trm, data). fsm_Apply now trm data)"

definition fsm_run :: "log_entry list \<Rightarrow> engine \<Rightarrow> (ApplyResult list \<times> engine) go" where
  "fsm_run = run_go fsm_step"

section \<open>Round trip of commands\<close>

definition command_ok :: "Command \<Rightarrow> bool" where
  "command_ok cmd \<longleftrightarrow> length (cmd_Key cmd) < 2 ^ 63 \<and> length (cmd_Value cmd) < 2 ^ 63
     \<and> length (cmd_IdempotencyKey cmd) < 2 ^ 63 \<and> entries_ok (cmd_Entries cmd)"

lemma unat_byte_less: "unat (b :: byte) < 256"
  using unsigned_less [of b] by simp

lemma unat_u64_less: "unat (w :: u64) < 2 ^ 64"
  using unsigned_less [of w] by simp

lemma command_gval_type: "command_ok cmd \<Longrightarrow> has_type command_type (command_gval cmd)"
  using sint_bounds_64 [of "cmd_ExpiresAtUnixNano cmd"] unat_byte_less [of "cmd_Op cmd"]
    unat_u64_less [of "cmd_ExpectedVersion cmd"] entries_gval_type [of "cmd_Entries cmd"]
  by (simp add: command_ok_def command_type_def command_gval_def)

lemma gval_command_gval [simp]: "gval_command (command_gval cmd) = Some cmd"
  using unat_byte_less [of "cmd_Op cmd"] by (simp add: command_gval_def not_le)

lemma command_defs_ids: "registry_ok reg \<Longrightarrow> good_ids (command_defs reg)"
  by (simp add: registry_ok_def good_ids_def command_defs_def entries_defs_def)

lemma decode_encodeCommand:
  assumes "registry_ok reg" and "command_ok cmd" and "encodeCommand reg cmd = Some b"
  shows "decodeCommand b = Some cmd"
  using gob_Decode_Encode [OF _ command_defs_ids command_gval_type] assms
  by (simp add: encodeCommand_def decodeCommand_def)

definition command_size :: "Command \<Rightarrow> nat" where
  "command_size cmd = length (cmd_Key cmd) + length (cmd_Value cmd) + length (cmd_IdempotencyKey cmd)
     + entries_size (cmd_Entries cmd)"

lemma command_size_ok: "command_size cmd < 2 ^ 32 - 200 \<Longrightarrow> command_ok cmd"
  using entries_size_ok [of "cmd_Entries cmd"] by (simp add: command_size_def command_ok_def)

lemma encodeCommand_succeeds:
  assumes "registry_ok reg" and "command_size cmd < 2 ^ 32 - 200"
  shows "\<exists>b. encodeCommand reg cmd = Some b"
  unfolding encodeCommand_def
proof (rule gob_Encode_small [OF command_defs_ids [OF assms(1)] _ command_gval_type [OF command_size_ok [OF assms(2)]]])
  have "length (wire_bytes (hd (command_defs reg))) < 2 ^ 32"
    using assms(1) by (intro le_less_trans [OF length_wire_bytes])
      (simp_all add: registry_ok_def command_defs_def gob_tBytes_def gob_tInt_def gob_tUint_def gob_tString_def lit_def)
  with entries_defs_small [OF assms(1)] show "\<forall>d \<in> set (command_defs reg). length (wire_bytes d) < 2 ^ 32"
    by (simp add: command_defs_def)
qed (use assms(2) in \<open>simp add: command_gval_def command_size_def\<close>)

interpretation command_codec: codec "\<lambda>cmd. the (encodeCommand reg cmd)" decodeCommand
    "\<lambda>cmd. registry_ok reg \<and> command_ok cmd \<and> encodeCommand reg cmd \<noteq> None"
  by unfold_locales (auto intro: decode_encodeCommand)

end
