(* ===== verification/FsmSpec.thy ===== *)
theory FsmSpec
  imports Fsm
begin

text \<open>
  What a replica computes, as a function of the records it has committed: the specification of
  \<^verbatim>\<open>FSM.Apply\<close>, the proof that a healthy replica refines it, and what follows for replication: agreement
  of replicas, catching up, snapshots, and the replay of the raft log after a restart.
\<close>

section \<open>Specification\<close>

definition tables_of :: "Record list \<Rightarrow> tables" where
  "tables_of rs = fold engine_apply rs (Map.empty, Map.empty)"

definition spec_replayed :: "bytes \<Rightarrow> Record list \<Rightarrow> Outcome option" where
  "spec_replayed idk rs = (if idk \<noteq> [] then snd (tables_of rs) idk else None)"

definition spec_version :: "int \<Rightarrow> bytes \<Rightarrow> Record list \<Rightarrow> u64" where
  "spec_version now key rs =
     (case fst (tables_of rs) key of None \<Rightarrow> 0 | Some ent \<Rightarrow> if expired now ent then 0 else ent_version ent)"

type_synonym spec_result = "(engine_error + Outcome) \<times> Record list"

definition spec_commit :: "Record \<Rightarrow> Record list \<Rightarrow> spec_result" where
  "spec_commit rec rs = (Inr (put_outcome (of_nat (Suc (length rs)))), rs @ [at_end rec rs])"

definition spec_once :: "bytes \<Rightarrow> (Record list \<Rightarrow> spec_result) \<Rightarrow> Record list \<Rightarrow> spec_result" where
  "spec_once idk act rs =
     (case spec_replayed idk rs of Some out \<Rightarrow> (Inr (out\<lparr>Deduplicated := True\<rparr>), rs) | None \<Rightarrow> act rs)"

definition spec_cas :: "int \<Rightarrow> bytes \<Rightarrow> bytes \<Rightarrow> u64 \<Rightarrow> i64 \<Rightarrow> bytes \<Rightarrow> Record list \<Rightarrow> spec_result" where
  "spec_cas now key val v expiry idk rs =
     (if spec_version now key rs \<noteq> v then (Inl ErrVersionMismatch, rs)
      else spec_commit (put_record key val expiry idk) rs)"

definition spec_entries :: "SnapshotEntry list \<Rightarrow> Record list \<Rightarrow> Record list" where
  "spec_entries ss rs =
     fold (\<lambda>s rs. rs @ [at_end (put_record (snap_Key s) (snap_Value s) (snap_ExpiresAtUnixNano s) []) rs]) ss rs"

definition cmd_put :: "Command \<Rightarrow> Record" where
  "cmd_put cmd = put_record (cmd_Key cmd) (cmd_Value cmd) (cmd_ExpiresAtUnixNano cmd) (cmd_IdempotencyKey cmd)"

definition cmd_delete :: "Command \<Rightarrow> Record" where
  "cmd_delete cmd = delete_record (cmd_Key cmd) (cmd_IdempotencyKey cmd)"

definition spec_command :: "int \<Rightarrow> u64 \<Rightarrow> Command \<Rightarrow> Record list \<Rightarrow> ApplyResult \<times> Record list" where
  "spec_command now trm cmd rs =
     (if cmd_Op cmd = OpPut then
        apfst (apply_result trm) (spec_once (cmd_IdempotencyKey cmd) (spec_commit (cmd_put cmd)) rs)
      else if cmd_Op cmd = OpDelete then
        apfst (apply_result trm) (spec_once (cmd_IdempotencyKey cmd) (spec_commit (cmd_delete cmd)) rs)
      else if cmd_Op cmd = OpCompareAndSet then
        apfst (apply_result trm) (spec_once (cmd_IdempotencyKey cmd)
          (spec_cas now (cmd_Key cmd) (cmd_Value cmd) (cmd_ExpectedVersion cmd) (cmd_ExpiresAtUnixNano cmd)
            (cmd_IdempotencyKey cmd)) rs)
      else if cmd_Op cmd = OpWipeAll then (error_result trm None, [])
      else if cmd_Op cmd = OpLoadSnapshot then (error_result trm None, spec_entries (cmd_Entries cmd) [])
      else (error_result trm (Some (UnknownOp (cmd_Op cmd))), rs))"

definition spec_step :: "log_entry \<Rightarrow> Record list \<Rightarrow> ApplyResult \<times> Record list" where
  "spec_step = (\<lambda>(now, trm, data) rs.
     case decodeCommand data of
       None \<Rightarrow> (error_result trm (Some DecodeFailed), rs)
     | Some cmd \<Rightarrow> spec_command now trm cmd rs)"

text \<open>The size limit on records: what a command may append has to fit a frame of the log.\<close>

definition entry_fits :: "SnapshotEntry \<Rightarrow> bool" where
  "entry_fits s \<longleftrightarrow> fits (put_record (snap_Key s) (snap_Value s) (snap_ExpiresAtUnixNano s) [])"

definition command_fits :: "Command \<Rightarrow> bool" where
  "command_fits cmd \<longleftrightarrow> fits (cmd_put cmd) \<and> (\<forall>s \<in> set (cmd_Entries cmd). entry_fits s)"

definition entry_okay :: "log_entry \<Rightarrow> bool" where
  "entry_okay = (\<lambda>(now, trm, data). case decodeCommand data of None \<Rightarrow> True | Some cmd \<Rightarrow> command_fits cmd)"

text \<open>A replica that has committed these records, and whose disk works.\<close>

definition replica :: "engine \<Rightarrow> Record list \<Rightarrow> bool" where
  "replica e rs \<longleftrightarrow> engine_inv e rs \<and> engine_healthy e"

section \<open>A replica refines the specification\<close>

lemma replica_tables: "replica e rs \<Longrightarrow> tables_of rs = (index e, dedup e)"
  by (simp add: replica_def tables_of_def engine_inv_tables)

lemma replica_replayed: "replica e rs \<Longrightarrow> spec_replayed idk rs = replayed idk e"
  by (simp add: spec_replayed_def replayed_def replica_tables)

lemma replica_version: "replica e rs \<Longrightarrow> spec_version now key rs = currentVersion now key e"
  by (simp add: spec_version_def currentVersion_def replica_tables)

lemma replica_new: "replica (engine_of pth []) []"
  using engine_inv_of [of "[]" pth] by (simp add: replica_def)

lemma replica_opened:
  assumes "replica e rs" and "durable (fd (elog e)) \<le> k"
  shows "\<exists>e1. engine_Open pth (crash k (fd (elog e))) = Ret (Inr e1) \<and> replica e1 rs"
  using engine_reopen [of e rs k pth] engine_of_reopened [of e rs pth] engine_inv_of [of rs pth] engine_inv_wf [of e rs] assms
  by (auto simp: replica_def)

lemma replica_commit:
  assumes "replica e rs" and "fits rec"
  shows "\<exists>e1. commit rec e = (fst (spec_commit rec rs), e1) \<and> replica e1 (snd (spec_commit rec rs))"
proof (rule commit_healthy [of e rs rec])
  fix e1
  assume "commit rec e = (Inr (put_outcome (of_nat (Suc (length rs)))), e1)"
    and "engine_inv e1 (rs @ [at_end rec rs])" and "engine_healthy e1"
  then show ?thesis by (intro exI [of _ e1]) (simp add: spec_commit_def replica_def)
qed (use assms in \<open>simp_all add: replica_def\<close>)

lemma replica_once:
  assumes "replica e rs" and "\<exists>e1. act e = (fst (spec rs), e1) \<and> replica e1 (snd (spec rs))"
  shows "\<exists>e1. (case replayed idk e of Some out \<Rightarrow> (Inr (out\<lparr>Deduplicated := True\<rparr>), e) | None \<Rightarrow> act e) =
      (fst (spec_once idk spec rs), e1) \<and> replica e1 (snd (spec_once idk spec rs))"
  using assms replica_replayed [OF assms(1), of idk]
  by (cases "replayed idk e") (auto simp: spec_once_def)

lemma put_entries_spec:
  assumes "replica e rs" and "\<forall>s \<in> set ss. entry_fits s"
  shows "\<exists>e1. put_entries ss e = (None, e1) \<and> replica e1 (spec_entries ss rs)"
  using assms
proof (induction ss arbitrary: e rs)
  case Nil
  then show ?case by (simp add: spec_entries_def)
next
  case (Cons s ss)
  let ?r = "put_record (snap_Key s) (snap_Value s) (snap_ExpiresAtUnixNano s) []"
  from replica_commit [OF Cons.prems(1), of ?r] Cons.prems(2) obtain e1 where
    e1: "commit ?r e = (Inr (put_outcome (of_nat (Suc (length rs)))), e1)" "replica e1 (rs @ [at_end ?r rs])"
    by (auto simp: entry_fits_def spec_commit_def)
  then have "put_entries (s # ss) e = put_entries ss e1"
    by (simp add: ApplyPut_commit replayed_def)
  with Cons.IH [OF e1(2)] Cons.prems(2) show ?case by (simp add: spec_entries_def)
qed

lemma replica_Reset:
  assumes "replica e rs"
  shows "\<exists>e1. engine_Reset e = Ret (None, e1) \<and> replica e1 []"
  using assms engine_Reset_healthy [of e] replica_new
  by (auto simp: replica_def engine_inv_def tracks_def log_of_def)

lemma loadSnapshot_spec:
  assumes "replica e rs" and "\<forall>s \<in> set ss. entry_fits s"
  shows "\<exists>e1. loadSnapshot ss e = Ret (None, e1) \<and> replica e1 (spec_entries ss [])"
proof -
  from replica_Reset [OF assms(1)] obtain e1 where e1: "engine_Reset e = Ret (None, e1)" "replica e1 []" by blast
  with put_entries_spec [OF e1(2) assms(2)] show ?thesis by (auto simp: loadSnapshot_def)
qed

lemma fits_delete: "fits (cmd_put cmd) \<Longrightarrow> fits (cmd_delete cmd)"
  by (simp add: cmd_put_def cmd_delete_def put_record_def delete_record_def fits_def)

lemma Op_distinct [simp]:
  "OpPut \<noteq> OpDelete" "OpPut \<noteq> OpCompareAndSet" "OpPut \<noteq> OpWipeAll" "OpPut \<noteq> OpLoadSnapshot"
  "OpDelete \<noteq> OpPut" "OpDelete \<noteq> OpCompareAndSet" "OpDelete \<noteq> OpWipeAll" "OpDelete \<noteq> OpLoadSnapshot"
  "OpCompareAndSet \<noteq> OpPut" "OpCompareAndSet \<noteq> OpDelete" "OpCompareAndSet \<noteq> OpWipeAll" "OpCompareAndSet \<noteq> OpLoadSnapshot"
  "OpWipeAll \<noteq> OpPut" "OpWipeAll \<noteq> OpDelete" "OpWipeAll \<noteq> OpCompareAndSet" "OpWipeAll \<noteq> OpLoadSnapshot"
  "OpLoadSnapshot \<noteq> OpPut" "OpLoadSnapshot \<noteq> OpDelete" "OpLoadSnapshot \<noteq> OpCompareAndSet" "OpLoadSnapshot \<noteq> OpWipeAll"
  by (simp_all add: Op_defs)

lemma ApplyPut_spec:
  assumes "replica e rs" and "fits (put_record key val expiry idk)"
  shows "\<exists>e1. ApplyPut key val expiry idk e = (fst (spec_once idk (spec_commit (put_record key val expiry idk)) rs), e1)
    \<and> replica e1 (snd (spec_once idk (spec_commit (put_record key val expiry idk)) rs))"
  using replica_once [where act = "commit _" and spec = "spec_commit _", OF assms(1) replica_commit [OF assms]]
  by (simp add: ApplyPut_commit)

lemma engine_Delete_spec:
  assumes "replica e rs" and "fits (delete_record key idk)"
  shows "\<exists>e1. engine_Delete key idk e = (fst (spec_once idk (spec_commit (delete_record key idk)) rs), e1)
    \<and> replica e1 (snd (spec_once idk (spec_commit (delete_record key idk)) rs))"
  using replica_once [where act = "commit _" and spec = "spec_commit _", OF assms(1) replica_commit [OF assms]]
  by (simp add: engine_Delete_commit)

lemma ApplyCompareAndSet_spec:
  assumes "replica e rs" and "fits (put_record key val expiry idk)"
  shows "\<exists>e1. ApplyCompareAndSet now key val v expiry idk e = (fst (spec_once idk (spec_cas now key val v expiry idk) rs), e1)
    \<and> replica e1 (snd (spec_once idk (spec_cas now key val v expiry idk) rs))"
proof -
  let ?act = "\<lambda>e. if currentVersion now key e \<noteq> v then (Inl ErrVersionMismatch, e) else commit (put_record key val expiry idk) e"
  have "\<exists>e1. ?act e = (fst (spec_cas now key val v expiry idk rs), e1) \<and> replica e1 (snd (spec_cas now key val v expiry idk rs))"
    using replica_commit [OF assms] replica_version [OF assms(1), of now key] assms(1) by (auto simp: spec_cas_def)
  from replica_once [where act = ?act and spec = "spec_cas _ _ _ _ _ _", OF assms(1) this]
  show ?thesis by (simp add: ApplyCompareAndSet_commit)
qed

lemma spec_command_cases:
  obtains (put) "cmd_Op cmd = OpPut" | (del) "cmd_Op cmd = OpDelete" | (cas) "cmd_Op cmd = OpCompareAndSet"
    | (wipe) "cmd_Op cmd = OpWipeAll" | (load) "cmd_Op cmd = OpLoadSnapshot"
    | (unknown) "cmd_Op cmd \<notin> {OpPut, OpDelete, OpCompareAndSet, OpWipeAll, OpLoadSnapshot}"
  by blast

lemma fsm_Apply_spec:
  assumes e: "replica e rs" and "entry_okay (now, trm, data)"
  shows "\<exists>e1. fsm_Apply now trm data e = Ret (fst (spec_step (now, trm, data) rs), e1)
    \<and> replica e1 (snd (spec_step (now, trm, data) rs))"
proof (cases "decodeCommand data")
  case None
  with e show ?thesis by (simp add: fsm_Apply_def spec_step_def)
next
  case (Some cmd)
  with assms(2) have fit: "command_fits cmd" by (simp add: entry_okay_def)
  then have put: "fits (put_record (cmd_Key cmd) (cmd_Value cmd) (cmd_ExpiresAtUnixNano cmd) (cmd_IdempotencyKey cmd))"
    and del: "fits (delete_record (cmd_Key cmd) (cmd_IdempotencyKey cmd))"
    and load: "\<forall>s \<in> set (cmd_Entries cmd). entry_fits s"
    using fits_delete [of cmd] by (simp_all add: command_fits_def cmd_put_def cmd_delete_def)
  show ?thesis
  proof (cases cmd rule: spec_command_cases)
    case put
    with ApplyPut_spec [OF e \<open>fits (put_record _ _ _ _)\<close>] Some show ?thesis
      by (auto simp: fsm_Apply_def spec_step_def spec_command_def cmd_put_def)
  next
    case del
    with engine_Delete_spec [OF e \<open>fits (delete_record _ _)\<close>] Some show ?thesis
      by (auto simp: fsm_Apply_def spec_step_def spec_command_def cmd_delete_def)
  next
    case cas
    with ApplyCompareAndSet_spec [OF e put, of now "cmd_ExpectedVersion cmd"] Some show ?thesis
      by (auto simp: fsm_Apply_def spec_step_def spec_command_def)
  next
    case wipe
    with replica_Reset [OF e] Some show ?thesis
      by (auto simp: fsm_Apply_def spec_step_def spec_command_def)
  next
    case load
    with loadSnapshot_spec [OF e \<open>\<forall>s \<in> set (cmd_Entries cmd). entry_fits s\<close>] Some show ?thesis
      by (auto simp: fsm_Apply_def spec_step_def spec_command_def)
  next
    case unknown
    with e Some show ?thesis
      by (simp add: fsm_Apply_def spec_step_def spec_command_def)
  qed
qed

interpretation fsm: refinement fsm_step spec_step replica entry_okay
proof
  fix e rs i assume "replica e rs" and "entry_okay i"
  then show "\<exists>e1. fsm_step i e = Ret (fst (spec_step i rs), e1) \<and> replica e1 (snd (spec_step i rs))"
    using fsm_Apply_spec by (cases i) (simp add: fsm_step_def)
qed

end
