(* ===== verification/GoText.thy ===== *)
theory GoText
  imports Prelude
begin

text \<open>
  Text as the programs handle it: the numbers of \<^verbatim>\<open>strconv\<close> and \<^verbatim>\<open>fmt\<close>, splitting, and the paths of \<^verbatim>\<open>filepath\<close>.
\<close>

lemma inj_byte_of: "inj (of_char :: char \<Rightarrow> byte)"
proof (rule injI)
  fix c d :: char
  assume "(of_char c :: byte) = of_char d"
  then have "unat (of_nat (of_char c :: nat) :: byte) = unat (of_nat (of_char d :: nat) :: byte)" by (simp only: of_nat_of_char)
  moreover have "(of_char c :: nat) < 256" "(of_char d :: nat) < 256" by (rule nat_of_char_less_256)+
  ultimately have "(of_char c :: nat) = of_char d" by (simp add: unat_of_nat take_bit_nat_eq_self)
  then show "c = d" by simp
qed

lemma lit_eq_iff [simp]: "lit s = lit t \<longleftrightarrow> s = t"
  by (auto simp: lit_def inj_map_eq_map [OF inj_byte_of])

section \<open>Numbers\<close>

definition is_digit :: "byte \<Rightarrow> bool" where
  "is_digit b \<longleftrightarrow> 48 \<le> b \<and> b \<le> 57"

definition digits_value :: "bytes \<Rightarrow> int" where
  "digits_value ds = foldl (\<lambda>a d. a * 10 + (uint d - 48)) 0 ds"

text \<open>
  \<^verbatim>\<open>strconv.ParseInt(s, 10, w)\<close>: an optional sign, digits, and the range of \<open>w\<close> bits; \<^verbatim>\<open>strconv.Atoi\<close> is the
  case of 64 bits.  \<^verbatim>\<open>strconv.ParseUint(s, 10, 64)\<close> takes no sign.
\<close>

definition ParseInt_bits :: "nat \<Rightarrow> bytes \<Rightarrow> int option" where
  "ParseInt_bits w s =
     (let neg = (s \<noteq> [] \<and> hd s = 45);
          ds = (if s \<noteq> [] \<and> (hd s = 43 \<or> hd s = 45) then tl s else s);
          n = (if neg then - digits_value ds else digits_value ds)
      in if ds = [] \<or> \<not> list_all is_digit ds \<or> n < - (2 ^ (w - 1)) \<or> 2 ^ (w - 1) \<le> n then None else Some n)"

definition ParseInt :: "bytes \<Rightarrow> int option" where
  "ParseInt = ParseInt_bits 64"

definition ParseUint :: "bytes \<Rightarrow> u64 option" where
  "ParseUint s =
     (if s = [] \<or> \<not> list_all is_digit s \<or> 2 ^ 64 \<le> digits_value s then None else Some (of_int (digits_value s)))"

text \<open>The verb \<^verbatim>\<open>%d\<close>.\<close>

fun itoa :: "nat \<Rightarrow> bytes" where
  "itoa n = (if n < 10 then [of_nat (48 + n)] else itoa (n div 10) @ [of_nat (48 + n mod 10)])"

declare itoa.simps [simp del]

definition format_int :: "int \<Rightarrow> bytes" where
  "format_int n = (if n < 0 then 45 # itoa (nat (- n)) else itoa (nat n))"

lemma digits_value_snoc [simp]: "digits_value (ds @ [d]) = digits_value ds * 10 + (uint d - 48)"
  by (simp add: digits_value_def)

lemma uint_digit: "n < 10 \<Longrightarrow> uint (of_nat (48 + n) :: byte) = 48 + int n"
proof -
  assume "n < 10"
  then have "unat (of_nat (48 + n) :: byte) = 48 + n" by (simp only: unat_of_nat) (simp add: take_bit_nat_eq_self)
  then show ?thesis by (simp only: uint_nat)
qed

lemma is_digit_of_nat: "n < 10 \<Longrightarrow> is_digit (of_nat (48 + n))"
  using uint_digit [of n] by (simp only: is_digit_def word_le_def) simp

lemma itoa_value: "digits_value (itoa n) = int n \<and> list_all is_digit (itoa n) \<and> itoa n \<noteq> []"
proof (induction n rule: itoa.induct)
  case (1 n)
  show ?case
  proof (cases "n < 10")
    case True
    then have "itoa n = [of_nat (48 + n)]" by (subst itoa.simps) simp
    with True uint_digit [OF True] is_digit_of_nat [OF True] show ?thesis by (simp add: digits_value_def del: of_nat_add)
  next
    case False
    then have "itoa n = itoa (n div 10) @ [of_nat (48 + n mod 10)]" by (subst itoa.simps) simp
    moreover have "int (n div 10) * 10 + int (n mod 10) = int n"
      using div_mult_mod_eq [of n 10] by (metis of_nat_add of_nat_mult of_nat_numeral)
    ultimately show ?thesis
      using 1 False uint_digit [of "n mod 10"] is_digit_of_nat [of "n mod 10"] by (simp del: of_nat_add)
  qed
qed

lemma is_digit_less: "is_digit b \<Longrightarrow> b \<noteq> 10 \<and> b \<noteq> 13 \<and> b \<noteq> 43 \<and> b \<noteq> 45"
  by (auto simp: is_digit_def)

lemma itoa_bytes: "b \<in> set (itoa n) \<Longrightarrow> b \<noteq> 10 \<and> b \<noteq> 13 \<and> b \<noteq> 43 \<and> b \<noteq> 45"
  using itoa_value [of n] is_digit_less by (auto simp: list_all_iff)

lemma ParseInt_itoa [simp]: "n < 2 ^ 63 \<Longrightarrow> ParseInt (itoa n) = Some (int n)"
  using itoa_value [of n] itoa_bytes [of "hd (itoa n)" n] by (simp add: ParseInt_def ParseInt_bits_def Let_def)

lemma ParseInt_format: "- (2 ^ 63) \<le> n \<Longrightarrow> n < 2 ^ 63 \<Longrightarrow> ParseInt (format_int n) = Some n"
proof (cases "n < 0")
  case True
  assume "- (2 ^ 63) \<le> n"
  with True itoa_value [of "nat (- n)"] show ?thesis by (simp add: format_int_def ParseInt_def ParseInt_bits_def Let_def)
qed (simp add: format_int_def)

lemma format_int_bytes: "b \<in> set (format_int n) \<Longrightarrow> b \<noteq> 10 \<and> b \<noteq> 13"
  using itoa_bytes by (auto simp: format_int_def split: if_splits)

lemma format_int_no_LF [simp]: "10 \<notin> set (format_int n)"
  using format_int_bytes [of 10 n] by blast

text \<open>A number that is printed is the number that is parsed.\<close>

lemma ParseUint_itoa: "n < 2 ^ 64 \<Longrightarrow> ParseUint (itoa n) = Some (of_nat n)"
proof -
  assume "n < 2 ^ 64"
  then have "int n < 2 ^ 64" by (metis of_nat_less_numeral_power_cancel_iff)
  with itoa_value [of n] show ?thesis by (simp add: ParseUint_def)
qed

section \<open>Splitting and joining\<close>

text \<open>\<^verbatim>\<open>strings.Split\<close> with a separator of one byte, and \<^verbatim>\<open>strings.SplitN\<close> into two parts at most.\<close>

fun Split :: "byte \<Rightarrow> bytes \<Rightarrow> bytes list" where
  "Split sep [] = [[]]"
| "Split sep (b # bs) =
     (if b = sep then [] # Split sep bs
      else (case Split sep bs of p # ps \<Rightarrow> (b # p) # ps | [] \<Rightarrow> [[b]]))"

definition SplitN2 :: "byte \<Rightarrow> bytes \<Rightarrow> bytes list" where
  "SplitN2 sep s =
     (if sep \<in> set s
      then [takeWhile (\<lambda>b. b \<noteq> sep) s, drop 1 (dropWhile (\<lambda>b. b \<noteq> sep) s)]
      else [s])"

fun Join_with :: "byte \<Rightarrow> bytes list \<Rightarrow> bytes" where
  "Join_with sep [] = []"
| "Join_with sep [p] = p"
| "Join_with sep (p # q # ps) = p @ sep # Join_with sep (q # ps)"

lemma Split_nonempty [simp]: "Split sep s \<noteq> []"
  by (cases s) (auto split: list.split)

lemma Split_plain: "sep \<notin> set p \<Longrightarrow> Split sep p = [p]"
  by (induction p) auto

lemma Split_append: "sep \<notin> set p \<Longrightarrow> Split sep (p @ sep # s) = p # Split sep s"
  by (induction p) auto

lemma Split_Join: "ps \<noteq> [] \<Longrightarrow> \<forall>p \<in> set ps. sep \<notin> set p \<Longrightarrow> Split sep (Join_with sep ps) = ps"
  by (induction sep ps rule: Join_with.induct) (simp_all add: Split_plain Split_append)

lemma SplitN2_pair: "sep \<notin> set a \<Longrightarrow> SplitN2 sep (a @ sep # b) = [a, b]"
  by (induction a) (auto simp: SplitN2_def)

section \<open>Paths\<close>

text \<open>\<^verbatim>\<open>filepath.Clean\<close> and \<^verbatim>\<open>filepath.Join\<close>: the elements between the slashes are taken one by one.\<close>

definition clean_element :: "bool \<Rightarrow> bytes \<Rightarrow> bytes list \<Rightarrow> bytes list" where
  "clean_element rooted p out =
     (if p = [] \<or> p = lit ''.'' then out
      else if p = lit ''..'' then
        (if out \<noteq> [] \<and> last out \<noteq> lit ''..'' then butlast out
         else if rooted then out
         else out @ [p])
      else out @ [p])"

definition path_Clean :: "bytes \<Rightarrow> bytes" where
  "path_Clean pth =
     (let rooted = (pth \<noteq> [] \<and> hd pth = 47);
          out = Join_with 47 (fold (clean_element rooted) (Split 47 pth) [])
      in if rooted then 47 # out else if out = [] then lit ''.'' else out)"

fun path_Join :: "bytes list \<Rightarrow> bytes" where
  "path_Join [] = []"
| "path_Join (e # es) = (if e = [] then path_Join es else path_Clean (Join_with 47 (e # es)))"

declare path_Join.simps [simp del]

end
