(* ===== verification/Resp.thy ===== *)
theory Resp
  imports FsmSpec GoText
begin

text \<open>
  The Redis adapter: the protocol of \<^verbatim>\<open>internal/resp/protocol.go\<close> and the server of
  \<^verbatim>\<open>internal/resp/server.go\<close>.  A connection is a reader for what the client sends and a file for what
  the server writes; a write to it may fail.
\<close>

section \<open>Reading commands\<close>

datatype resp_error =
    RespRead read_error
  | ExpectedArray bytes
  | InvalidArrayLength bytes
  | ExpectedBulk bytes
  | InvalidBulkLength bytes

record resp_command =
  Name :: bytes
  Args :: "bytes list"

text \<open>\<^verbatim>\<open>ReadBytes\<close> with the newline as delimiter, without the newline.\<close>

definition ReadBytes :: "reader \<Rightarrow> (read_error + bytes) \<times> reader" where
  "ReadBytes r =
     (if 10 \<in> set (rd_bytes r)
      then (Inr (takeWhile (\<lambda>b. b \<noteq> 10) (rd_bytes r)),
            r\<lparr>rd_bytes := drop 1 (dropWhile (\<lambda>b. b \<noteq> 10) (rd_bytes r))\<rparr>)
      else (Inl (case rd_end r of Some e \<Rightarrow> ReadFail e | None \<Rightarrow> EOF), r\<lparr>rd_bytes := []\<rparr>))"

definition readLine :: "reader \<Rightarrow> (read_error + bytes) \<times> reader" where
  "readLine r =
     (case ReadBytes r of
        (Inl err, r1) \<Rightarrow> (Inl err, r1)
      | (Inr line, r1) \<Rightarrow> (Inr (if line \<noteq> [] \<and> last line = 13 then butlast line else line), r1))"

text \<open>\<^verbatim>\<open>make\<close> panics when the memory asked for exceeds the address space, or the length is negative.\<close>

definition maxAlloc :: int where
  "maxAlloc = 2 ^ 48"

definition make_ok :: "int \<Rightarrow> i64 \<Rightarrow> bool" where
  "make_ok sz n \<longleftrightarrow> 0 \<le> sint n \<and> sint n * sz \<le> maxAlloc"

definition readBulkString :: "reader \<Rightarrow> ((resp_error + bytes) \<times> reader) go" where
  "readBulkString r =
     (case readLine r of
        (Inl err, r1) \<Rightarrow> Ret (Inl (RespRead err), r1)
      | (Inr line, r1) \<Rightarrow>
          if line = [] \<or> hd line \<noteq> 36 then Ret (Inl (ExpectedBulk line), r1)
          else (case ParseInt (tl line) of
             None \<Rightarrow> Ret (Inl (InvalidBulkLength (tl line)), r1)
           | Some n \<Rightarrow>
               if n < 0 then Ret (Inr [], r1)
               else if \<not> make_ok 1 (of_int n + 2) then Panic
               else (case ReadFull (nat n + 2) r1 of
                  (Inl err, r2) \<Rightarrow> Ret (Inl (RespRead err), r2)
                | (Inr buf, r2) \<Rightarrow> Ret (Inr (take (nat n) buf), r2))))"

fun readParts :: "nat \<Rightarrow> reader \<Rightarrow> ((resp_error + bytes list) \<times> reader) go" where
  "readParts 0 r = Ret (Inr [], r)"
| "readParts (Suc n) r =
     go_bind (readBulkString r) (\<lambda>(res, r1).
       case res of
         Inl err \<Rightarrow> Ret (Inl err, r1)
       | Inr b \<Rightarrow> go_bind (readParts n r1) (\<lambda>(res2, r2). Ret (map_sum id ((#) b) res2, r2)))"

text \<open>A slice header is 24 bytes.\<close>

definition ReadCommand :: "reader \<Rightarrow> ((resp_error + resp_command) \<times> reader) go" where
  "ReadCommand r =
     (case readLine r of
        (Inl err, r1) \<Rightarrow> Ret (Inl (RespRead err), r1)
      | (Inr line, r1) \<Rightarrow>
          if line = [] \<or> hd line \<noteq> 42 then Ret (Inl (ExpectedArray line), r1)
          else (case ParseInt (tl line) of
             None \<Rightarrow> Ret (Inl (InvalidArrayLength (tl line)), r1)
           | Some n \<Rightarrow>
               if n < 1 then Ret (Inl (InvalidArrayLength (tl line)), r1)
               else if \<not> make_ok 24 (of_int n) then Panic
               else go_bind (readParts (nat n) r1) (\<lambda>(res, r2).
                 Ret (map_sum id (\<lambda>parts. \<lparr>Name = hd parts, Args = tl parts\<rparr>) res, r2))))"

section \<open>Writing replies\<close>

definition crlf :: bytes where
  "crlf = [13, 10]"

type_synonym conn_write = "osfile \<Rightarrow> os_error option \<times> osfile"

definition conn_Write :: "bytes \<Rightarrow> conn_write" where
  "conn_Write p w = (case file_Write p w of ((_, err), w1) \<Rightarrow> (err, w1))"

definition WriteSimpleString :: "bytes \<Rightarrow> conn_write" where
  "WriteSimpleString s = conn_Write (lit ''+'' @ s @ crlf)"

definition WriteError :: "bytes \<Rightarrow> conn_write" where
  "WriteError msg = conn_Write (lit ''-ERR '' @ msg @ crlf)"

definition WriteInteger :: "int \<Rightarrow> conn_write" where
  "WriteInteger n = conn_Write (lit '':'' @ format_int n @ crlf)"

definition WriteBulkString :: "bytes \<Rightarrow> conn_write" where
  "WriteBulkString b w =
     (case conn_Write (lit ''$'' @ format_int (int (length b)) @ crlf) w of
        (Some e, w1) \<Rightarrow> (Some e, w1)
      | (None, w1) \<Rightarrow>
          (case conn_Write b w1 of
             (Some e, w2) \<Rightarrow> (Some e, w2)
           | (None, w2) \<Rightarrow> conn_Write crlf w2))"

definition WriteNullBulkString :: conn_write where
  "WriteNullBulkString = conn_Write (lit ''$-1'' @ crlf)"

section \<open>Commands\<close>

text \<open>
  \<^verbatim>\<open>strings.ToUpper\<close>, as far as the result can be one of the names: the letters of ASCII, and the two
  other characters whose upper case is a letter of ASCII, the dotless i and the long s.  Every
  other character outside ASCII has an upper case outside ASCII.
\<close>

fun ToUpper :: "bytes \<Rightarrow> bytes" where
  "ToUpper [] = []"
| "ToUpper [b] = [if 97 \<le> b \<and> b \<le> 122 then b - 32 else b]"
| "ToUpper (b # c # bs) =
     (if b = 0xc4 \<and> c = 0xb1 then 0x49 # ToUpper bs
      else if b = 0xc5 \<and> c = 0xbf then 0x53 # ToUpper bs
      else (if 97 \<le> b \<and> b \<le> 122 then b - 32 else b) # ToUpper (c # bs))"

text \<open>\<^verbatim>\<open>strings.EqualFold\<close> with a string whose letters fold within ASCII only.\<close>

definition EqualFold :: "bytes \<Rightarrow> bytes \<Rightarrow> bool" where
  "EqualFold s t \<longleftrightarrow> map (\<lambda>b. if 97 \<le> b \<and> b \<le> 122 then b - 32 else b) s = t"

text \<open>The keys of a \<^verbatim>\<open>DEL\<close>: the clock is read once for every key.\<close>

fun del_keys :: "(nat \<Rightarrow> int) \<Rightarrow> nat \<Rightarrow> bytes list \<Rightarrow> int \<Rightarrow> engine \<Rightarrow> (engine_error + int) \<times> engine" where
  "del_keys clk i [] deleted e = (Inr deleted, e)"
| "del_keys clk i (key # keys) deleted e =
     (case engine_Get (clk i) key e of
        None \<Rightarrow> del_keys clk (Suc i) keys deleted e
      | Some _ \<Rightarrow>
          (case engine_Delete key [] e of
             (Inl err, e1) \<Rightarrow> (Inl err, e1)
           | (Inr _, e1) \<Rightarrow> del_keys clk (Suc i) keys (deleted + 1) e1))"

definition set_ttl :: "bytes list \<Rightarrow> bytes + i64" where
  "set_ttl args =
     (if 4 \<le> length args \<and> EqualFold (args ! 2) (lit ''EX'')
      then (case ParseInt (args ! 3) of
              None \<Rightarrow> Inl (lit ''invalid expire time in 'set' command'')
            | Some n \<Rightarrow> if n \<le> 0 then Inl (lit ''invalid expire time in 'set' command'') else Inr (of_int n))
      else if 2 < length args then Inl (lit ''unsupported SET option (only EX is implemented)'')
      else Inr 0)"

text \<open>\<open>errtext\<close> is the text of an engine error; the em dash of the message is written as its bytes.\<close>

definition unknown_command :: "bytes \<Rightarrow> bytes" where
  "unknown_command name =
     lit ''unknown command '' @ [39] @ name @ [39]
     @ lit '' (unsupported: this adapter implements a declared subset only '' @ [0xe2, 0x80, 0x94]
     @ lit '' see docs/REDIS_COMPATIBILITY.md)''"

definition dispatch :: "(engine_error \<Rightarrow> bytes) \<Rightarrow> (nat \<Rightarrow> int) \<Rightarrow> resp_command \<Rightarrow> osfile \<times> engine
    \<Rightarrow> os_error option \<times> osfile \<times> engine" where
  "dispatch errtext clk cmd s =
     (case s of (w, e) \<Rightarrow>
        let name = ToUpper (Name cmd) in
        if name = lit ''PING'' then (case WriteSimpleString (lit ''PONG'') w of (err, w1) \<Rightarrow> (err, w1, e))
        else if name = lit ''GET'' then
          if length (Args cmd) \<noteq> 1
          then (case WriteError (lit ''wrong number of arguments for 'get' command'') w of (err, w1) \<Rightarrow> (err, w1, e))
          else (case engine_Get (clk 0) (Args cmd ! 0) e of
                  None \<Rightarrow> (case WriteNullBulkString w of (err, w1) \<Rightarrow> (err, w1, e))
                | Some (v, _) \<Rightarrow> (case WriteBulkString v w of (err, w1) \<Rightarrow> (err, w1, e)))
        else if name = lit ''SET'' then
          if length (Args cmd) < 2
          then (case WriteError (lit ''wrong number of arguments for 'set' command'') w of (err, w1) \<Rightarrow> (err, w1, e))
          else (case set_ttl (Args cmd) of
                  Inl msg \<Rightarrow> (case WriteError msg w of (err, w1) \<Rightarrow> (err, w1, e))
                | Inr ttl \<Rightarrow>
                    (case engine_Put (clk 0) (Args cmd ! 0) (Args cmd ! 1) ttl [] e of
                       (Inl x, e1) \<Rightarrow> (case WriteError (errtext x) w of (err, w1) \<Rightarrow> (err, w1, e1))
                     | (Inr _, e1) \<Rightarrow> (case WriteSimpleString (lit ''OK'') w of (err, w1) \<Rightarrow> (err, w1, e1))))
        else if name = lit ''DEL'' then
          if length (Args cmd) < 1
          then (case WriteError (lit ''wrong number of arguments for 'del' command'') w of (err, w1) \<Rightarrow> (err, w1, e))
          else (case del_keys clk 0 (Args cmd) 0 e of
                  (Inl x, e1) \<Rightarrow> (case WriteError (errtext x) w of (err, w1) \<Rightarrow> (err, w1, e1))
                | (Inr n, e1) \<Rightarrow> (case WriteInteger n w of (err, w1) \<Rightarrow> (err, w1, e1)))
        else (case WriteError (unknown_command (Name cmd)) w of (err, w1) \<Rightarrow> (err, w1, e)))"

section \<open>Connections\<close>

text \<open>A command takes at least one byte from the reader.\<close>

lemma readLine_shrinks:
  assumes "readLine r = (Inr line, r1)"
  shows "length (rd_bytes r1) < length (rd_bytes r)"
proof -
  from assms have ten: "10 \<in> set (rd_bytes r)" and r1: "rd_bytes r1 = drop 1 (dropWhile (\<lambda>b. b \<noteq> 10) (rd_bytes r))"
    by (auto simp: readLine_def ReadBytes_def split: if_splits)
  have "dropWhile (\<lambda>b. b \<noteq> 10) (rd_bytes r) \<noteq> []" using ten by (auto simp: dropWhile_eq_Nil_conv)
  moreover have "length (dropWhile (\<lambda>b. b \<noteq> 10) (rd_bytes r)) \<le> length (rd_bytes r)" by (rule length_dropWhile_le)
  ultimately show ?thesis by (simp add: r1 less_le_trans [OF diff_less])
qed

lemma readBulkString_le: "readBulkString r = Ret (res, r1) \<Longrightarrow> length (rd_bytes r1) \<le> length (rd_bytes r)"
proof -
  assume b: "readBulkString r = Ret (res, r1)"
  obtain x r0 where l: "readLine r = (x, r0)" by force
  have r0: "length (rd_bytes r0) \<le> length (rd_bytes r)"
  proof (cases x)
    case (Inl err)
    with l show ?thesis by (auto simp: readLine_def ReadBytes_def split: if_splits)
  next
    case (Inr line)
    with l readLine_shrinks show ?thesis by fastforce
  qed
  from b l have "length (rd_bytes r1) \<le> length (rd_bytes r0)"
    by (auto simp: readBulkString_def ReadFull_def split: sum.splits if_splits option.splits)
  with r0 show ?thesis by simp
qed

lemma readParts_le: "readParts n r = Ret (res, r1) \<Longrightarrow> length (rd_bytes r1) \<le> length (rd_bytes r)"
proof (induction n arbitrary: r res)
  case (Suc n)
  from Suc.prems obtain x r0 where x: "readBulkString r = Ret (x, r0)" by (cases "readBulkString r") auto
  note le = readBulkString_le [OF x]
  show ?case
  proof (cases x)
    case (Inl err)
    with Suc.prems x le show ?thesis by simp
  next
    case (Inr b)
    with Suc.prems x obtain y r2 where "readParts n r0 = Ret (y, r2)" "r2 = r1" by (cases "readParts n r0") auto
    with Suc.IH le show ?thesis by fastforce
  qed
qed simp

lemma ReadCommand_shrinks:
  assumes "ReadCommand r = Ret (Inr cmd, r1)"
  shows "length (rd_bytes r1) < length (rd_bytes r)"
proof -
  from assms obtain line r0 where l: "readLine r = (Inr line, r0)"
    by (cases "readLine r") (auto simp: ReadCommand_def split: sum.splits)
  from assms l obtain n x where "readParts n r0 = Ret (x, r1)"
    by (auto simp: ReadCommand_def go_bind_eq_Ret split: if_splits option.splits prod.splits)
  from readParts_le [OF this] readLine_shrinks [OF l] show ?thesis by simp
qed

function handleConn :: "(engine_error \<Rightarrow> bytes) \<Rightarrow> (nat \<Rightarrow> nat \<Rightarrow> int) \<Rightarrow> nat \<Rightarrow> reader \<Rightarrow> osfile \<times> engine
    \<Rightarrow> (osfile \<times> engine) go" where
  "handleConn errtext clk i r s =
     (case ReadCommand r of
        Panic \<Rightarrow> Panic
      | Ret (Inl _, r1) \<Rightarrow> Ret s
      | Ret (Inr cmd, r1) \<Rightarrow>
          (case dispatch errtext (clk i) cmd s of
             (Some _, s1) \<Rightarrow> Ret s1
           | (None, s1) \<Rightarrow> handleConn errtext clk (Suc i) r1 s1))"
  by pat_completeness auto
termination
  by (relation "measure (\<lambda>(errtext, clk, i, r, s). length (rd_bytes r))") (auto dest: ReadCommand_shrinks)

declare handleConn.simps [simp del]

end
