(* ===== verification/Replication.thy ===== *)
theory Replication
  imports FsmSpec
begin

text \<open>
  What the state machine of theory Fsm gives a cluster: agreement of replicas as far as their clocks
  agree, snapshots that carry the live values over to another replica, and the effect of the
  replay of the raft log on an engine that has recovered from its own log.
\<close>

section \<open>Agreement\<close>

text \<open>
  The local clock of a replica enters \<^verbatim>\<open>Apply\<close> only where a conditional write asks whether the stored
  entry has expired.  Two schedules of the same log agree if it answers alike there.
\<close>

fun clocks_agree :: "log_entry list \<Rightarrow> log_entry list \<Rightarrow> Record list \<Rightarrow> bool" where
  "clocks_agree [] [] rs = True"
| "clocks_agree ((n1, t1, d1) # la) ((n2, t2, d2) # lb) rs =
     (t1 = t2 \<and> d1 = d2
      \<and> (case decodeCommand d1 of
           None \<Rightarrow> True
         | Some cmd \<Rightarrow>
             cmd_Op cmd = OpCompareAndSet \<longrightarrow> spec_version n1 (cmd_Key cmd) rs = spec_version n2 (cmd_Key cmd) rs)
      \<and> clocks_agree la lb (snd (spec_step (n1, t1, d1) rs)))"
| "clocks_agree _ _ rs = False"

lemma spec_once_cong: "act1 rs = act2 rs \<Longrightarrow> spec_once idk act1 rs = spec_once idk act2 rs"
  by (simp add: spec_once_def split: option.split)

lemma spec_step_clock:
  assumes "clocks_agree ((n1, t1, d1) # la) ((n2, t2, d2) # lb) rs"
  shows "spec_step (n1, t1, d1) rs = spec_step (n2, t2, d2) rs"
proof (cases "decodeCommand d1")
  case None
  with assms show ?thesis by (simp add: spec_step_def)
next
  case (Some cmd)
  have "spec_command n1 t1 cmd rs = spec_command n2 t1 cmd rs"
  proof (cases "cmd_Op cmd = OpCompareAndSet")
    case True
    with assms Some have "spec_version n1 (cmd_Key cmd) rs = spec_version n2 (cmd_Key cmd) rs" by simp
    then show ?thesis
      by (auto simp: spec_command_def spec_cas_def intro!: arg_cong [of _ _ "apfst _"] spec_once_cong)
  qed (simp add: spec_command_def)
  with assms Some show ?thesis by (simp add: spec_step_def)
qed

lemma run_spec_clock: "clocks_agree la lb rs \<Longrightarrow> run_spec spec_step la rs = run_spec spec_step lb rs"
proof (induction la lb rs rule: clocks_agree.induct)
  case (2 n1 t1 d1 la n2 t2 d2 lb rs)
  then show ?case
    using spec_step_clock [OF "2.prems"] by (auto split: prod.splits)
qed simp_all

lemma clocks_agree_okay: "clocks_agree la lb rs \<Longrightarrow> \<forall>i \<in> set la. entry_okay i \<Longrightarrow> \<forall>i \<in> set lb. entry_okay i"
  by (induction la lb rs rule: clocks_agree.induct) (auto simp: entry_okay_def)

section \<open>Replay of the raft log\<close>

text \<open>A write that carries an idempotency key.\<close>

definition keyed :: "bytes \<Rightarrow> bool" where
  "keyed data \<longleftrightarrow>
     (case decodeCommand data of
        None \<Rightarrow> False
      | Some cmd \<Rightarrow> (cmd_Op cmd = OpPut \<or> cmd_Op cmd = OpDelete) \<and> cmd_IdempotencyKey cmd \<noteq> [])"

definition knows :: "Record list \<Rightarrow> bytes \<Rightarrow> bool" where
  "knows rs data \<longleftrightarrow> (case decodeCommand data of None \<Rightarrow> False | Some cmd \<Rightarrow> spec_replayed (cmd_IdempotencyKey cmd) rs \<noteq> None)"

lemma spec_replayed_snoc:
  "spec_replayed idk (rs @ [r]) =
     (if idk \<noteq> [] \<and> IdempotencyKey r = idk then Some (put_outcome (CommitPosition r)) else spec_replayed idk rs)"
  by (cases "tables_of rs") (auto simp: spec_replayed_def tables_of_def)

lemma keyed_step:
  assumes "keyed data"
  shows "snd (spec_step (now, trm, data) rs) = rs \<and> knows rs data
    \<or> (\<exists>r. snd (spec_step (now, trm, data) rs) = rs @ [r] \<and> knows (rs @ [r]) data)"
proof -
  from assms obtain cmd where cmd: "decodeCommand data = Some cmd" "cmd_IdempotencyKey cmd \<noteq> []"
    "cmd_Op cmd = OpPut \<or> cmd_Op cmd = OpDelete" by (auto simp: keyed_def split: option.splits)
  define r where "r = at_end (if cmd_Op cmd = OpPut then cmd_put cmd else cmd_delete cmd) rs"
  have key: "IdempotencyKey r = cmd_IdempotencyKey cmd"
    by (simp add: r_def cmd_put_def cmd_delete_def)
  show ?thesis
  proof (cases "spec_replayed (cmd_IdempotencyKey cmd) rs")
    case None
    with cmd have "snd (spec_step (now, trm, data) rs) = rs @ [r]"
      by (elim disjE) (simp_all add: spec_step_def spec_command_def spec_once_def spec_commit_def r_def del: of_nat_Suc)
    moreover have "knows (rs @ [r]) data" using cmd key by (simp add: knows_def spec_replayed_snoc)
    ultimately show ?thesis by blast
  next
    case (Some out)
    with cmd show ?thesis
      by (elim disjE) (simp_all add: spec_step_def spec_command_def spec_once_def knows_def)
  qed
qed

lemma keyed_step_known:
  assumes "keyed data" and "knows rs data"
  shows "snd (spec_step (now, trm, data) rs) = rs \<and> Deduplicated (res_Outcome (fst (spec_step (now, trm, data) rs)))
    \<and> res_Err (fst (spec_step (now, trm, data) rs)) = None"
  using assms by (auto simp: keyed_def knows_def spec_step_def spec_command_def spec_once_def apply_result_def
      split: option.splits)

lemma knows_snoc: "knows rs data \<Longrightarrow> knows (rs @ [r]) data"
  by (auto simp: knows_def spec_replayed_snoc split: option.splits)

lemma keyed_run_knows:
  assumes "\<forall>(now, trm, data) \<in> set la. keyed data"
  shows "(\<forall>data. knows rs data \<longrightarrow> knows (snd (run_spec spec_step la rs)) data)
    \<and> (\<forall>(now, trm, data) \<in> set la. knows (snd (run_spec spec_step la rs)) data)"
  using assms
proof (induction la arbitrary: rs)
  case (Cons i la)
  obtain now trm data where i: "i = (now, trm, data)" by (cases i)
  obtain r rs1 where sp: "spec_step (now, trm, data) rs = (r, rs1)" by force
  with keyed_step [of data now trm rs] Cons.prems have "knows rs1 data" and "knows rs d \<Longrightarrow> knows rs1 d" for d
    by (auto simp: i knows_snoc)
  with Cons.IH [of rs1] Cons.prems show ?case by (auto simp: i sp split: prod.splits)
qed simp

lemma known_run:
  assumes "\<forall>(now, trm, data) \<in> set la. keyed data \<and> knows rs data"
  shows "snd (run_spec spec_step la rs) = rs
    \<and> (\<forall>r \<in> set (fst (run_spec spec_step la rs)). res_Err r = None \<and> Deduplicated (res_Outcome r))"
  using assms
proof (induction la)
  case (Cons i la)
  obtain now trm data where i: "i = (now, trm, data)" by (cases i)
  obtain r where "spec_step (now, trm, data) rs = (r, rs)" "res_Err r = None" "Deduplicated (res_Outcome r)"
    using keyed_step_known [of data rs now trm] Cons.prems by (cases "spec_step (now, trm, data) rs") (auto simp: i)
  with Cons show ?case by (auto simp: i split: prod.splits)
qed simp

section \<open>Snapshots\<close>

text \<open>The values and expiry times in a log, without the versions.\<close>

definition view :: "Record list \<Rightarrow> bytes \<rightharpoonup> bytes \<times> int option" where
  "view rs key = map_option (\<lambda>ent. (ent_value ent, ent_expiresAt ent)) (fst (tables_of rs) key)"

lemma view_put:
  "view (rs @ [at_end (put_record key val expiry idk) rs]) = (view rs)(key \<mapsto> (val, expiry_time expiry))"
  by (cases "tables_of rs") (auto simp: view_def tables_of_def put_entry_def fun_eq_iff put_record_def simp del: of_nat_Suc)

lemma view_entries:
  "view (spec_entries ss rs) =
     fold (\<lambda>s m. m(snap_Key s \<mapsto> (snap_Value s, expiry_time (snap_ExpiresAtUnixNano s)))) ss (view rs)"
  by (induction ss arbitrary: rs) (simp_all add: spec_entries_def view_put del: of_nat_Suc)

lemma fold_updates_other: "key \<notin> f ` set ss \<Longrightarrow> fold (\<lambda>s m. m(f s \<mapsto> g s)) ss m key = m key"
  by (induction ss arbitrary: m) auto

lemma fold_updates: "distinct (map f ss) \<Longrightarrow> s \<in> set ss \<Longrightarrow> fold (\<lambda>s m. m(f s \<mapsto> g s)) ss m (f s) = Some (g s)"
  by (induction ss arbitrary: m) (auto simp: fold_updates_other)

definition snap_of :: "bytes \<Rightarrow> entry \<Rightarrow> SnapshotEntry" where
  "snap_of k ent = \<lparr>snap_Key = k, snap_Value = ent_value ent,
     snap_ExpiresAtUnixNano = (case ent_expiresAt ent of None \<Rightarrow> 0 | Some t \<Rightarrow> of_int t)\<rparr>"

lemma snap_of_simps [simp]: "snap_Key (snap_of k ent) = k" "snap_Value (snap_of k ent) = ent_value ent"
  by (simp_all add: snap_of_def)

lemma Snapshot_Nil [simp]: "Snapshot [] e = []"
  by (simp add: Snapshot_def)

lemma Snapshot_Cons:
  "Snapshot ((k, t) # order) e =
     (case index e k of None \<Rightarrow> [] | Some ent \<Rightarrow> if expired t ent then [] else [snap_of k ent]) @ Snapshot order e"
  by (cases "index e k") (simp_all add: Snapshot_def snap_of_def)

lemma Snapshot_member:
  "s \<in> set (Snapshot order e) \<longleftrightarrow>
     (\<exists>k t ent. (k, t) \<in> set order \<and> index e k = Some ent \<and> \<not> expired t ent \<and> s = snap_of k ent)"
proof (induction order)
  case (Cons kt order)
  obtain k t where kt: "kt = (k, t)" by (cases kt)
  show ?case
  proof (cases "index e k")
    case None
    with Cons show ?thesis by (auto simp: kt Snapshot_Cons)
  next
    case (Some ent)
    with Cons show ?thesis by (auto simp: kt Snapshot_Cons)
  qed
qed simp

lemma Snapshot_keys: "s \<in> set (Snapshot order e) \<Longrightarrow> snap_Key s \<in> fst ` set order"
  by (force simp: Snapshot_member)

lemma Snapshot_distinct: "distinct (map fst order) \<Longrightarrow> distinct (map snap_Key (Snapshot order e))"
proof (induction order)
  case (Cons kt order)
  obtain k t where kt: "kt = (k, t)" by (cases kt)
  have "k \<notin> snap_Key ` set (Snapshot order e)" using Cons.prems Snapshot_keys [of _ order e] by (auto simp: kt)
  with Cons show ?case by (cases "index e k") (simp_all add: kt Snapshot_Cons)
qed simp

lemma length_Snapshot: "length (Snapshot order e) \<le> length order"
  by (induction order) (auto simp: Snapshot_Cons split: option.split)

text \<open>The entries of an engine come from records of its log.\<close>

lemma engine_entry_record:
  assumes "engine_inv e rs" and "index e key = Some ent"
  obtains r where "r \<in> set rs" and "Key r = key" and "ent = put_entry r"
proof -
  from assms obtain r where r: "last_change rs key = Some r" "ent = put_entry r"
    by (auto simp: engine_index Option.bind_eq_Some_conv split: if_splits)
  have "numbered rs" using engine_inv_wf [OF assms(1)] by (simp add: well_formed_def)
  from last_change_position [OF r(1) this] r(2) show thesis by (metis nth_mem that)
qed

lemma expiry_time_back:
  "expiry_time (case expiry_time n of None \<Rightarrow> 0 | Some t \<Rightarrow> of_int t) = expiry_time n"
  by (simp add: expiry_time_def)

lemma Snapshot_entry_fits:
  assumes "engine_inv e rs" and "s \<in> set (Snapshot order e)"
  shows "entry_fits s \<and> entry_ok s"
proof -
  from assms(2) obtain ent where s: "index e (snap_Key s) = Some ent" "snap_Value s = ent_value ent"
    by (auto simp: Snapshot_member)
  from engine_entry_record [OF assms(1) s(1)] obtain r where r: "r \<in> set rs" "Key r = snap_Key s" "ent = put_entry r" .
  have "fits r" using engine_inv_wf [OF assms(1)] r(1) by (simp add: well_formed_def)
  with r s show ?thesis by (simp add: fits_def entry_fits_def put_record_def put_entry_def entry_ok_def)
qed

lemma expired_later: "t \<le> now \<Longrightarrow> expired t ent \<Longrightarrow> expired now ent"
  by (auto simp: expired_def split: option.splits)

lemma view_Get:
  assumes "replica e rs"
  shows "map_option fst (engine_Get now key e) =
    Option.bind (view rs key) (\<lambda>(val, expiry). if \<exists>t. expiry = Some t \<and> t < now then None else Some val)"
  using replica_tables [OF assms]
  by (auto simp: engine_Get_def view_def expired_def split: option.splits)

text \<open>Loading the entries of a snapshot gives the live values of the engine it was taken from.\<close>

lemma Snapshot_view:
  assumes e: "engine_inv e rs" and order: "ranges_over order e" "\<forall>(k, t) \<in> set order. t \<le> now"
    and f: "replica f (spec_entries (Snapshot order e) [])"
  shows "map_option fst (engine_Get now key f) = map_option fst (engine_Get now key e)"
proof -
  let ?ss = "Snapshot order e"
  let ?v = "view (spec_entries ?ss [])"
  have dist: "distinct (map snap_Key ?ss)" using order(1) by (simp add: ranges_over_def Snapshot_distinct)
  have none: "?v key = None" if "key \<notin> snap_Key ` set ?ss"
  proof -
    have "view [] key = None" by (simp add: view_def tables_of_def)
    then show ?thesis by (simp only: view_entries fold_updates_other [OF that])
  qed
  have some: "?v (snap_Key s) = Some (snap_Value s, expiry_time (snap_ExpiresAtUnixNano s))" if "s \<in> set ?ss" for s
    using fold_updates [OF dist that] by (simp add: view_entries)
  show ?thesis
  proof (cases "index e key")
    case None
    then have "key \<notin> snap_Key ` set ?ss" by (auto simp: Snapshot_member)
    with None none show ?thesis by (simp add: view_Get [OF f]) (simp add: engine_Get_def)
  next
    case (Some ent)
    then obtain t where t: "(key, t) \<in> set order" using order(1) by (force simp: ranges_over_def)
    show ?thesis
    proof (cases "expired t ent")
      case True
      have "expired now ent" using True t order(2) expired_later by fastforce
      moreover have "key \<notin> snap_Key ` set ?ss"
      proof
        assume "key \<in> snap_Key ` set ?ss"
        then obtain u where "(key, u) \<in> set order" "\<not> expired u ent" using Some by (auto simp: Snapshot_member)
        with True t order(1) show False by (metis eq_key_imp_eq_value ranges_over_def)
      qed
      ultimately show ?thesis using Some none by (simp add: view_Get [OF f]) (simp add: engine_Get_def)
    next
      case False
      from engine_entry_record [OF e Some] obtain r where "ent = put_entry r" by blast
      then have same: "expiry_time (case ent_expiresAt ent of None \<Rightarrow> 0 | Some t \<Rightarrow> of_int t) = ent_expiresAt ent"
        by (simp add: put_entry_def expiry_time_back)
      have "snap_of key ent \<in> set ?ss" using False t Some by (auto simp: Snapshot_member)
      from some [OF this] same have "?v key = Some (ent_value ent, ent_expiresAt ent)"
        by (simp only: snap_of_simps) (simp add: snap_of_def)
      with Some show ?thesis
        by (simp add: view_Get [OF f]) (auto simp: engine_Get_def expired_def split: option.splits)
    qed
  qed
qed

section \<open>Properties\<close>

lemma fsm_run_spec:
  assumes "replica e rs" and "\<forall>i \<in> set la. entry_okay i"
  obtains e1 where "fsm_run la e = Ret (fst (run_spec spec_step la rs), e1)" and "replica e1 (snd (run_spec spec_step la rs))"
  using fsm.run [OF assms] by (auto simp: fsm_run_def)

lemma replica_Get:
  "replica e rs \<Longrightarrow> engine_Get now key e =
     (case fst (tables_of rs) key of
        None \<Rightarrow> None
      | Some ent \<Rightarrow> if expired now ent then None else Some (ent_value ent, ent_version ent))"
  by (simp add: replica_tables engine_Get_def)

text \<open>Commands for the examples, as some process encodes them.\<close>

definition sample_registry :: gob_registry where
  "sample_registry = \<lparr>id_Command = 64, id_payload = 67, id_Meta = 68, id_Time = 69, id_Entries = 65,
     id_SnapshotEntry = 66, name_Entries = lit ''[]engine.SnapshotEntry''\<rparr>"

definition sample_command :: "Op \<Rightarrow> bytes \<Rightarrow> bytes \<Rightarrow> i64 \<Rightarrow> u64 \<Rightarrow> bytes \<Rightarrow> Command" where
  "sample_command op key val expiry ver idk =
     \<lparr>cmd_Op = op, cmd_Key = key, cmd_Value = val, cmd_ExpiresAtUnixNano = expiry, cmd_ExpectedVersion = ver,
      cmd_IdempotencyKey = idk, cmd_Entries = []\<rparr>"

definition sample_data :: "Command \<Rightarrow> bytes" where
  "sample_data cmd = the (encodeCommand sample_registry cmd)"

lemma sample_registry_ok: "registry_ok sample_registry"
  by (simp add: registry_ok_def sample_registry_def)

lemma sample_data_decode:
  assumes "command_size cmd < 1000"
  shows "decodeCommand (sample_data cmd) = Some cmd"
proof -
  have size: "command_size cmd < 2 ^ 32 - 200" using assms by simp
  obtain b where "encodeCommand sample_registry cmd = Some b" using encodeCommand_succeeds [OF sample_registry_ok size] ..
  with decode_encodeCommand [OF sample_registry_ok command_size_ok [OF size]] show ?thesis by (simp add: sample_data_def)
qed

lemma sample_size [simp]:
  "command_size (sample_command op key val expiry ver idk) = length key + length val + length idk"
  by (simp add: command_size_def sample_command_def entries_size_def)

lemma sample_command_fits [simp]:
  "command_fits (sample_command op key val expiry ver idk) \<longleftrightarrow> fits (put_record key val expiry idk)"
  by (simp add: command_fits_def sample_command_def cmd_put_def)

lemma sample_decode [simp]:
  "length key + length val + length idk < 1000 \<Longrightarrow>
    decodeCommand (sample_data (sample_command op key val expiry ver idk)) = Some (sample_command op key val expiry ver idk)"
  by (rule sample_data_decode) simp

lemma sample_okay [simp]:
  "length key + length val + length idk < 1000 \<Longrightarrow>
    entry_okay (now, trm, sample_data (sample_command op key val expiry ver idk))"
  by (simp add: entry_okay_def fits_def put_record_def)

text \<open>
  C18. A command that one node proposes is the command that every node applies: encoding succeeds for
  every command of less than four gigabytes, and the decoder gives back the command, whatever
  type numbers the encoding process happens to use.
\<close>

theorem command_roundtrip:
  assumes "registry_ok reg" and "command_size cmd < 2 ^ 32 - 200"
  shows "\<exists>b. encodeCommand reg cmd = Some b \<and> decodeCommand b = Some cmd"
  using encodeCommand_succeeds [OF assms] decode_encodeCommand [OF assms(1) command_size_ok [OF assms(2)]] by blast

theorem command_roundtrip_witness:
  "\<exists>b. encodeCommand sample_registry (sample_command OpCompareAndSet [0x6b] [0x76] 10 7 [0x69]) = Some b
    \<and> decodeCommand b = Some (sample_command OpCompareAndSet [0x6b] [0x76] 10 7 [0x69])"
  by (rule command_roundtrip [OF sample_registry_ok]) simp

text \<open>
  C7. Replicas agree: two replicas with the same records that apply the same log entries give the
  answers and have the records that the specification of the state machine gives, one and the
  same for both, and so the same tables, provided their clocks agree on the expiry of the
  entries that conditional writes look at and their disks work.
\<close>

theorem replicas_agree:
  assumes "replica a rs" and "replica b rs" and "\<forall>i \<in> set la. entry_okay i" and "clocks_agree la lb rs"
  shows "\<exists>a1 b1. fsm_run la a = Ret (fst (run_spec spec_step la rs), a1)
    \<and> fsm_run lb b = Ret (fst (run_spec spec_step la rs), b1)
    \<and> replica a1 (snd (run_spec spec_step la rs)) \<and> replica b1 (snd (run_spec spec_step la rs))
    \<and> index a1 = index b1 \<and> dedup a1 = dedup b1"
proof -
  let ?s = "run_spec spec_step la rs"
  obtain a1 where a1: "fsm_run la a = Ret (fst ?s, a1)" "replica a1 (snd ?s)" using fsm_run_spec [OF assms(1,3)] .
  obtain b1 where b1: "fsm_run lb b = Ret (fst ?s, b1)" "replica b1 (snd ?s)"
    using fsm_run_spec [OF assms(2) clocks_agree_okay [OF assms(4,3)]] run_spec_clock [OF assms(4)] by auto
  have "index a1 = index b1 \<and> dedup a1 = dedup b1" using replica_tables [OF a1(2)] replica_tables [OF b1(2)] by simp
  with a1 b1 show ?thesis by blast
qed

theorem replicas_agree_witness:
  "\<exists>r1 r2 a1 b1 rs1.
    fsm_run [(0, 1, sample_data (sample_command OpPut [0x6b] [0x76] 10 0 [])),
             (5, 1, sample_data (sample_command OpCompareAndSet [0x6b] [0x77] 0 1 []))] (engine_of [] []) = Ret ([r1, r2], a1)
    \<and> fsm_run [(3, 1, sample_data (sample_command OpPut [0x6b] [0x76] 10 0 [])),
               (9, 1, sample_data (sample_command OpCompareAndSet [0x6b] [0x77] 0 1 []))] (engine_of [] []) = Ret ([r1, r2], b1)
    \<and> res_Err r1 = None \<and> res_Err r2 = None
    \<and> replica a1 rs1 \<and> replica b1 rs1 \<and> length rs1 = 2 \<and> index a1 = index b1 \<and> dedup a1 = dedup b1"
proof -
  let ?put = "sample_data (sample_command OpPut [0x6b] [0x76] 10 0 [])"
  let ?cas = "sample_data (sample_command OpCompareAndSet [0x6b] [0x77] 0 1 [])"
  let ?la = "[(0, 1, ?put), (5, 1, ?cas)]" and ?lb = "[(3, 1, ?put), (9, 1, ?cas)]"
  note eval = spec_step_def spec_command_def spec_cas_def spec_once_def spec_replayed_def spec_commit_def cmd_put_def spec_version_def
    tables_of_def put_record_def put_entry_def expired_def expiry_time_def
  have okay: "\<forall>i \<in> set ?la. entry_okay i" by simp
  have clocks: "clocks_agree ?la ?lb []"
    by (simp_all add: spec_step_def spec_command_def sample_command_def [symmetric], simp_all add: sample_command_def eval)
  have "\<exists>r1 r2 rs1. run_spec spec_step ?la [] = ([r1, r2], rs1) \<and> res_Err r1 = None \<and> res_Err r2 = None \<and> length rs1 = 2"
    by (simp add: spec_step_def, simp add: sample_command_def eval apply_result_def)
  with replicas_agree [OF replica_new replica_new okay clocks] show ?thesis by force
qed

text \<open>
  C14. The replay of the raft log after a restart does no harm to writes with idempotency keys: when a
  replica has applied a log of puts and deletes that carry keys, crashes, recovers from its own
  log and applies the raft log again, every entry is answered as a duplicate and the tables stay.
\<close>

theorem raft_replay_deduplicated:
  assumes "replica e rs" and "\<forall>i \<in> set la. entry_okay i \<and> keyed (snd (snd i))" and "fsm_run la e = Ret (res, e1)"
    and "durable (fd (elog e1)) \<le> k" and "map snd lb = map snd la"
  shows "\<exists>e2 res2 e3. engine_Open pth (crash k (fd (elog e1))) = Ret (Inr e2) \<and> fsm_run lb e2 = Ret (res2, e3)
    \<and> index e3 = index e1 \<and> dedup e3 = dedup e1 \<and> (\<forall>r \<in> set res2. res_Err r = None \<and> Deduplicated (res_Outcome r))"
proof -
  let ?rs1 = "snd (run_spec spec_step la rs)"
  have okay: "\<forall>i \<in> set la. entry_okay i" using assms(2) by blast
  from fsm_run_spec [OF assms(1) okay] assms(3) have e1: "replica e1 ?rs1" by auto
  from replica_opened [OF e1 assms(4)] obtain e2 where
    e2: "engine_Open pth (crash k (fd (elog e1))) = Ret (Inr e2)" "replica e2 ?rs1" by blast
  have data: "\<forall>i \<in> set lb. \<exists>j \<in> set la. snd i = snd j"
    using assms(5) by (metis (no_types, lifting) image_iff image_set)
  have okb: "\<forall>i \<in> set lb. entry_okay i"
  proof
    fix i assume "i \<in> set lb"
    with data obtain j where "j \<in> set la" "snd i = snd j" by blast
    with okay show "entry_okay i" by (cases i; cases j) (auto simp: entry_okay_def)
  qed
  have "\<forall>(now, trm, d) \<in> set la. keyed d" using assms(2) by auto
  from keyed_run_knows [OF this, of rs] assms(2) data have "\<forall>(now, trm, d) \<in> set lb. keyed d \<and> knows ?rs1 d" by fastforce
  note known = known_run [OF this]
  obtain e3 where e3: "fsm_run lb e2 = Ret (fst (run_spec spec_step lb ?rs1), e3)" "replica e3 (snd (run_spec spec_step lb ?rs1))"
    using fsm_run_spec [OF e2(2) okb] .
  have "index e3 = index e1 \<and> dedup e3 = dedup e1"
    using replica_tables [OF e3(2)] replica_tables [OF e1] known by simp
  with e2(1) e3(1) known show ?thesis by blast
qed

theorem raft_replay_deduplicated_witness:
  "\<exists>res e1 e2 res2 e3.
    fsm_run [(0, 1, sample_data (sample_command OpPut [0x6b] [0x76] 0 0 [0x69]))] (engine_of [] []) = Ret (res, e1)
    \<and> engine_Open [] (crash (durable (fd (elog e1))) (fd (elog e1))) = Ret (Inr e2)
    \<and> fsm_run [(9, 1, sample_data (sample_command OpPut [0x6b] [0x76] 0 0 [0x69]))] e2 = Ret (res2, e3)
    \<and> index e3 = index e1 \<and> dedup e3 = dedup e1 \<and> (\<forall>r \<in> set res2. res_Err r = None \<and> Deduplicated (res_Outcome r))"
proof -
  let ?la = "\<lambda>now. [(now, 1 :: u64, sample_data (sample_command OpPut [0x6b] [0x76] 0 0 [0x69]))]"
  have la: "\<forall>i \<in> set (?la 0). entry_okay i \<and> keyed (snd (snd i))"
    by (simp add: keyed_def) (simp add: sample_command_def)
  obtain e1 where e1: "fsm_run (?la 0) (engine_of [] []) = Ret (fst (run_spec spec_step (?la 0) []), e1)"
    using fsm_run_spec [OF replica_new] la by blast
  from raft_replay_deduplicated [OF replica_new la e1 order_refl, of "?la 9"] e1 show ?thesis by fastforce
qed

text \<open>What the specification does with the commands of the examples.\<close>

lemma spec_step_sample:
  assumes "length key + length val < 1000"
  shows "spec_step (now, trm, sample_data (sample_command OpPut key val expiry ver [])) rs =
      apfst (apply_result trm) (spec_commit (put_record key val expiry []) rs)"
    and "spec_step (now, trm, sample_data (sample_command OpCompareAndSet key val expiry ver [])) rs =
      apfst (apply_result trm) (spec_cas now key val ver expiry [] rs)"
  using assms by (simp_all add: spec_step_def)
    (simp_all add: sample_command_def spec_command_def spec_once_def spec_replayed_def cmd_put_def)

lemmas spec_eval = spec_step_sample spec_commit_def spec_cas_def spec_version_def tables_of_def put_record_def
  put_entry_def expired_def expiry_time_def

text \<open>
  C38. The replay of the raft log loses an acknowledged conditional write that carries no idempotency
  key: the put and the conditional write on top of it are both acknowledged, and after a restart
  and the replay the key has the value of the put again.
\<close>

theorem raft_replay_loses_update:
  fixes put cas :: log_entry
  defines "put \<equiv> (0, 1, sample_data (sample_command OpPut [0x6b] [0x76] 0 0 []))"
    and "cas \<equiv> (0, 1, sample_data (sample_command OpCompareAndSet [0x6b] [0x77] 0 1 []))"
  shows "\<exists>res e1 e2 res2 e3. fsm_run [put, cas] (engine_of [] []) = Ret (res, e1)
    \<and> map res_Err res = [None, None] \<and> engine_Get 0 [0x6b] e1 = Some ([0x77], 2)
    \<and> engine_Open [] (crash (durable (fd (elog e1))) (fd (elog e1))) = Ret (Inr e2)
    \<and> engine_Get 0 [0x6b] e2 = Some ([0x77], 2)
    \<and> fsm_run [put, cas] e2 = Ret (res2, e3) \<and> engine_Get 0 [0x6b] e3 = Some ([0x76], 3)"
proof -
  let ?P = "\<lambda>n. \<lparr>CommitPosition = n, Kind = KindPut, Key = [0x6b], Value = [0x76], ExpiresAtUnixNano = 0, IdempotencyKey = []\<rparr>"
  let ?C = "\<lparr>CommitPosition = 2, Kind = KindPut, Key = [0x6b], Value = [0x77], ExpiresAtUnixNano = 0, IdempotencyKey = []\<rparr>"
  have okay: "\<forall>i \<in> set [put, cas]. entry_okay i" by (simp add: put_def cas_def)
  have run1: "snd (run_spec spec_step [put, cas] []) = [?P 1, ?C]"
      "map res_Err (fst (run_spec spec_step [put, cas] [])) = [None, None]"
    by (simp_all add: put_def cas_def spec_eval apply_result_def)
  have run2: "snd (run_spec spec_step [put, cas] [?P 1, ?C]) = [?P 1, ?C, ?P 3]"
    by (simp add: put_def cas_def spec_eval)
  obtain e1 where e1: "fsm_run [put, cas] (engine_of [] []) = Ret (fst (run_spec spec_step [put, cas] []), e1)"
    "replica e1 [?P 1, ?C]" using fsm_run_spec [OF replica_new okay] run1(1) by auto
  obtain e2 where e2: "engine_Open [] (crash (durable (fd (elog e1))) (fd (elog e1))) = Ret (Inr e2)" "replica e2 [?P 1, ?C]"
    using replica_opened [OF e1(2) order_refl] by blast
  obtain e3 where e3: "fsm_run [put, cas] e2 = Ret (fst (run_spec spec_step [put, cas] [?P 1, ?C]), e3)"
    "replica e3 [?P 1, ?C, ?P 3]" using fsm_run_spec [OF e2(2) okay] run2 by auto
  have get: "engine_Get 0 [0x6b] e1 = Some ([0x77], 2)" "engine_Get 0 [0x6b] e2 = Some ([0x77], 2)"
    "engine_Get 0 [0x6b] e3 = Some ([0x76], 3)"
    by (simp_all add: replica_Get [OF e1(2)] replica_Get [OF e2(2)] replica_Get [OF e3(2)] spec_eval)
  show ?thesis
    by (intro exI conjI) (rule e1(1) run1(2) get(1) e2(1) get(2) e3(1) get(3))+
qed

text \<open>
  Replicas diverge when their clocks do not agree on an expiry: of two replicas that apply the same
  two entries, the one that is fast takes the key for expired and commits the conditional write,
  and the other one rejects it, so that they hold different values from then on.
\<close>

lemma replicas_diverge:
  fixes put cas :: bytes
  defines "put \<equiv> sample_data (sample_command OpPut [0x6b] [0x76] 10 0 [])"
    and "cas \<equiv> sample_data (sample_command OpCompareAndSet [0x6b] [0x77] 0 0 [])"
  shows "\<exists>res1 a res2 b. fsm_run [(0, 1, put), (5, 1, cas)] (engine_of [] []) = Ret (res1, a)
    \<and> fsm_run [(0, 1, put), (15, 1, cas)] (engine_of [] []) = Ret (res2, b)
    \<and> engine_Get 5 [0x6b] a = Some ([0x76], 1) \<and> engine_Get 5 [0x6b] b = Some ([0x77], 2)"
proof -
  let ?P = "\<lparr>CommitPosition = 1, Kind = KindPut, Key = [0x6b], Value = [0x76], ExpiresAtUnixNano = 10, IdempotencyKey = []\<rparr>"
  let ?C = "\<lparr>CommitPosition = 2, Kind = KindPut, Key = [0x6b], Value = [0x77], ExpiresAtUnixNano = 0, IdempotencyKey = []\<rparr>"
  have okay: "\<forall>i \<in> set [(0, 1, put), (now, 1, cas)]. entry_okay i" for now by (simp add: put_def cas_def)
  have run: "snd (run_spec spec_step [(0, 1, put), (5, 1, cas)] []) = [?P]"
      "snd (run_spec spec_step [(0, 1, put), (15, 1, cas)] []) = [?P, ?C]"
    by (simp_all add: put_def cas_def spec_eval)
  obtain a where a: "fsm_run [(0, 1, put), (5, 1, cas)] (engine_of [] []) =
      Ret (fst (run_spec spec_step [(0, 1, put), (5, 1, cas)] []), a)" "replica a [?P]"
    using fsm_run_spec [OF replica_new okay] run(1) by metis
  obtain b where b: "fsm_run [(0, 1, put), (15, 1, cas)] (engine_of [] []) =
      Ret (fst (run_spec spec_step [(0, 1, put), (15, 1, cas)] []), b)" "replica b [?P, ?C]"
    using fsm_run_spec [OF replica_new okay] run(2) by metis
  have "engine_Get 5 [0x6b] a = Some ([0x76], 1)" "engine_Get 5 [0x6b] b = Some ([0x77], 2)"
    by (simp_all add: replica_Get [OF a(2)] replica_Get [OF b(2)] spec_eval)
  with a(1) b(1) show ?thesis by blast
qed

text \<open>
  C9. A raft snapshot carries the live state over: if the snapshot of a replica is persisted to a sink
  that keeps what is written to it, and another replica restores from it, that replica, whatever
  it held before, answers every \<^verbatim>\<open>Get\<close> with the value of the first replica from then on.
\<close>

theorem snapshot_transfer:
  assumes "replica e rs" and "replica f rs2" and "ranges_over order e" and "\<forall>(k, t) \<in> set order. t \<le> now"
    and "registry_ok reg" and "entries_size (fsm_Snapshot order e) < 2 ^ 32 - 9"
    and sink: "\<And>b. \<exists>k1 k2. sink_Write sink b k0 = (True, k1) \<and> sink_Close sink k1 = (True, k2) \<and> stored k2 = b"
  shows "\<exists>k1 f1. Persist reg sink (fsm_Snapshot order e) k0 = (None, k1)
    \<and> fsm_Restore \<lparr>rd_bytes = stored k1, rd_end = None\<rparr> f = Ret (None, f1)
    \<and> (\<forall>key. map_option fst (engine_Get now key f1) = map_option fst (engine_Get now key e))"
proof -
  let ?ss = "Snapshot order e"
  obtain b where b: "encode_entries reg ?ss = Some b"
    using encode_entries_succeeds [OF assms(5)] assms(6) by (auto simp: fsm_Snapshot_def)
  from sink [of b] obtain k1 where k1: "Persist reg sink (fsm_Snapshot order e) k0 = (None, k1)" "stored k1 = b"
    by (auto simp: Persist_def fsm_Snapshot_def b)
  have dec: "decode_entries b = Some ?ss"
    using decode_encode_entries [OF assms(5) entries_size_ok b] assms(6) by (simp add: fsm_Snapshot_def)
  obtain f0 where f0: "engine_Reset f = Ret (None, f0)" "replica f0 []" using replica_Reset [OF assms(2)] by blast
  have inv: "engine_inv e rs" using assms(1) by (simp add: replica_def)
  then obtain f1 where f1: "put_entries ?ss f0 = (None, f1)" "replica f1 (spec_entries ?ss [])"
    using put_entries_spec [OF f0(2)] Snapshot_entry_fits by blast
  have "fsm_Restore \<lparr>rd_bytes = stored k1, rd_end = None\<rparr> f = Ret (None, f1)"
    using k1(2) dec f0(1) f1(1) by (simp add: fsm_Restore_def)
  with k1(1) Snapshot_view [OF inv assms(3,4) f1(2)] show ?thesis by blast
qed

lemma sample_snapshot:
  obtains e where "replica e [at_end (put_record [0x6b] [0x76] 0 []) []]" and "ranges_over [([0x6b], 0)] e"
    and "entries_size (fsm_Snapshot [([0x6b], 0)] e) < 2 ^ 32 - 9" and "engine_Get 5 [0x6b] e = Some ([0x76], 1)"
proof -
  let ?rs = "[at_end (put_record [0x6b] [0x76] 0 []) []]"
  have "well_formed ?rs" by (simp add: well_formed_def numbered_def fits_def put_record_def)
  then obtain e where e: "replica e ?rs" using engine_inv_of [of ?rs "[]"] by (auto simp: replica_def)
  have ix: "index e = [[0x6b] \<mapsto> \<lparr>ent_value = [0x76], ent_version = 1, ent_expiresAt = None\<rparr>]"
    using replica_tables [OF e] by (simp add: spec_eval)
  show thesis
    by (rule that [OF e]) (simp_all add: ranges_over_def ix fsm_Snapshot_def Snapshot_def expired_def entries_size_def engine_Get_def)
qed

theorem snapshot_transfer_witness:
  fixes sink :: "bytes SnapshotSink"
  defines "sink \<equiv> \<lparr>sink_Write = \<lambda>b k. (True, k @ b), sink_Close = \<lambda>k. (True, k), sink_Cancel = \<lambda>k. []\<rparr>"
  shows "\<exists>e k1 f1. engine_Get 5 [0x6b] e = Some ([0x76], 1)
    \<and> Persist sample_registry sink (fsm_Snapshot [([0x6b], 0)] e) [] = (None, k1)
    \<and> fsm_Restore \<lparr>rd_bytes = k1, rd_end = None\<rparr> (engine_of [] []) = Ret (None, f1)
    \<and> map_option fst (engine_Get 5 [0x6b] f1) = Some [0x76]"
proof -
  obtain e where e: "replica e [at_end (put_record [0x6b] [0x76] 0 []) []]" "ranges_over [([0x6b], 0)] e"
    "entries_size (fsm_Snapshot [([0x6b], 0)] e) < 2 ^ 32 - 9" "engine_Get 5 [0x6b] e = Some ([0x76], 1)"
    by (rule sample_snapshot)
  have "\<exists>k1 f1. Persist sample_registry sink (fsm_Snapshot [([0x6b], 0)] e) [] = (None, k1)
    \<and> fsm_Restore \<lparr>rd_bytes = id k1, rd_end = None\<rparr> (engine_of [] []) = Ret (None, f1)
    \<and> (\<forall>key. map_option fst (engine_Get 5 key f1) = map_option fst (engine_Get 5 key e))"
    by (rule snapshot_transfer [OF e(1) replica_new e(2) _ sample_registry_ok e(3)]) (simp_all add: sink_def)
  with e(4) show ?thesis by (metis fst_conv id_apply option.simps(9))
qed

end
