(* ===== verification/RespSpec.thy ===== *)
theory RespSpec
  imports Resp Replication
begin

text \<open>
  What the Redis adapter promises: a client that sends any number of commands at once gets one
  well-formed reply for each, in order, and the replies are those of a store that is the
  function of the committed records.
\<close>

section \<open>The client's side\<close>

definition encode_bulk :: "bytes \<Rightarrow> bytes" where
  "encode_bulk b = lit ''$'' @ itoa (length b) @ crlf @ b @ crlf"

definition encode_command :: "resp_command \<Rightarrow> bytes" where
  "encode_command cmd =
     lit ''*'' @ itoa (Suc (length (Args cmd))) @ crlf @ concat (map encode_bulk (Name cmd # Args cmd))"

datatype reply = RSimple bytes | RError bytes | RInteger int | RBulk bytes | RNull

fun reply_bytes :: "reply \<Rightarrow> bytes" where
  "reply_bytes (RSimple s) = lit ''+'' @ s @ crlf"
| "reply_bytes (RError s) = lit ''-ERR '' @ s @ crlf"
| "reply_bytes (RInteger n) = lit '':'' @ format_int n @ crlf"
| "reply_bytes (RBulk b) = lit ''$'' @ format_int (int (length b)) @ crlf @ b @ crlf"
| "reply_bytes RNull = lit ''$-1'' @ crlf"

text \<open>How a client reads one reply: a line, and the bytes of a bulk string.\<close>

definition split_line :: "bytes \<Rightarrow> (bytes \<times> bytes) option" where
  "split_line bs =
     (let line = takeWhile (\<lambda>b. b \<noteq> 10) bs; rest = dropWhile (\<lambda>b. b \<noteq> 10) bs in
      if rest = [] \<or> line = [] \<or> last line \<noteq> 13 then None else Some (butlast line, tl rest))"

definition parse_reply :: "bytes \<Rightarrow> (reply \<times> bytes) option" where
  "parse_reply bs =
     (case split_line bs of
        None \<Rightarrow> None
      | Some (line, rest) \<Rightarrow>
          (case line of
             [] \<Rightarrow> None
           | c # cs \<Rightarrow>
               if c = 43 then Some (RSimple cs, rest)
               else if c = 45 then (if take 4 cs = lit ''ERR '' then Some (RError (drop 4 cs), rest) else None)
               else if c = 58 then map_option (\<lambda>n. (RInteger n, rest)) (ParseInt cs)
               else if c = 36 then
                 (case ParseInt cs of
                    None \<Rightarrow> None
                  | Some n \<Rightarrow>
                      if n < 0 then Some (RNull, rest)
                      else if nat n + 2 \<le> length rest \<and> take 2 (drop (nat n) rest) = crlf
                      then Some (RBulk (take (nat n) rest), drop (nat n + 2) rest)
                      else None)
               else None))"

section \<open>Lines\<close>

lemma takeWhile_line: "10 \<notin> set line \<Longrightarrow>
    takeWhile (\<lambda>b. b \<noteq> 10) (line @ crlf @ rest) = line @ [13] \<and> dropWhile (\<lambda>b. b \<noteq> 10) (line @ crlf @ rest) = 10 # rest"
  for line :: bytes
  by (induction line) (auto simp: crlf_def)

lemma readLine_line [simp]:
  "10 \<notin> set line \<Longrightarrow> readLine \<lparr>rd_bytes = line @ crlf @ rest, rd_end = e\<rparr> = (Inr line, \<lparr>rd_bytes = rest, rd_end = e\<rparr>)"
  using takeWhile_line [of line rest] by (simp add: readLine_def ReadBytes_def crlf_def)

lemma split_line_line: "10 \<notin> set line \<Longrightarrow> split_line (line @ crlf @ rest) = Some (line, rest)"
  using takeWhile_line [of line rest] by (simp add: split_line_def)

section \<open>Commands come through\<close>

definition part_ok :: "bytes \<Rightarrow> bool" where
  "part_ok b \<longleftrightarrow> length b + 2 \<le> 2 ^ 48"

text \<open>A command that the model's limits on memory and on the records of the log admit.\<close>

definition sent_ok :: "resp_command \<Rightarrow> bool" where
  "sent_ok cmd \<longleftrightarrow> part_ok (Name cmd) \<and> 24 * Suc (length (Args cmd)) \<le> 2 ^ 48
     \<and> 37 + sum_list (map length (Args cmd)) < 2 ^ 32"

lemma sent_ok_arg:
  assumes "sent_ok cmd" and "a \<in> set (Args cmd)"
  shows "37 + length a < 2 ^ 32"
  using assms member_le_sum_list [of "length a" "map length (Args cmd)"] by (simp add: sent_ok_def)

lemma set_args_fit:
  assumes "sent_ok cmd" and "2 \<le> length (Args cmd)"
  shows "fits (put_record (Args cmd ! 0) (Args cmd ! 1) expiry [])"
proof -
  from assms(2) obtain a b more where "Args cmd = a # b # more" by (cases "Args cmd"; cases "tl (Args cmd)") auto
  with assms(1) show ?thesis by (simp add: sent_ok_def fits_def put_record_def)
qed

lemma sent_ok_parts: "sent_ok cmd \<Longrightarrow> list_all part_ok (Name cmd # Args cmd)"
  using sent_ok_arg [of cmd] by (fastforce simp: sent_ok_def part_ok_def list_all_iff)

lemma readBulkString_encode:
  assumes "part_ok b"
  shows "readBulkString \<lparr>rd_bytes = encode_bulk b @ rest, rd_end = e\<rparr> = Ret (Inr b, \<lparr>rd_bytes = rest, rd_end = e\<rparr>)"
proof -
  let ?line = "lit ''$'' @ itoa (length b)"
  have "10 \<notin> set ?line" using itoa_bytes [of 10 "length b"] by (auto simp: lit_def)
  then have line: "readLine \<lparr>rd_bytes = encode_bulk b @ rest, rd_end = e\<rparr> =
      (Inr ?line, \<lparr>rd_bytes = b @ crlf @ rest, rd_end = e\<rparr>)"
    using readLine_line [of ?line "b @ crlf @ rest" e] by (simp add: encode_bulk_def)
  have n: "length b + 2 \<le> 2 ^ 48" using assms by (simp add: part_ok_def)
  then have "sint (of_int (int (length b)) + 2 :: i64) = int (length b + 2)"
    using sint_of_nat_64 [of "length b + 2"] by (simp add: add.commute)
  with n have "make_ok 1 (of_int (int (length b)) + 2)" by (simp add: make_ok_def maxAlloc_def)
  moreover have "ParseInt (itoa (length b)) = Some (int (length b))" using n by simp
  moreover have "ReadFull (length b + 2) \<lparr>rd_bytes = b @ crlf @ rest, rd_end = e\<rparr> = (Inr (b @ crlf), \<lparr>rd_bytes = rest, rd_end = e\<rparr>)"
    by (simp add: ReadFull_def crlf_def)
  ultimately show ?thesis using line by (simp add: readBulkString_def lit_def)
qed

lemma readParts_encode:
  "list_all part_ok bs \<Longrightarrow> readParts (length bs) \<lparr>rd_bytes = concat (map encode_bulk bs) @ rest, rd_end = e\<rparr> =
    Ret (Inr bs, \<lparr>rd_bytes = rest, rd_end = e\<rparr>)"
  by (induction bs) (simp_all add: readBulkString_encode)

lemma ReadCommand_encode:
  assumes "sent_ok cmd"
  shows "ReadCommand \<lparr>rd_bytes = encode_command cmd @ rest, rd_end = e\<rparr> = Ret (Inr cmd, \<lparr>rd_bytes = rest, rd_end = e\<rparr>)"
proof -
  define n where "n = Suc (length (Args cmd))"
  let ?line = "lit ''*'' @ itoa n"
  let ?parts = "Name cmd # Args cmd"
  have "10 \<notin> set ?line" using itoa_bytes [of 10 n] by (auto simp: lit_def)
  then have line: "readLine \<lparr>rd_bytes = encode_command cmd @ rest, rd_end = e\<rparr> =
      (Inr ?line, \<lparr>rd_bytes = concat (map encode_bulk ?parts) @ rest, rd_end = e\<rparr>)"
    using readLine_line [of ?line "concat (map encode_bulk ?parts) @ rest" e] by (simp add: encode_command_def n_def)
  have n: "24 * n \<le> 2 ^ 48" "1 \<le> n" using assms by (simp_all add: sent_ok_def n_def)
  then have "sint (of_int (int n) :: i64) = int n" using sint_of_nat_64 [of n] by simp
  with n have "make_ok 24 (of_int (int n))" by (simp add: make_ok_def maxAlloc_def)
  moreover have "ParseInt (itoa n) = Some (int n)" using n by (intro ParseInt_itoa) simp
  moreover have "readParts n \<lparr>rd_bytes = concat (map encode_bulk ?parts) @ rest, rd_end = e\<rparr> = Ret (Inr ?parts, \<lparr>rd_bytes = rest, rd_end = e\<rparr>)"
    using readParts_encode [OF sent_ok_parts [OF assms], of rest e] by (simp add: n_def del: readParts.simps)
  ultimately show ?thesis using line n(2) by (simp add: ReadCommand_def lit_def)
qed

section \<open>Replies come through\<close>

fun reply_ok :: "reply \<Rightarrow> bool" where
  "reply_ok (RSimple s) \<longleftrightarrow> 10 \<notin> set s"
| "reply_ok (RError s) \<longleftrightarrow> 10 \<notin> set s"
| "reply_ok (RInteger n) \<longleftrightarrow> - (2 ^ 63) \<le> n \<and> n < 2 ^ 63"
| "reply_ok (RBulk b) \<longleftrightarrow> length b < 2 ^ 63"
| "reply_ok RNull \<longleftrightarrow> True"

lemma split_line_cons: "10 \<notin> set line \<Longrightarrow> c \<noteq> 10 \<Longrightarrow> split_line (c # line @ crlf @ rest) = Some (c # line, rest)"
  using split_line_line [of "c # line" rest] by simp

lemma parse_reply_bytes:
  assumes "reply_ok r"
  shows "parse_reply (reply_bytes r @ rest) = Some (r, rest)"
proof (cases r)
  case (RSimple s)
  with assms show ?thesis by (simp add: parse_reply_def lit_def split_line_cons)
next
  case (RError s)
  with assms split_line_cons [of "lit ''ERR '' @ s" 45 rest] show ?thesis by (simp add: parse_reply_def lit_def)
next
  case (RInteger n)
  with assms show ?thesis by (simp add: parse_reply_def lit_def split_line_cons ParseInt_format)
next
  case (RBulk b)
  with assms have "ParseInt (format_int (int (length b))) = Some (int (length b))" by (simp add: ParseInt_format)
  with RBulk split_line_cons [of "format_int (int (length b))" 36 "b @ crlf @ rest"] show ?thesis
    by (simp add: parse_reply_def lit_def) (simp add: crlf_def)
next
  case RNull
  have "ParseInt (lit ''-1'') = Some (- 1)" by (simp add: ParseInt_def ParseInt_bits_def lit_def digits_value_def is_digit_def)
  with RNull split_line_cons [of "lit ''-1''" 36 rest] show ?thesis by (simp add: parse_reply_def lit_def)
qed

primrec parse_replies :: "nat \<Rightarrow> bytes \<Rightarrow> (reply list \<times> bytes) option" where
  "parse_replies 0 bs = Some ([], bs)"
| "parse_replies (Suc n) bs =
     (case parse_reply bs of
        None \<Rightarrow> None
      | Some (r, bs1) \<Rightarrow> map_option (apfst ((#) r)) (parse_replies n bs1))"

lemma parse_replies_bytes:
  "\<forall>r \<in> set rs. reply_ok r \<Longrightarrow> parse_replies (length rs) (concat (map reply_bytes rs) @ rest) = Some (rs, rest)"
  by (induction rs) (simp_all add: parse_reply_bytes)

section \<open>Specification\<close>

definition spec_read :: "int \<Rightarrow> bytes \<Rightarrow> Record list \<Rightarrow> bytes option" where
  "spec_read now key rs =
     (case fst (tables_of rs) key of None \<Rightarrow> None | Some ent \<Rightarrow> if expired now ent then None else Some (ent_value ent))"

definition spec_append :: "Record \<Rightarrow> Record list \<Rightarrow> Record list" where
  "spec_append rec rs = rs @ [at_end rec rs]"

fun spec_del :: "(nat \<Rightarrow> int) \<Rightarrow> nat \<Rightarrow> bytes list \<Rightarrow> int \<Rightarrow> Record list \<Rightarrow> int \<times> Record list" where
  "spec_del clk i [] n rs = (n, rs)"
| "spec_del clk i (key # keys) n rs =
     (if spec_read (clk i) key rs = None then spec_del clk (Suc i) keys n rs
      else spec_del clk (Suc i) keys (n + 1) (spec_append (delete_record key []) rs))"

text \<open>
  The declared options of \<^verbatim>\<open>SET key value\<close>: none, or \<^verbatim>\<open>EX\<close> in any case with a positive number of seconds;
  anything else is an error.
\<close>

fun set_options :: "bytes list \<Rightarrow> bytes + i64" where
  "set_options [] = Inr 0"
| "set_options [opt, secs] =
     (if opt \<in> {lit ''EX'', lit ''Ex'', lit ''eX'', lit ''ex''}
      then (case ParseInt secs of
              Some n \<Rightarrow> if 0 < n then Inr (of_int n) else Inl (lit ''invalid expire time in 'set' command'')
            | None \<Rightarrow> Inl (lit ''invalid expire time in 'set' command''))
      else Inl (lit ''unsupported SET option (only EX is implemented)''))"
| "set_options _ = Inl (lit ''unsupported SET option (only EX is implemented)'')"

text \<open>
  The commands the refinement is about: a \<^verbatim>\<open>SET\<close> has at most one option with its value.  The code does
  not look at what follows \<^verbatim>\<open>EX seconds\<close>, see \<open>set_ttl_ignores_rest\<close>.
\<close>

definition one_option :: "resp_command \<Rightarrow> bool" where
  "one_option cmd \<longleftrightarrow> (ToUpper (Name cmd) = lit ''SET'' \<longrightarrow> length (Args cmd) \<le> 4)"

definition spec_dispatch :: "(nat \<Rightarrow> int) \<Rightarrow> resp_command \<Rightarrow> Record list \<Rightarrow> reply \<times> Record list" where
  "spec_dispatch clk cmd rs =
     (let name = ToUpper (Name cmd); n = length (Args cmd) in
      if name = lit ''PING'' then (RSimple (lit ''PONG''), rs)
      else if name = lit ''GET'' then
        if n \<noteq> 1 then (RError (lit ''wrong number of arguments for 'get' command''), rs)
        else (case spec_read (clk 0) (hd (Args cmd)) rs of None \<Rightarrow> (RNull, rs) | Some v \<Rightarrow> (RBulk v, rs))
      else if name = lit ''SET'' then
        if n < 2 then (RError (lit ''wrong number of arguments for 'set' command''), rs)
        else (case set_options (drop 2 (Args cmd)) of
                Inl msg \<Rightarrow> (RError msg, rs)
              | Inr ttl \<Rightarrow>
                  (RSimple (lit ''OK''), spec_append (put_record (Args cmd ! 0) (Args cmd ! 1) (ttl_expiry (clk 0) ttl) []) rs))
      else if name = lit ''DEL'' then
        if n < 1 then (RError (lit ''wrong number of arguments for 'del' command''), rs)
        else apfst RInteger (spec_del clk 0 (Args cmd) 0 rs)
      else (RError (unknown_command (Name cmd)), rs))"

section \<open>The server refines the specification\<close>

lemma replica_read: "replica e rs \<Longrightarrow> spec_read now key rs = map_option fst (engine_Get now key e)"
  by (simp add: spec_read_def replica_Get split: option.split)

lemma upper_byte:
  "(if 97 \<le> b \<and> b \<le> 122 then b - 32 else b) = 69 \<longleftrightarrow> b = 69 \<or> b = 101"
  "(if 97 \<le> b \<and> b \<le> 122 then b - 32 else b) = 88 \<longleftrightarrow> b = 88 \<or> b = 120" for b :: byte
  by (auto simp: diff_eq_eq)

lemma EqualFold_EX: "EqualFold opt (lit ''EX'') \<longleftrightarrow> opt \<in> {lit ''EX'', lit ''Ex'', lit ''eX'', lit ''ex''}"
  by (auto simp: EqualFold_def lit_def map_eq_Cons_conv upper_byte)

lemma set_ttl_options:
  assumes "2 \<le> length args" and "length args \<le> 4"
  shows "set_ttl args = set_options (drop 2 args)"
proof -
  from assms(1) obtain a b opts where args: "args = a # b # opts" by (metis One_nat_def Suc_1 Suc_le_length_iff)
  then consider "opts = []" | x where "opts = [x]" | x y where "opts = [x, y]"
    using assms(2) by (cases opts; cases "tl opts") auto
  then show ?thesis
    by cases (simp_all add: args set_ttl_def EqualFold_EX split: option.split)
qed

lemma replica_append:
  assumes "replica e rs" and "fits rec" and "IdempotencyKey rec = []"
  shows "\<exists>e1. commit rec e = (Inr (put_outcome (of_nat (Suc (length rs)))), e1) \<and> replica e1 (spec_append rec rs)"
  using replica_commit [OF assms(1,2)] by (simp add: spec_commit_def spec_append_def)

lemma del_keys_spec:
  assumes "replica e rs" and "\<forall>key \<in> set keys. 37 + length key < 2 ^ 32"
  shows "\<exists>e1. del_keys clk i keys n e = (Inr (fst (spec_del clk i keys n rs)), e1) \<and> replica e1 (snd (spec_del clk i keys n rs))"
  using assms
proof (induction keys arbitrary: i n e rs)
  case (Cons key keys)
  show ?case
  proof (cases "engine_Get (clk i) key e")
    case None
    with Cons.IH [OF Cons.prems(1)] Cons.prems(2) replica_read [OF Cons.prems(1)] show ?thesis by simp
  next
    case (Some x)
    have "fits (delete_record key [])" using Cons.prems(2) by (simp add: fits_def delete_record_def)
    from replica_append [OF Cons.prems(1) this] obtain e1 where
      e1: "engine_Delete key [] e = (Inr (put_outcome (of_nat (Suc (length rs)))), e1)" "replica e1 (spec_append (delete_record key []) rs)"
      by (auto simp: engine_Delete_commit replayed_def delete_record_def)
    with Some Cons.IH [OF e1(2)] Cons.prems(2) replica_read [OF Cons.prems(1)] show ?thesis by simp
  qed
qed simp

lemma spec_del_bound: "n \<le> fst (spec_del clk i keys n rs) \<and> fst (spec_del clk i keys n rs) \<le> n + int (length keys)"
  by (induction clk i keys n rs rule: spec_del.induct) auto

text \<open>A reply is written whole to a connection that works.\<close>

lemma writes_healthy:
  assumes "healthy w"
  shows "WriteSimpleString s w = (None, w\<lparr>content := content w @ reply_bytes (RSimple s)\<rparr>)"
    and "WriteError s w = (None, w\<lparr>content := content w @ reply_bytes (RError s)\<rparr>)"
    and "WriteInteger n w = (None, w\<lparr>content := content w @ reply_bytes (RInteger n)\<rparr>)"
    and "WriteBulkString b w = (None, w\<lparr>content := content w @ reply_bytes (RBulk b)\<rparr>)"
    and "WriteNullBulkString w = (None, w\<lparr>content := content w @ reply_bytes RNull\<rparr>)"
  using assms
  by (simp_all add: WriteSimpleString_def WriteError_def WriteInteger_def WriteBulkString_def WriteNullBulkString_def conn_Write_def)

definition connected :: "osfile \<times> engine \<Rightarrow> bytes \<times> Record list \<Rightarrow> bool" where
  "connected = (\<lambda>(w, e) (out, rs). healthy w \<and> content w = out \<and> replica e rs)"

definition resp_step :: "(engine_error \<Rightarrow> bytes) \<Rightarrow> (nat \<Rightarrow> nat \<Rightarrow> int) \<Rightarrow> nat \<times> resp_command \<Rightarrow> osfile \<times> engine
    \<Rightarrow> (os_error option \<times> osfile \<times> engine) go" where
  "resp_step errtext clk = (\<lambda>(i, cmd) s. Ret (dispatch errtext (clk i) cmd s))"

definition spec_resp_step :: "(nat \<Rightarrow> nat \<Rightarrow> int) \<Rightarrow> nat \<times> resp_command \<Rightarrow> bytes \<times> Record list
    \<Rightarrow> os_error option \<times> bytes \<times> Record list" where
  "spec_resp_step clk = (\<lambda>(i, cmd) (out, rs). (None, apfst (\<lambda>r. out @ reply_bytes r) (spec_dispatch (clk i) cmd rs)))"

lemma dispatch_spec:
  assumes "connected (w, e) (out, rs)" and "sent_ok cmd" and "one_option cmd"
  shows "\<exists>s1. dispatch errtext clk cmd (w, e) = (None, s1)
    \<and> connected s1 (apfst (\<lambda>r. out @ reply_bytes r) (spec_dispatch clk cmd rs))"
proof -
  from assms(1) have w: "healthy w" "content w = out" and e: "replica e rs" by (simp_all add: connected_def)
  note writes = writes_healthy [OF w(1)] w connected_def
  consider (ping) "ToUpper (Name cmd) = lit ''PING''" | (get) "ToUpper (Name cmd) = lit ''GET''"
    | (set) "ToUpper (Name cmd) = lit ''SET''" | (del) "ToUpper (Name cmd) = lit ''DEL''"
    | (unknown) "ToUpper (Name cmd) \<notin> {lit ''PING'', lit ''GET'', lit ''SET'', lit ''DEL''}" by blast
  then show ?thesis
  proof cases
    case ping
    then show ?thesis using e by (simp add: dispatch_def spec_dispatch_def writes)
  next
    case get
    have "spec_read (clk 0) (hd (Args cmd)) rs = map_option fst (engine_Get (clk 0) (hd (Args cmd)) e)" by (rule replica_read [OF e])
    with get e show ?thesis
      by (cases "Args cmd"; cases "engine_Get (clk 0) (hd (Args cmd)) e") (auto simp: dispatch_def spec_dispatch_def writes lit_def)
  next
    case set
    show ?thesis
    proof (cases "length (Args cmd) < 2")
      case True
      with set e show ?thesis by (simp add: dispatch_def spec_dispatch_def writes lit_def)
    next
      case False
      then have opts: "set_ttl (Args cmd) = set_options (drop 2 (Args cmd))"
        using set assms(3) by (intro set_ttl_options) (simp_all add: one_option_def)
      show ?thesis
      proof (cases "set_ttl (Args cmd)")
        case (Inl msg)
        then have "set_options (drop 2 (Args cmd)) = Inl msg" unfolding opts .
        with Inl set False e show ?thesis by (simp add: dispatch_def spec_dispatch_def writes lit_def)
      next
        case (Inr ttl)
        let ?r = "put_record (Args cmd ! 0) (Args cmd ! 1) (ttl_expiry (clk 0) ttl) []"
        have "fits ?r" using set_args_fit [OF assms(2)] False by simp
        from replica_append [OF e this] obtain e1 where
          "engine_Put (clk 0) (Args cmd ! 0) (Args cmd ! 1) ttl [] e = (Inr (put_outcome (of_nat (Suc (length rs)))), e1)"
          "replica e1 (spec_append ?r rs)"
          by (auto simp: engine_Put_def ApplyPut_commit replayed_def put_record_def)
        moreover have "set_options (drop 2 (Args cmd)) = Inr ttl" using Inr unfolding opts .
        ultimately show ?thesis using set False Inr by (simp add: dispatch_def spec_dispatch_def writes lit_def)
      qed
    qed
  next
    case del
    obtain n rs1 where n: "spec_del clk 0 (Args cmd) 0 rs = (n, rs1)" by force
    from del_keys_spec [OF e, of "Args cmd" clk 0 0] sent_ok_arg [OF assms(2)] n obtain e1 where
      "del_keys clk 0 (Args cmd) 0 e = (Inr n, e1)" "replica e1 rs1" by auto
    with del e n show ?thesis by (cases "Args cmd = []") (simp_all add: dispatch_def spec_dispatch_def writes lit_def Suc_le_eq)
  next
    case unknown
    then show ?thesis using e by (simp add: dispatch_def spec_dispatch_def writes)
  qed
qed

interpretation redis: refinement "resp_step errtext clk" "spec_resp_step clk" connected "\<lambda>(i, cmd). sent_ok cmd \<and> one_option cmd"
proof
  fix s :: "osfile \<times> engine" and a :: "bytes \<times> Record list" and i :: "nat \<times> resp_command"
  assume rel: "connected s a" and ok: "case i of (i, cmd) \<Rightarrow> sent_ok cmd \<and> one_option cmd"
  obtain w e out rs j cmd where split: "s = (w, e)" "a = (out, rs)" "i = (j, cmd)" by (cases s; cases a; cases i) blast
  from dispatch_spec [of w e out rs cmd errtext "clk j"] rel ok obtain s1 where
    "dispatch errtext (clk j) cmd (w, e) = (None, s1)"
    "connected s1 (apfst (\<lambda>r. out @ reply_bytes r) (spec_dispatch (clk j) cmd rs))" by (auto simp: split)
  then show "\<exists>s1. resp_step errtext clk i s = Ret (fst (spec_resp_step clk i a), s1) \<and> connected s1 (snd (spec_resp_step clk i a))"
    by (simp add: split resp_step_def spec_resp_step_def)
qed

section \<open>Sessions\<close>

lemma handleConn_runs:
  assumes "run_go (resp_step errtext clk) (enumerate i cmds) s = Ret (replicate (length cmds) None, s1)"
    and "\<forall>cmd \<in> set cmds. sent_ok cmd"
  shows "handleConn errtext clk i \<lparr>rd_bytes = concat (map encode_command cmds), rd_end = e\<rparr> s = Ret s1"
  using assms
proof (induction cmds arbitrary: i s)
  case Nil
  then show ?case by (simp add: handleConn.simps ReadCommand_def readLine_def ReadBytes_def)
next
  case (Cons cmd cmds)
  obtain x s0 where d: "dispatch errtext (clk i) cmd s = (x, s0)" by (cases "dispatch errtext (clk i) cmd s") blast
  from Cons.prems(1) d have "x = None" and run: "run_go (resp_step errtext clk) (enumerate (Suc i) cmds) s0 = Ret (replicate (length cmds) None, s1)"
    by (auto simp: resp_step_def go_bind_eq_Ret)
  with d Cons.IH [OF run] Cons.prems(2) ReadCommand_encode [of cmd "concat (map encode_command cmds)" e] show ?case
    by (subst handleConn.simps) simp
qed

text \<open>The replies of a session, and the records after it.\<close>

definition spec_session :: "(nat \<Rightarrow> nat \<Rightarrow> int) \<Rightarrow> nat \<Rightarrow> resp_command list \<Rightarrow> Record list \<Rightarrow> reply list \<times> Record list" where
  "spec_session clk i cmds = run_spec (\<lambda>(i, cmd). spec_dispatch (clk i) cmd) (enumerate i cmds)"

lemma spec_session_simps [simp]:
  "spec_session clk i [] rs = ([], rs)"
  "spec_session clk i (cmd # cmds) rs =
     (case spec_dispatch (clk i) cmd rs of (r, rs1) \<Rightarrow> apfst ((#) r) (spec_session clk (Suc i) cmds rs1))"
  by (simp_all add: spec_session_def apfst_def map_prod_def)

lemma run_spec_session:
  "run_spec (spec_resp_step clk) (enumerate i cmds) (out, rs) =
     (replicate (length cmds) None, out @ concat (map reply_bytes (fst (spec_session clk i cmds rs))), snd (spec_session clk i cmds rs))"
proof (induction cmds arbitrary: i out rs)
  case (Cons cmd cmds)
  obtain r rs1 where "spec_dispatch (clk i) cmd rs = (r, rs1)" by force
  with Cons [of "Suc i" "out @ reply_bytes r" rs1] show ?case by (simp add: spec_resp_step_def)
qed simp

lemma tables_of_value:
  "fst (tables_of rs) key = Some ent \<Longrightarrow> \<exists>r \<in> set rs. ent_value ent = Value r"
proof (induction rs rule: rev_induct)
  case (snoc r rs)
  then show ?case
    by (cases "tables_of rs") (auto simp: tables_of_def put_entry_def split: if_splits)
qed (simp add: tables_of_def)

definition all_fit :: "Record list \<Rightarrow> bool" where
  "all_fit rs \<longleftrightarrow> (\<forall>r \<in> set rs. fits r)"

lemma all_fit_append: "all_fit rs \<Longrightarrow> fits rec \<Longrightarrow> all_fit (spec_append rec rs)"
  by (simp add: all_fit_def spec_append_def fits_def)

lemma spec_read_fits: "all_fit rs \<Longrightarrow> spec_read now key rs = Some v \<Longrightarrow> length v < 2 ^ 32"
  using tables_of_value [of rs key] by (fastforce simp: spec_read_def all_fit_def fits_def split: option.splits if_splits)

lemma spec_del_fits:
  "all_fit rs \<Longrightarrow> \<forall>key \<in> set keys. 37 + length key < 2 ^ 32 \<Longrightarrow> all_fit (snd (spec_del clk i keys n rs))"
proof (induction clk i keys n rs rule: spec_del.induct)
  case (2 clk i key keys n rs)
  have "fits (delete_record key [])" using 2(4) by (simp add: fits_def delete_record_def)
  with 2 all_fit_append show ?case by simp
qed simp

lemma no_LF [simp]: "10 \<notin> set (unknown_command name) \<longleftrightarrow> 10 \<notin> set name"
  by (simp add: unknown_command_def lit_def)

lemma set_options_no_LF: "set_options opts = Inl msg \<Longrightarrow> 10 \<notin> set msg"
  by (cases opts rule: set_options.cases) (auto simp: lit_def split: if_splits option.splits)

lemma spec_dispatch_ok:
  assumes "sent_ok cmd" and "10 \<notin> set (Name cmd)" and "all_fit rs"
  shows "reply_ok (fst (spec_dispatch clk cmd rs)) \<and> all_fit (snd (spec_dispatch clk cmd rs))"
proof -
  have bulk: "length v < 2 ^ 63" if "spec_read (clk 0) (hd (Args cmd)) rs = Some v" for v
    using spec_read_fits [OF assms(3) that] by simp
  have "int (length (Args cmd)) < 2 ^ 63" using assms(1) by (simp add: sent_ok_def)
  then have del: "reply_ok (RInteger (fst (spec_del clk 0 (Args cmd) 0 rs)))" "all_fit (snd (spec_del clk 0 (Args cmd) 0 rs))"
    using spec_del_bound [of 0 clk 0 "Args cmd" rs] spec_del_fits [OF assms(3), of "Args cmd"] sent_ok_arg [OF assms(1)] by auto
  have put: "all_fit (spec_append (put_record (Args cmd ! 0) (Args cmd ! 1) expiry []) rs)" if "\<not> length (Args cmd) < 2" for expiry
    using all_fit_append [OF assms(3) set_args_fit [OF assms(1)]] that by simp
  show ?thesis
    using assms(2,3) bulk put del set_options_no_LF [of "drop 2 (Args cmd)"]
    by (auto simp: spec_dispatch_def Let_def lit_def split: option.split sum.split)
qed

lemma spec_session_ok:
  "\<forall>cmd \<in> set cmds. sent_ok cmd \<and> 10 \<notin> set (Name cmd) \<Longrightarrow> all_fit rs
    \<Longrightarrow> (\<forall>r \<in> set (fst (spec_session clk i cmds rs)). reply_ok r) \<and> length (fst (spec_session clk i cmds rs)) = length cmds"
proof (induction cmds arbitrary: i rs)
  case (Cons cmd cmds)
  obtain r rs1 where d: "spec_dispatch (clk i) cmd rs = (r, rs1)" by force
  with spec_dispatch_ok [of cmd rs "clk i"] Cons.prems have "reply_ok r" "all_fit rs1" by auto
  with Cons.IH [of rs1 "Suc i"] Cons.prems(1) d show ?case by simp
qed simp

lemma replica_all_fit: "replica e rs \<Longrightarrow> all_fit rs"
  using engine_inv_wf [of e rs] by (auto simp: replica_def all_fit_def well_formed_def)

section \<open>Properties\<close>

text \<open>
  C12. The Redis adapter answers every pipeline: when a client sends any number of commands at once over a
  connection that works, known ones or not, with right or wrong arguments, the server neither panics nor
  stops, what it writes splits into exactly one well-formed reply for each command, in order, the
  replies are those of the specification over the committed records, and the engine ends with
  the records of the specification.  The names of the commands have no line feed in them, a \<^verbatim>\<open>SET\<close>
  has at most one option with its value, the arguments fit a record, and the disk works.
\<close>

theorem resp_session:
  assumes "replica e rs" and "healthy w" and "\<forall>cmd \<in> set cmds. sent_ok cmd \<and> 10 \<notin> set (Name cmd) \<and> one_option cmd"
  shows "\<exists>w1 e1 out. handleConn errtext clk 0 \<lparr>rd_bytes = concat (map encode_command cmds), rd_end = end_of\<rparr> (w, e) = Ret (w1, e1)
    \<and> content w1 = content w @ out
    \<and> parse_replies (length cmds) out = Some (fst (spec_session clk 0 cmds rs), [])
    \<and> replica e1 (snd (spec_session clk 0 cmds rs))"
proof -
  have "connected (w, e) (content w, rs)" using assms(1,2) by (simp add: connected_def)
  moreover have "\<forall>(i, cmd) \<in> set (enumerate 0 cmds). sent_ok cmd \<and> one_option cmd"
    using assms(3) by (auto simp: in_set_enumerate_eq)
  ultimately obtain s1 where
    run: "run_go (resp_step errtext clk) (enumerate 0 cmds) (w, e) = Ret (replicate (length cmds) None, s1)"
    and s1: "connected s1 (content w @ concat (map reply_bytes (fst (spec_session clk 0 cmds rs))), snd (spec_session clk 0 cmds rs))"
    using redis.run [of "(w, e)" "(content w, rs)" "enumerate 0 cmds" errtext clk] unfolding run_spec_session fst_conv snd_conv
    by blast
  from spec_session_ok [OF _ replica_all_fit [OF assms(1)], of cmds clk 0] assms(3)
  have "parse_replies (length cmds) (concat (map reply_bytes (fst (spec_session clk 0 cmds rs)))) = Some (fst (spec_session clk 0 cmds rs), [])"
    using parse_replies_bytes [of "fst (spec_session clk 0 cmds rs)" "[]"] by auto
  moreover have "handleConn errtext clk 0 \<lparr>rd_bytes = concat (map encode_command cmds), rd_end = end_of\<rparr> (w, e) = Ret s1"
    using handleConn_runs [OF run] assms(3) by simp
  ultimately show ?thesis using s1 by (cases s1) (auto simp: connected_def)
qed

definition sample_session :: "resp_command list" where
  "sample_session =
     [\<lparr>Name = lit ''SET'', Args = [[0x6b], [0x76], lit ''Ex'', lit ''9'']\<rparr>, \<lparr>Name = lit ''get'', Args = [[0x6b]]\<rparr>,
      \<lparr>Name = lit ''DEL'', Args = [[0x6b], [0x6c]]\<rparr>, \<lparr>Name = lit ''PING'', Args = []\<rparr>]"

definition sample_conn :: osfile where
  "sample_conn = \<lparr>content = [], durable = 0, closed = False, faults = []\<rparr>"

lemma sample_conn_simps [simp]: "healthy sample_conn" "content sample_conn = []"
  by (simp_all add: sample_conn_def healthy_def)

lemma sample_session_spec:
  "fst (spec_session (\<lambda>_ _. 0) 0 sample_session []) = [RSimple (lit ''OK''), RBulk [0x76], RInteger 1, RSimple (lit ''PONG'')]"
  by (simp add: sample_session_def spec_dispatch_def spec_read_def spec_append_def tables_of_def lit_def put_record_def
      delete_record_def put_entry_def ttl_expiry_def expired_def expiry_time_def
      ParseInt_def ParseInt_bits_def digits_value_def is_digit_def)

theorem resp_session_witness:
  "\<exists>w1 e1. handleConn (\<lambda>_. []) (\<lambda>_ _. 0) 0 \<lparr>rd_bytes = concat (map encode_command sample_session), rd_end = None\<rparr>
      (sample_conn, engine_of [] []) = Ret (w1, e1)
    \<and> parse_replies 4 (content w1) = Some ([RSimple (lit ''OK''), RBulk [0x76], RInteger 1, RSimple (lit ''PONG'')], [])"
proof -
  have "\<forall>cmd \<in> set sample_session. sent_ok cmd \<and> 10 \<notin> set (Name cmd) \<and> one_option cmd"
    by (simp add: sample_session_def sent_ok_def part_ok_def one_option_def lit_def)
  from resp_session [OF replica_new [of "[]"] sample_conn_simps(1) this, of "\<lambda>_. []" "\<lambda>_ _. 0" None]
  have "\<exists>w1 e1 out. handleConn (\<lambda>_. []) (\<lambda>_ _. 0) 0 \<lparr>rd_bytes = concat (map encode_command sample_session), rd_end = None\<rparr>
      (sample_conn, engine_of [] []) = Ret (w1, e1) \<and> content w1 = out
    \<and> parse_replies (length sample_session) out = Some ([RSimple (lit ''OK''), RBulk [0x76], RInteger 1, RSimple (lit ''PONG'')], [])"
    unfolding sample_session_spec sample_conn_simps append_Nil by blast
  moreover have "length sample_session = 4" by (simp add: sample_session_def)
  ultimately show ?thesis by metis
qed

text \<open>Whatever follows \<^verbatim>\<open>EX seconds\<close> in a \<^verbatim>\<open>SET\<close> is not looked at: \<^verbatim>\<open>SET key value EX 10 NX\<close> writes without the condition.\<close>

lemma set_ttl_ignores_rest: "set_ttl (key # val # ex # secs # rest) = set_ttl [key, val, ex, secs]"
  if "EqualFold ex (lit ''EX'')"
  using that by (simp add: set_ttl_def)

text \<open>
  One line from a client takes the node down: a bulk string that announces more bytes than the address
  space has makes the allocation panic, which no handler recovers, whatever the rest of the
  input and the state of the node.
\<close>

lemma handleConn_panics:
  assumes "2 ^ 48 < n + 2" and "n < 2 ^ 63"
  shows "handleConn errtext clk i \<lparr>rd_bytes = lit ''*1'' @ crlf @ lit ''$'' @ itoa n @ crlf @ rest, rd_end = end_of\<rparr> s = Panic"
proof -
  let ?n = "of_int (int n) + 2 :: i64"
  have line1: "readLine \<lparr>rd_bytes = lit ''*1'' @ crlf @ more, rd_end = end_of\<rparr> = (Inr (lit ''*1''), \<lparr>rd_bytes = more, rd_end = end_of\<rparr>)" for more
    by (rule readLine_line) (simp add: lit_def)
  have "10 \<notin> set (lit ''$'' @ itoa n)" using itoa_bytes [of 10 n] by (auto simp: lit_def)
  from readLine_line [OF this, of rest end_of]
  have line2: "readLine \<lparr>rd_bytes = lit ''$'' @ itoa n @ crlf @ rest, rd_end = end_of\<rparr> =
      (Inr (lit ''$'' @ itoa n), \<lparr>rd_bytes = rest, rd_end = end_of\<rparr>)" by simp
  have "\<not> make_ok 1 ?n"
  proof (cases "n + 2 < 2 ^ 63")
    case True
    then have "sint ?n = int (n + 2)" using sint_of_nat_64 [of "n + 2"] by (simp add: add.commute)
    with assms(1) show ?thesis by (simp add: make_ok_def maxAlloc_def)
  next
    case False
    with assms(2) have "n = 2 ^ 63 - 1 \<or> n = 2 ^ 63 - 2" by auto
    then show ?thesis by (auto simp: make_ok_def)
  qed
  then have "readBulkString \<lparr>rd_bytes = lit ''$'' @ itoa n @ crlf @ rest, rd_end = end_of\<rparr> = Panic"
    using line2 assms(2) by (simp add: readBulkString_def) (simp add: lit_def)
  moreover have "ParseInt (lit ''1'') = Some 1" by (simp add: ParseInt_def ParseInt_bits_def lit_def digits_value_def is_digit_def)
  ultimately have "ReadCommand \<lparr>rd_bytes = lit ''*1'' @ crlf @ lit ''$'' @ itoa n @ crlf @ rest, rd_end = end_of\<rparr> = Panic"
    using line1 [of "lit ''$'' @ itoa n @ crlf @ rest"]
    by (simp add: ReadCommand_def make_ok_def maxAlloc_def) (simp add: lit_def make_ok_def maxAlloc_def)
  then show ?thesis by (subst handleConn.simps) simp
qed

lemma handleConn_panics_example:
  "handleConn (\<lambda>_. []) (\<lambda>_ _. 0) 0 \<lparr>rd_bytes = lit ''*1'' @ crlf @ lit ''$9223372036854775807'' @ crlf, rd_end = None\<rparr>
    (sample_conn, engine_of [] []) = Panic"
proof -
  have "itoa 9223372036854775807 = lit ''9223372036854775807''" by (simp add: itoa.simps lit_def)
  with handleConn_panics [of 9223372036854775807 "\<lambda>_. []" "\<lambda>_ _. 0" 0 "[]" None "(sample_conn, engine_of [] [])"]
  show ?thesis by (simp add: lit_def)
qed

text \<open>
  An unknown command may be answered with more than one reply: its name is put into the error message as
  it came, so that a name with a line break in it closes the message, and the client reads next,
  as the answer to its next command, any reply the name spells out.
\<close>

lemma reply_injection:
  assumes "healthy w" and "reply_ok r"
  shows "\<exists>w1 msg out1 out2. dispatch errtext clk \<lparr>Name = lit ''X'' @ crlf @ reply_bytes r, Args = args\<rparr> (w, e) = (None, w1, e)
    \<and> parse_reply (drop (length (content w)) (content w1)) = Some (RError msg, out1) \<and> parse_reply out1 = Some (r, out2)"
proof -
  let ?name = "lit ''X'' @ crlf @ reply_bytes r"
  let ?msg = "lit ''unknown command '' @ [39] @ lit ''X''"
  obtain tail where tail: "reply_bytes (RError (unknown_command ?name)) = reply_bytes (RError ?msg) @ reply_bytes r @ tail"
    by (simp add: unknown_command_def)
  have "ToUpper ?name \<notin> {lit ''PING'', lit ''GET'', lit ''SET'', lit ''DEL''}" by (simp add: lit_def crlf_def)
  then have "dispatch errtext clk \<lparr>Name = ?name, Args = args\<rparr> (w, e) =
      (None, w\<lparr>content := content w @ reply_bytes (RError (unknown_command ?name))\<rparr>, e)"
    by (simp add: dispatch_def Let_def writes_healthy [OF assms(1)] del: reply_bytes.simps)
  moreover have "parse_reply (reply_bytes (RError (unknown_command ?name))) = Some (RError ?msg, reply_bytes r @ tail)"
    unfolding tail by (rule parse_reply_bytes) (simp add: lit_def)
  moreover have "parse_reply (reply_bytes r @ tail) = Some (r, tail)" by (rule parse_reply_bytes [OF assms(2)])
  ultimately show ?thesis
    by (intro exI [of _ "w\<lparr>content := content w @ reply_bytes (RError (unknown_command ?name))\<rparr>"] exI [of _ ?msg]
        exI [of _ "reply_bytes r @ tail"] exI [of _ tail]) (simp del: reply_bytes.simps)
qed

lemma reply_injection_example:
  "\<exists>w1 msg out1 out2. dispatch (\<lambda>_. []) (\<lambda>_. 0) \<lparr>Name = lit ''X'' @ crlf @ lit ''+OK'' @ crlf, Args = []\<rparr>
      (sample_conn, engine_of [] []) = (None, w1, engine_of [] [])
    \<and> parse_reply (content w1) = Some (RError msg, out1) \<and> parse_reply out1 = Some (RSimple (lit ''OK''), out2)"
  using reply_injection [OF sample_conn_simps(1), of "RSimple (lit ''OK'')" "\<lambda>_. []" "\<lambda>_. 0" "[]" "engine_of [] []"]
  by (simp add: healthy_def lit_def)

end
