(* ===== verification/GoFloat.thy ===== *)
theory GoFloat
  imports Complex_Main "HOL-Library.Log_Nat"
begin

text \<open>
  Go's \<^verbatim>\<open>float64\<close> as far as the program computes with it: the result of an operation is the exact
  rational result rounded to the nearest number of 53 significant bits, ties to even.  The program's
  floats are zero or lie well inside the range of normal numbers, so that the exponent has no limits here.
\<close>

type_synonym float64 = rat

section \<open>Rounding to an integer, ties to even\<close>

definition round_even :: "rat \<Rightarrow> int" where
  "round_even x =
     (let n = \<lfloor>x\<rfloor>; d = x - of_int n in
      if d < 1 / 2 \<or> (d = 1 / 2 \<and> even n) then n else n + 1)"

lemma round_even_of_int [simp]: "round_even (of_int n) = n"
  by (simp add: round_even_def)

lemma round_even_floor: "round_even x = \<lfloor>x\<rfloor> \<or> round_even x = \<lfloor>x\<rfloor> + 1"
  by (simp add: round_even_def Let_def)

lemma round_even_mono:
  assumes "x \<le> y"
  shows "round_even x \<le> round_even y"
proof (cases "\<lfloor>x\<rfloor> = \<lfloor>y\<rfloor>")
  case True
  with assms show ?thesis by (auto simp: round_even_def Let_def)
next
  case False
  with floor_mono [OF assms] have "\<lfloor>x\<rfloor> + 1 \<le> \<lfloor>y\<rfloor>" by simp
  with round_even_floor [of x] round_even_floor [of y] show ?thesis by auto
qed

section \<open>The binade of a number\<close>

text \<open>The exponent of the leading bit of a positive number.\<close>

definition binade :: "rat \<Rightarrow> int" where
  "binade x =
     (if 1 \<le> x then int (floorlog 2 (nat \<lfloor>x\<rfloor>)) - 1
      else - int (floorlog 2 (nat (\<lceil>1 / x\<rceil> - 1))))"

lemma floorlog_below: "0 < n \<Longrightarrow> n < 2 ^ floorlog 2 n"
  using floorlog_bounds [of n 2] by simp

lemma floorlog_rat:
  assumes "0 < n"
  shows "(2 :: rat) powi (int (floorlog 2 n) - 1) \<le> of_nat n" "(of_nat n :: rat) < 2 powi int (floorlog 2 n)"
proof -
  from floorlog_bounds [of n 2] assms have b: "2 ^ (floorlog 2 n - 1) \<le> n" "n < 2 ^ floorlog 2 n" by auto
  have "0 < floorlog 2 n" using b(2) assms by (cases "floorlog 2 n") auto
  then have e: "(2 :: rat) powi (int (floorlog 2 n) - 1) = of_nat (2 ^ (floorlog 2 n - 1))" by (simp add: power_int_def nat_diff_distrib)
  show "(2 :: rat) powi (int (floorlog 2 n) - 1) \<le> of_nat n" unfolding e using b(1) by (rule of_nat_mono)
  have "(of_nat n :: rat) < of_nat (2 ^ floorlog 2 n)" using b(2) by (simp only: of_nat_less_iff)
  then show "(of_nat n :: rat) < 2 powi int (floorlog 2 n)" by simp
qed

lemma binade_bounds:
  assumes "0 < x"
  shows "2 powi binade x \<le> x" "x < 2 powi (binade x + 1)"
proof -
  have "2 powi binade x \<le> x \<and> x < 2 powi (binade x + 1)"
  proof (cases "1 \<le> x")
    case True
    let ?n = "nat \<lfloor>x\<rfloor>"
    have n: "0 < ?n" using True by simp
    have nx: "of_nat ?n \<le> x" "x < of_nat ?n + 1" using True floor_correct [of x] by (simp_all add: of_nat_nat)
    have "?n + 1 \<le> 2 ^ floorlog 2 ?n" using floorlog_below [OF n] by (simp only: Suc_eq_plus1 [symmetric] Suc_le_eq)
    then have "(of_nat (?n + 1) :: rat) \<le> of_nat (2 ^ floorlog 2 ?n)" by (simp only: of_nat_le_iff)
    with nx(2) have "x < 2 powi int (floorlog 2 ?n)" by simp
    moreover have "2 powi (int (floorlog 2 ?n) - 1) \<le> x" using floorlog_rat(1) [OF n] nx(1) by linarith
    ultimately show ?thesis using True by (simp add: binade_def)
  next
    case False
    let ?y = "1 / x" and ?n = "nat (\<lceil>1 / x\<rceil> - 1)"
    let ?j = "floorlog 2 ?n"
    have y: "1 < ?y" using False assms by simp
    have n: "0 < ?n" using y by (simp add: less_ceiling_iff)
    have "int ?n = \<lceil>?y\<rceil> - 1" using n by linarith
    then have "(of_nat ?n :: rat) = of_int \<lceil>?y\<rceil> - 1" by (metis of_int_1 of_int_diff of_int_of_nat_eq)
    with ceiling_correct [of ?y] have ny: "of_nat ?n < ?y" "?y \<le> of_nat ?n + 1" by linarith+
    have "?n + 1 \<le> 2 ^ ?j" using floorlog_below [OF n] by (simp only: Suc_eq_plus1 [symmetric] Suc_le_eq)
    then have "(of_nat (?n + 1) :: rat) \<le> of_nat (2 ^ ?j)" by (simp only: of_nat_le_iff)
    with ny(2) have up: "?y \<le> 2 powi int ?j" by simp
    have lo: "2 powi (int ?j - 1) < ?y" using floorlog_rat(1) [OF n] ny(1) by linarith
    have "2 powi (- int ?j) \<le> x" using up assms by (simp add: power_int_minus field_simps)
    moreover have "x < 2 powi (- int ?j + 1)"
    proof -
      have "x < 1 / (2 powi (int ?j - 1))" using lo assms by (simp add: field_simps)
      also have "\<dots> = 2 powi (- (int ?j - 1))" unfolding power_int_minus by (simp add: divide_inverse)
      finally show ?thesis by simp
    qed
    ultimately show ?thesis using False by (simp add: binade_def)
  qed
  then show "2 powi binade x \<le> x" "x < 2 powi (binade x + 1)" by auto
qed

lemma binade_mono:
  assumes "0 < x" and "x \<le> y"
  shows "binade x \<le> binade y"
proof (rule ccontr)
  assume "\<not> ?thesis"
  then have "(2 :: rat) powi (binade y + 1) \<le> 2 powi binade x" by (intro power_int_increasing) auto
  with binade_bounds [OF assms(1)] binade_bounds [of y] assms show False by linarith
qed

section \<open>Rounding to a float\<close>

definition fl :: "rat \<Rightarrow> float64" where
  "fl x = (if x \<le> 0 then 0 else let ulp = 2 powi (binade x - 52) in of_int (round_even (x / ulp)) * ulp)"

lemma fl_bounds:
  assumes "0 < x"
  shows "2 powi binade x \<le> fl x" "fl x \<le> 2 powi (binade x + 1)"
proof -
  define u :: rat where "u = 2 powi (binade x - 52)"
  have u: "0 < u" by (simp add: u_def)
  have e: "2 powi binade x = 2 ^ 52 * u" "2 powi (binade x + 1) = 2 ^ 53 * u"
    using power_int_add [of "2 :: rat" 52 "binade x - 52"] power_int_add [of "2 :: rat" 53 "binade x - 52"]
    by (simp_all add: u_def add.commute)
  have "of_int (2 ^ 52) \<le> x / u" "x / u \<le> of_int (2 ^ 53)"
    using binade_bounds [OF assms, unfolded e] u by (simp_all add: pos_le_divide_eq pos_divide_le_eq)
  from this [THEN round_even_mono] have r: "2 ^ 52 \<le> round_even (x / u)" "round_even (x / u) \<le> 2 ^ 53"
    by (simp_all only: round_even_of_int)
  have fl: "fl x = of_int (round_even (x / u)) * u" using assms by (simp add: fl_def u_def Let_def)
  from r(1) have "(2 ^ 52 :: rat) \<le> of_int (round_even (x / u))" using of_int_le_iff [where 'a = rat, of "2 ^ 52"] by simp
  with u show "2 powi binade x \<le> fl x" unfolding e fl by (intro mult_right_mono) simp_all
  from r(2) have "of_int (round_even (x / u)) \<le> (2 ^ 53 :: rat)" using of_int_le_iff [where 'a = rat, of _ "2 ^ 53"] by simp
  with u show "fl x \<le> 2 powi (binade x + 1)" unfolding e fl by (intro mult_right_mono) simp_all
qed

lemma fl_0 [simp]: "fl 0 = 0"
  by (simp add: fl_def)

lemma fl_pos: "0 < x \<Longrightarrow> 0 < fl x"
  using fl_bounds(1) [of x] by (auto intro: less_le_trans [of 0 "2 powi binade x"])

lemma fl_nonneg [simp]: "0 \<le> fl x"
  using fl_pos [of x] by (cases "0 < x") (auto simp: fl_def)

lemma fl_mono:
  assumes "x \<le> y"
  shows "fl x \<le> fl y"
proof (cases "0 < x")
  case True
  with assms have y: "0 < y" by simp
  show ?thesis
  proof (cases "binade x = binade y")
    case True
    have "x / 2 powi (binade y - 52) \<le> y / 2 powi (binade y - 52)" using assms by (simp add: divide_right_mono)
    from round_even_mono [OF this] show ?thesis using \<open>0 < x\<close> y True by (simp add: fl_def Let_def mult_right_mono)
  next
    case False
    with binade_mono [OF \<open>0 < x\<close> assms] have "(2 :: rat) powi (binade x + 1) \<le> 2 powi binade y"
      by (intro power_int_increasing) auto
    with fl_bounds(2) [OF \<open>0 < x\<close>] fl_bounds(1) [OF y] show ?thesis by linarith
  qed
next
  case False
  then show ?thesis by (simp add: fl_def [of x])
qed

text \<open>A number that fits into 53 bits is kept.\<close>

lemma fl_exact:
  assumes "0 \<le> m" and "m < 2 ^ 53"
  shows "fl (of_int m * 2 powi e) = of_int m * 2 powi e"
proof (cases "m = 0")
  case False
  define x b where "x = (of_int m * 2 powi e :: rat)" and "b = binade x"
  have x: "0 < x" using assms(1) False by (simp add: x_def)
  have "(of_int m :: rat) < 2 ^ 53" using assms(2) of_int_less_iff [where 'a = rat, of m "2 ^ 53"] by simp
  then have "x < 2 ^ 53 * 2 powi e" unfolding x_def by (intro mult_strict_right_mono) simp_all
  also have "\<dots> = 2 powi (53 + e)" by (simp add: power_int_add)
  finally have "(2 :: rat) powi b < 2 powi (53 + e)" using binade_bounds(1) [OF x] unfolding b_def by linarith
  then have "b < 53 + e" by (rule contrapos_pp) (simp add: not_less power_int_increasing)
  then have "b - 52 \<le> e" by simp
  then obtain k where k: "e = b - 52 + int k" using zle_iff_zadd by blast
  have x_k: "x = of_int (m * 2 ^ k) * 2 powi (b - 52)" unfolding x_def k by (simp add: power_int_add)
  then have "x / 2 powi (b - 52) = of_int (m * 2 ^ k)" by simp
  then have "fl x = of_int (m * 2 ^ k) * 2 powi (b - 52)"
    using x by (simp add: fl_def Let_def flip: b_def) (metis of_int_mult of_int_numeral of_int_power round_even_of_int)
  then have "fl x = x" by (simp only: x_k [symmetric])
  then show ?thesis by (simp only: x_def)
qed simp

lemma fl_of_nat: "n < 2 ^ 53 \<Longrightarrow> fl (of_nat n) = of_nat n"
  using fl_exact [of "int n" 0] by simp

text \<open>The conversion \<^verbatim>\<open>int(x)\<close> of a float that is not negative.\<close>

definition trunc :: "float64 \<Rightarrow> int" where
  "trunc x = \<lfloor>x\<rfloor>"

end
