(* ===== verification/GoRand.thy ===== *)
theory GoRand
  imports GoFloat GoText
begin

text \<open>
  Go's \<^verbatim>\<open>math/rand\<close> as far as the load generator uses it: \<^verbatim>\<open>Rand\<close> draws 63-bit numbers from a source
  and makes floats, bounded integers and bytes of them.  The numbers that a seed gives are a parameter,
  the \<open>n\<close>-th number of a source being \<open>s n\<close>.  A draw that is rejected is repeated, which may go on forever:
  such a call does not return, and its result is \<open>None\<close>.
\<close>

unbundle bit_operations_syntax

type_synonym source = "nat \<Rightarrow> int"

definition Int63_range :: "source \<Rightarrow> bool" where
  "Int63_range s \<longleftrightarrow> (\<forall>i. 0 \<le> s i \<and> s i < 2 ^ 63)"

text \<open>What makes every rejection end: numbers in the lower half come again and again.\<close>

definition fair :: "source \<Rightarrow> bool" where
  "fair s \<longleftrightarrow> (\<forall>i. \<exists>j \<ge> i. s j < 2 ^ 62)"

partial_function (option) first_draw :: "(int \<Rightarrow> bool) \<Rightarrow> source \<Rightarrow> nat \<Rightarrow> (int \<times> nat) option" where
  "first_draw accept s i = (if accept (s i) then Some (s i, Suc i) else first_draw accept s (Suc i))"

definition Float64 :: "source \<Rightarrow> nat \<Rightarrow> (float64 \<times> nat) option" where
  "Float64 s i =
     map_option (\<lambda>(v, j). (fl (fl (of_int v) / 2 ^ 63), j)) (first_draw (\<lambda>v. fl (fl (of_int v) / 2 ^ 63) \<noteq> 1) s i)"

text \<open>\<^verbatim>\<open>Int31n\<close> and \<^verbatim>\<open>Int63n\<close> differ in the bits they take of a draw; \<open>b\<close> is their number.\<close>

definition bounded_draw :: "nat \<Rightarrow> int \<Rightarrow> source \<Rightarrow> nat \<Rightarrow> (int \<times> nat) option" where
  "bounded_draw b n s i =
     (let top = (\<lambda>v. drop_bit (63 - b) v) in
      if n AND (n - 1) = 0 then Some (top (s i) AND (n - 1), Suc i)
      else map_option (\<lambda>(v, j). (top v mod n, j)) (first_draw (\<lambda>v. top v \<le> 2 ^ b - 1 - 2 ^ b mod n) s i))"

text \<open>\<^verbatim>\<open>Intn\<close> for a positive bound; it panics for any other, which the load generator never passes.\<close>

definition Intn :: "int \<Rightarrow> source \<Rightarrow> nat \<Rightarrow> (int \<times> nat) option" where
  "Intn n s i = (if n \<le> 2 ^ 31 - 1 then bounded_draw 31 n s i else bounded_draw 63 n s i)"

text \<open>\<^verbatim>\<open>Read\<close> takes seven bytes of each number.\<close>

definition Read_bytes :: "source \<Rightarrow> nat \<Rightarrow> bytes" where
  "Read_bytes s n = map (\<lambda>k. of_int (drop_bit (8 * (k mod 7)) (s (k div 7)))) [0..<n]"

lemma length_Read_bytes [simp]: "length (Read_bytes s n) = n"
  by (simp add: Read_bytes_def)

section \<open>Every call returns, and within its bounds\<close>

lemma first_draw_le:
  assumes "i \<le> j" and "accept (s j)"
  shows "\<exists>v k. first_draw accept s i = Some (v, k) \<and> accept v \<and> (\<exists>m. v = s m)"
  using assms
proof (induction "j - i" arbitrary: i)
  case 0
  then show ?case by (subst first_draw.simps) auto
next
  case (Suc n)
  then show ?case by (subst first_draw.simps) (cases "accept (s i)", auto)
qed

lemma first_draw_fair:
  assumes "fair s" and "\<And>v. v < 2 ^ 62 \<Longrightarrow> accept v"
  shows "\<exists>v k. first_draw accept s i = Some (v, k) \<and> accept v \<and> (\<exists>m. v = s m)"
proof -
  from assms(1) obtain j where "i \<le> j" "s j < 2 ^ 62" by (auto simp: fair_def)
  with first_draw_le [of i j accept s] assms(2) show ?thesis by blast
qed

lemma Float64_unit:
  assumes "fair s" and "Int63_range s"
  shows "\<exists>x j. Float64 s i = Some (x, j) \<and> 0 \<le> x \<and> x < 1"
proof -
  have le: "fl (fl (of_int v) / 2 ^ 63) \<le> 2 powi e" if "of_int v \<le> (2 :: rat) powi (63 + e)" for v e
  proof -
    have "fl (of_int v) \<le> 2 powi (63 + e)" using fl_mono [OF that] fl_exact [of 1 "63 + e"] by simp
    then have "fl (of_int v) / 2 ^ 63 \<le> 2 powi e" by (simp add: power_int_add field_simps)
    from fl_mono [OF this] show ?thesis using fl_exact [of 1 e] by simp
  qed
  have "fl (fl (of_int v) / 2 ^ 63) \<noteq> 1" if "v < 2 ^ 62" for v
  proof -
    have "(of_int v :: rat) \<le> of_int (2 ^ 62)" using that by (simp only: of_int_le_iff)
    then show ?thesis using le [of v "-1"] by (simp add: power_int_minus)
  qed
  from first_draw_fair [OF assms(1), of "\<lambda>v. fl (fl (of_int v) / 2 ^ 63) \<noteq> 1", OF this, of i] obtain v j m where
    d: "first_draw (\<lambda>v. fl (fl (of_int v) / 2 ^ 63) \<noteq> 1) s i = Some (v, j)" "fl (fl (of_int v) / 2 ^ 63) \<noteq> 1" "v = s m" by blast
  from d(3) assms(2) have "v \<le> 2 ^ 63" by (auto simp: Int63_range_def intro: less_imp_le)
  then have "(of_int v :: rat) \<le> of_int (2 ^ 63)" by (simp only: of_int_le_iff)
  with le [of v 0] d(2) have "fl (fl (of_int v) / 2 ^ 63) < 1" by simp
  with d(1) show ?thesis by (auto simp: Float64_def)
qed

lemma mod_le_half:
  assumes "0 < n" and "n \<le> (m :: int)"
  shows "2 * (m mod n) < m"
proof -
  have "m = m div n * n + m mod n" by simp
  moreover have "1 \<le> m div n" using zdiv_mono1 [OF assms(2,1)] assms(1) by simp
  moreover have "m mod n < n" using assms by simp
  ultimately show ?thesis using mult_right_mono [of 1 "m div n" n] assms by linarith
qed

lemma zdiv_below:
  assumes "0 < p" and "v < p * q"
  shows "v div p < (q :: int)"
proof (rule ccontr)
  assume "\<not> ?thesis"
  then have "p * q \<le> p * (v div p)" using assms(1) by (intro mult_left_mono) simp_all
  moreover have "p * (v div p) + v mod p = v" "0 \<le> v mod p" using assms(1) by simp_all
  ultimately show False using assms(2) by linarith
qed

lemma bounded_draw_range:
  assumes "fair s" and "Int63_range s" and "0 < n" and "n \<le> 2 ^ b" and "0 < b" and "b \<le> 63"
  shows "\<exists>x j. bounded_draw b n s i = Some (x, j) \<and> 0 \<le> x \<and> x < n"
proof (cases "n AND (n - 1) = 0")
  case True
  have "0 \<le> drop_bit (63 - b) (s i) AND (n - 1)" "drop_bit (63 - b) (s i) AND (n - 1) \<le> n - 1"
    using assms(3) by (simp_all add: AND_upper2)
  with True show ?thesis by (auto simp: bounded_draw_def)
next
  case False
  have "drop_bit (63 - b) v \<le> 2 ^ b - 1 - 2 ^ b mod n" if "v < 2 ^ 62" for v :: int
  proof -
    have e: "(2 :: int) ^ 62 = 2 ^ (63 - b) * 2 ^ (b - 1)" "(2 :: int) ^ b = 2 * 2 ^ (b - 1)"
      using assms(5,6) by (simp_all flip: power_add power_Suc)
    have "drop_bit (63 - b) v < 2 ^ (b - 1)"
      using that unfolding e(1) drop_bit_eq_div by (intro zdiv_below) simp_all
    with mod_le_half [OF assms(3,4)] show ?thesis unfolding e(2) by linarith
  qed
  from first_draw_fair [OF assms(1), of "\<lambda>v. drop_bit (63 - b) v \<le> 2 ^ b - 1 - 2 ^ b mod n", OF this, of i]
  show ?thesis using False assms(3) by (auto simp: bounded_draw_def)
qed

lemma Intn_range:
  assumes "fair s" and "Int63_range s" and "0 < n" and "n < 2 ^ 63"
  shows "\<exists>x j. Intn n s i = Some (x, j) \<and> 0 \<le> x \<and> x < n"
  using bounded_draw_range [OF assms(1-3), of 31 i] bounded_draw_range [OF assms(1-3), of 63 i] assms(4)
  by (auto simp: Intn_def)

end
