(* ===== verification/Bench.thy ===== *)
theory Bench
  imports GoRand Resp "HOL-Library.Signed_Division"
begin

text \<open>
  The load generator and the statistics of the benchmark harness, \<^verbatim>\<open>internal/benchmark\<close>:
  \<^verbatim>\<open>workload.go\<close>, \<^verbatim>\<open>stats.go\<close> and the assembly of a report in \<^verbatim>\<open>report.go\<close>.  The random numbers come from a
  source (\<open>GoRand\<close>), and the order in which Go walks a map is an argument.
\<close>

section \<open>Workload\<close>

text \<open>The type \<^verbatim>\<open>Op\<close> is an \<^verbatim>\<open>int\<close> with two named values.\<close>

definition bench_OpGet :: int where
  "bench_OpGet = 0"

definition bench_OpPut :: int where
  "bench_OpPut = 1"

record Request =
  rq_Op :: int
  rq_Key :: bytes
  rq_Value :: bytes
  rq_TTLSeconds :: i64

record WorkloadConfig =
  ReadRatio :: float64
  KeyCardinality :: int
  HotKeyCount :: int
  ValueSize :: int
  wl_TTLSeconds :: i64

record Generator =
  gen_cfg :: WorkloadConfig
  gen_source :: source
  gen_drawn :: nat
  gen_value :: bytes

text \<open>\<^verbatim>\<open>NewSource\<close> gives the source of a seed; the value and the draws use two sources of the same seed.\<close>

definition NewGenerator :: "(int \<Rightarrow> source) \<Rightarrow> WorkloadConfig \<Rightarrow> int \<Rightarrow> Generator go" where
  "NewGenerator NewSource cfg seed =
     (if \<not> make_ok 1 (of_int (ValueSize cfg)) then Panic
      else Ret \<lparr>gen_cfg = cfg, gen_source = NewSource seed, gen_drawn = 0,
                gen_value = Read_bytes (NewSource seed) (nat (ValueSize cfg))\<rparr>)"

definition hex_text :: bytes where
  "hex_text = lit ''0123456789abcdef''"

text \<open>The loop of \<^verbatim>\<open>formatKey\<close> fills the digits from the last to the first.\<close>

fun hex_digits :: "nat \<Rightarrow> int \<Rightarrow> bytes" where
  "hex_digits 0 i = []"
| "hex_digits (Suc p) i = hex_digits p (drop_bit 4 i) @ [hex_text ! nat (i AND 0xf)]"

definition formatKey :: "int \<Rightarrow> bytes" where
  "formatKey i = lit ''k-'' @ hex_digits 7 i"

definition gen_key :: "Generator \<Rightarrow> (bytes \<times> nat) option" where
  "gen_key g =
     (let n = (if KeyCardinality (gen_cfg g) \<le> 0 then 1 else KeyCardinality (gen_cfg g));
          hot = HotKeyCount (gen_cfg g);
          s = gen_source g in
      if 0 < hot \<and> hot < n then
        (case Float64 s (gen_drawn g) of
           None \<Rightarrow> None
         | Some (x, j) \<Rightarrow>
             if x < fl (8 / 10) then map_option (map_prod formatKey id) (Intn hot s j)
             else map_option (map_prod (\<lambda>i. formatKey (hot + i)) id) (Intn (n - hot) s j))
      else map_option (map_prod formatKey id) (Intn n s (gen_drawn g)))"

definition gen_Next :: "Generator \<Rightarrow> (Request \<times> Generator) option" where
  "gen_Next g =
     (case gen_key g of
        None \<Rightarrow> None
      | Some (key, j) \<Rightarrow>
          (case Float64 (gen_source g) j of
             None \<Rightarrow> None
           | Some (x, k) \<Rightarrow>
               Some (if x < ReadRatio (gen_cfg g)
                       then \<lparr>rq_Op = bench_OpGet, rq_Key = key, rq_Value = [], rq_TTLSeconds = 0\<rparr>
                       else \<lparr>rq_Op = bench_OpPut, rq_Key = key, rq_Value = gen_value g, rq_TTLSeconds = wl_TTLSeconds (gen_cfg g)\<rparr>,
                     g\<lparr>gen_drawn := k\<rparr>)))"

section \<open>Recorder\<close>

text \<open>A latency is a \<^verbatim>\<open>time.Duration\<close>, an \<^verbatim>\<open>int64\<close>.\<close>

record Recorder =
  rec_samples :: "int \<rightharpoonup> i64 list"
  rec_errors :: "int \<rightharpoonup> nat"
  rec_warmedUp :: bool

definition NewRecorder :: Recorder where
  "NewRecorder = \<lparr>rec_samples = Map.empty, rec_errors = Map.empty, rec_warmedUp = False\<rparr>"

definition SetWarmedUp :: "Recorder \<Rightarrow> Recorder" where
  "SetWarmedUp r = r\<lparr>rec_warmedUp := True\<rparr>"

text \<open>The value of a key that a Go map may lack is the zero value.\<close>

definition samples_of :: "Recorder \<Rightarrow> int \<Rightarrow> i64 list" where
  "samples_of r op = (case rec_samples r op of None \<Rightarrow> [] | Some xs \<Rightarrow> xs)"

definition errors_of :: "Recorder \<Rightarrow> int \<Rightarrow> nat" where
  "errors_of r op = (case rec_errors r op of None \<Rightarrow> 0 | Some n \<Rightarrow> n)"

definition rec_Record :: "int \<Rightarrow> i64 \<Rightarrow> bool \<Rightarrow> Recorder \<Rightarrow> Recorder" where
  "rec_Record op d failed r =
     (if \<not> rec_warmedUp r then r
      else if failed then r\<lparr>rec_errors := (rec_errors r)(op \<mapsto> errors_of r op + 1)\<rparr>
      else r\<lparr>rec_samples := (rec_samples r)(op \<mapsto> samples_of r op @ [d])\<rparr>)"

record OpStats =
  st_Count :: nat
  st_Errors :: nat
  st_P50 :: i64
  st_P95 :: i64
  st_P99 :: i64
  st_P999 :: i64
  st_Min :: i64
  st_Max :: i64
  st_Mean :: i64

definition percentile :: "i64 list \<Rightarrow> float64 \<Rightarrow> i64 go" where
  "percentile xs p =
     (let idx = trunc (fl (p * fl (of_nat (length xs)))) in
      if int (length xs) \<le> idx then go_index xs (length xs - 1) else go_index xs (nat idx))"

text \<open>The statistics of one operation from its samples; the sum wraps and the division truncates.\<close>

definition op_stats :: "i64 list \<Rightarrow> nat \<Rightarrow> OpStats go" where
  "op_stats samples errs =
     (let xs = sort_key sint samples;
          zero = \<lparr>st_Count = length xs, st_Errors = errs, st_P50 = 0, st_P95 = 0, st_P99 = 0, st_P999 = 0,
                  st_Min = 0, st_Max = 0, st_Mean = 0\<rparr> in
      if xs = [] then Ret zero
      else
        go_bind (percentile xs (fl (50 / 100))) (\<lambda>p50.
        go_bind (percentile xs (fl (95 / 100))) (\<lambda>p95.
        go_bind (percentile xs (fl (99 / 100))) (\<lambda>p99.
        go_bind (percentile xs (fl (999 / 1000))) (\<lambda>p999.
          Ret (zero\<lparr>st_Mean := of_int (sint (foldl (+) 0 xs) sdiv sint (of_nat (length xs) :: i64)),
                    st_Min := xs ! 0, st_Max := xs ! (length xs - 1),
                    st_P50 := p50, st_P95 := p95, st_P99 := p99, st_P999 := p999\<rparr>))))))"

fun compute_ops :: "Recorder \<Rightarrow> int list \<Rightarrow> (int \<rightharpoonup> OpStats) \<Rightarrow> (int \<rightharpoonup> OpStats) go" where
  "compute_ops r [] out = Ret out"
| "compute_ops r (op # ops) out =
     go_bind (op_stats (samples_of r op) (errors_of r op)) (\<lambda>st. compute_ops r ops (out(op \<mapsto> st)))"

text \<open>\<open>ops\<close> is the set of operations in the order in which the map is walked.\<close>

definition ops_order :: "Recorder \<Rightarrow> int list \<Rightarrow> bool" where
  "ops_order r ops \<longleftrightarrow> distinct ops \<and> set ops = dom (rec_samples r) \<union> dom (rec_errors r)"

definition rec_Compute :: "Recorder \<Rightarrow> int list \<Rightarrow> (int \<rightharpoonup> OpStats) go" where
  "rec_Compute r ops = compute_ops r ops Map.empty"

text \<open>\<^verbatim>\<open>Duration.Seconds\<close>: whole seconds and the rest are converted separately.\<close>

definition Seconds :: "i64 \<Rightarrow> float64" where
  "Seconds d = fl (fl (of_int (sint d sdiv 1000000000)) + fl (fl (of_int (sint d smod 1000000000)) / fl 1000000000))"

definition Throughput :: "OpStats \<Rightarrow> i64 \<Rightarrow> float64" where
  "Throughput st measuredDuration =
     (let total = st_Count st + st_Errors st in
      if sint measuredDuration \<le> 0 \<or> total = 0 then 0
      else fl (fl (of_nat total) / Seconds measuredDuration))"

section \<open>Report\<close>

definition opName :: "int \<Rightarrow> bytes" where
  "opName op =
     (if op = bench_OpGet then lit ''get'' else if op = bench_OpPut then lit ''put'' else lit ''unknown'')"

record OpReport =
  or_Count :: nat
  or_Errors :: nat
  or_Throughput :: float64
  or_P50Ns :: i64
  or_P95Ns :: i64
  or_P99Ns :: i64
  or_P999Ns :: i64
  or_MinNs :: i64
  or_MaxNs :: i64
  or_MeanNs :: i64

definition op_report :: "OpStats \<Rightarrow> i64 \<Rightarrow> OpReport" where
  "op_report s measured =
     \<lparr>or_Count = st_Count s, or_Errors = st_Errors s, or_Throughput = Throughput s measured,
      or_P50Ns = st_P50 s, or_P95Ns = st_P95 s, or_P99Ns = st_P99 s, or_P999Ns = st_P999 s,
      or_MinNs = st_Min s, or_MaxNs = st_Max s, or_MeanNs = st_Mean s\<rparr>"

text \<open>The loop over the statistics, in the order of the map.\<close>

fun report_ops :: "(int \<rightharpoonup> OpStats) \<Rightarrow> i64 \<Rightarrow> int list \<Rightarrow> (bytes \<rightharpoonup> OpReport) \<Rightarrow> (bytes \<rightharpoonup> OpReport)" where
  "report_ops stats measured [] out = out"
| "report_ops stats measured (op # ops) out =
     report_ops stats measured ops
       (case stats op of None \<Rightarrow> out | Some s \<Rightarrow> out(opName op \<mapsto> op_report s measured))"

end
