(* ===== verification/BenchSpec.thy ===== *)
theory BenchSpec
  imports Bench "HOL-Library.Multiset"
begin

text \<open>
  What the load generator and the statistics of the benchmark promise: requests come from the working set
  and follow the read ratio, keys are distinct up to 28 bits, and the percentiles are ordered samples.
\<close>

section \<open>Keys\<close>

lemma hex_text_nth_eq: "i < 16 \<Longrightarrow> j < 16 \<Longrightarrow> hex_text ! i = hex_text ! j \<longleftrightarrow> i = j"
  by (rule nth_eq_iff_index_eq) (simp_all add: hex_text_def lit_def)

lemma and_15: "(i :: int) AND 0xf = i mod 16"
  using take_bit_eq_mask [of 4 i] by (simp add: take_bit_eq_mod mask_eq_exp_minus_1)

lemma hex_digits_eq: "hex_digits p i = hex_digits p j \<longleftrightarrow> i mod 16 ^ p = j mod 16 ^ p"
proof (induction p arbitrary: i j)
  case (Suc p)
  have split: "k mod 16 ^ Suc p = 16 * (k div 16 mod 16 ^ p) + k mod 16" for k :: int
    using zmod_zmult2_eq [of "16 ^ p" k 16] by simp
  have "hex_text ! nat (i mod 16) = hex_text ! nat (j mod 16) \<longleftrightarrow> i mod 16 = j mod 16"
    by (subst hex_text_nth_eq) (auto simp: nat_less_iff)
  with Suc [of "i div 16" "j div 16"] show ?case
    unfolding split by (auto simp: and_15 drop_bit_eq_div)
qed simp

text \<open>A key tells the index apart up to 28 bits, and no further.\<close>

lemma formatKey_eq: "formatKey i = formatKey j \<longleftrightarrow> i mod 2 ^ 28 = j mod 2 ^ 28"
  using hex_digits_eq [of 7 i j] by (simp add: formatKey_def)

section \<open>Requests\<close>

lemma gen_key_spec:
  assumes "fair (gen_source g)" and "Int63_range (gen_source g)" and "KeyCardinality (gen_cfg g) < 2 ^ 63"
  shows "\<exists>i j. gen_key g = Some (formatKey i, j) \<and> 0 \<le> i \<and> i < max 1 (KeyCardinality (gen_cfg g))"
proof -
  let ?s = "gen_source g" and ?hot = "HotKeyCount (gen_cfg g)"
  let ?n = "if KeyCardinality (gen_cfg g) \<le> 0 then 1 else KeyCardinality (gen_cfg g)"
  have n: "0 < ?n" "?n < 2 ^ 63" "?n = max 1 (KeyCardinality (gen_cfg g))" using assms(3) by auto
  show ?thesis
  proof (cases "0 < ?hot \<and> ?hot < ?n")
    case True
    from Float64_unit [OF assms(1,2)] obtain x j where x: "Float64 ?s (gen_drawn g) = Some (x, j)" by blast
    have "\<exists>k l. Intn ?hot ?s j = Some (k, l) \<and> 0 \<le> k \<and> k < ?hot" using True n(2) by (intro Intn_range assms(1,2)) auto
    moreover have "\<exists>k l. Intn (?n - ?hot) ?s j = Some (k, l) \<and> 0 \<le> k \<and> k < ?n - ?hot"
      using True n(2) by (intro Intn_range assms(1,2)) auto
    ultimately obtain k l k' l' where "Intn ?hot ?s j = Some (k, l)" "0 \<le> k" "k < ?hot"
      "Intn (?n - ?hot) ?s j = Some (k', l')" "0 \<le> k'" "k' < ?n - ?hot" by blast
    with x True show ?thesis unfolding n(3) [symmetric] gen_key_def Let_def
      by (cases "x < fl (8 / 10)") (auto intro!: exI [of _ "if x < fl (8 / 10) then k else ?hot + k'"])
  next
    case False
    from Intn_range [OF assms(1,2) n(1,2)] obtain k l where "Intn ?n ?s (gen_drawn g) = Some (k, l)" "0 \<le> k" "k < ?n" by blast
    with False show ?thesis unfolding n(3) [symmetric] gen_key_def Let_def by auto
  qed
qed

text \<open>
  The load generator always gives a request, whatever was drawn before: its key is one of the working set of
  \<^verbatim>\<open>KeyCardinality\<close> keys (of one key if that is not positive), a write carries the generator's value and TTL, a read
  carries neither; with a read ratio of 1 or more every request is a read and with one of 0 or less every request is a write.
\<close>

lemma gen_Next_spec:
  assumes "fair (gen_source g)" and "Int63_range (gen_source g)" and "KeyCardinality (gen_cfg g) < 2 ^ 63"
  shows "\<exists>req g' i. gen_Next g = Some (req, g') \<and> gen_cfg g' = gen_cfg g \<and> gen_source g' = gen_source g \<and> gen_value g' = gen_value g
    \<and> rq_Key req = formatKey i \<and> 0 \<le> i \<and> i < max 1 (KeyCardinality (gen_cfg g))
    \<and> (rq_Op req = bench_OpGet \<and> rq_Value req = [] \<and> rq_TTLSeconds req = 0
       \<or> rq_Op req = bench_OpPut \<and> rq_Value req = gen_value g \<and> rq_TTLSeconds req = wl_TTLSeconds (gen_cfg g))
    \<and> (1 \<le> ReadRatio (gen_cfg g) \<longrightarrow> rq_Op req = bench_OpGet) \<and> (ReadRatio (gen_cfg g) \<le> 0 \<longrightarrow> rq_Op req = bench_OpPut)"
proof -
  from gen_key_spec [OF assms] obtain i j where
    key: "gen_key g = Some (formatKey i, j)" and i: "0 \<le> i" "i < max 1 (KeyCardinality (gen_cfg g))" by blast
  from Float64_unit [OF assms(1,2)] obtain x k where x: "Float64 (gen_source g) j = Some (x, k)" "0 \<le> x" "x < 1" by blast
  show ?thesis
    using i x key by (cases "x < ReadRatio (gen_cfg g)") (auto simp: gen_Next_def intro!: exI [of _ i])
qed

definition sample_workload :: WorkloadConfig where
  "sample_workload = \<lparr>ReadRatio = 1, KeyCardinality = 1, HotKeyCount = 0, ValueSize = 2, wl_TTLSeconds = 0\<rparr>"

definition sample_generator :: Generator where
  "sample_generator = \<lparr>gen_cfg = sample_workload, gen_source = (\<lambda>_. 5), gen_drawn = 3, gen_value = [1, 2]\<rparr>"

lemma sample_source: "fair (\<lambda>_. 5)" "Int63_range (\<lambda>_. 5)"
  by (auto simp: fair_def Int63_range_def)

section \<open>Statistics\<close>

text \<open>The index that a percentile reads.\<close>

definition rank :: "float64 \<Rightarrow> nat \<Rightarrow> nat" where
  "rank p n = min (nat (trunc (fl (p * fl (of_nat n))))) (n - 1)"

lemma rank_less: "0 < n \<Longrightarrow> rank p n < n"
  by (auto simp: rank_def)

lemma rank_mono: "p \<le> q \<Longrightarrow> rank p n \<le> rank q n"
proof -
  assume "p \<le> q"
  then have "fl (p * fl (of_nat n)) \<le> fl (q * fl (of_nat n))" by (intro fl_mono mult_right_mono) simp_all
  then show ?thesis unfolding rank_def trunc_def by (intro min.mono nat_mono floor_mono) simp_all
qed

lemma percentile_rank:
  assumes "xs \<noteq> []"
  shows "percentile xs p = Ret (xs ! rank p (length xs))"
proof -
  define k where "k = trunc (fl (p * fl (of_nat (length xs))))"
  have n: "0 < length xs" using assms by simp
  show ?thesis
  proof (cases "int (length xs) \<le> k")
    case True
    then have "rank p (length xs) = length xs - 1" by (simp add: rank_def min_def flip: k_def)
    with True n show ?thesis by (simp add: percentile_def Let_def flip: k_def)
  next
    case False
    then have k: "nat k < length xs" using n by linarith
    then have "rank p (length xs) = nat k" by (simp add: rank_def flip: k_def)
    with False k show ?thesis by (simp add: percentile_def Let_def flip: k_def)
  qed
qed

lemma rank_median:
  assumes "0 < n" and "n < 2 ^ 53"
  shows "rank (fl (50 / 100)) n = n div 2"
proof -
  have p: "fl (50 / 100) = 1 / 2" using fl_exact [of 1 "-1"] by (simp add: power_int_minus)
  have h: "fl (1 / 2 * of_nat n) = of_nat n / 2" using fl_exact [of "int n" "-1"] assms by (simp add: power_int_minus field_simps)
  have f: "\<lfloor>(of_nat n :: rat) / 2\<rfloor> = int (n div 2)" using floor_divide_of_nat_eq [of n 2, where 'a = rat] by simp
  show ?thesis unfolding rank_def p fl_of_nat [OF assms(2)] h trunc_def f using assms(1) by simp
qed

lemma op_stats_returns:
  assumes "xs \<noteq> []" and "ys = sort_key sint xs"
  shows "op_stats xs e = Ret \<lparr>st_Count = length xs, st_Errors = e, st_P50 = ys ! rank (fl (50 / 100)) (length xs),
    st_P95 = ys ! rank (fl (95 / 100)) (length xs), st_P99 = ys ! rank (fl (99 / 100)) (length xs),
    st_P999 = ys ! rank (fl (999 / 1000)) (length xs), st_Min = ys ! 0, st_Max = ys ! (length xs - 1),
    st_Mean = of_int (sint (foldl (+) 0 ys) sdiv sint (of_nat (length xs) :: i64))\<rparr>"
proof -
  have ne: "sort_key sint xs \<noteq> []" using assms(1) by (metis length_0_conv length_sort)
  show ?thesis unfolding assms(2) op_stats_def Let_def
    by (simp add: ne percentile_rank [OF ne] del: sort_key_simps)
qed

lemma op_stats_empty: "op_stats [] e = Ret \<lparr>st_Count = 0, st_Errors = e, st_P50 = 0, st_P95 = 0, st_P99 = 0, st_P999 = 0,
    st_Min = 0, st_Max = 0, st_Mean = 0\<rparr>"
  by (simp add: op_stats_def)

lemma op_stats_total: "\<exists>st. op_stats xs e = Ret st"
  using op_stats_returns [OF _ refl] op_stats_empty by (cases "xs = []") auto

lemma compute_ops_lookup:
  assumes "\<And>op. op_stats (samples_of r op) (errors_of r op) = Ret (st op)"
  shows "compute_ops r ops out = Ret (\<lambda>op. if op \<in> set ops then Some (st op) else out op)"
  by (induction ops arbitrary: out) (auto simp: assms fun_eq_iff)

lemma rec_Compute_lookup:
  obtains st where "rec_Compute r ops = Ret (\<lambda>op. if op \<in> set ops then Some (st op) else None)"
    and "\<And>op. op_stats (samples_of r op) (errors_of r op) = Ret (st op)"
proof -
  define st where "st op = (SOME s. op_stats (samples_of r op) (errors_of r op) = Ret s)" for op
  have "op_stats (samples_of r op) (errors_of r op) = Ret (st op)" for op
    unfolding st_def using op_stats_total by (rule someI_ex)
  with compute_ops_lookup [of r st ops Map.empty] show ?thesis by (intro that [of st]) (simp_all add: rec_Compute_def)
qed

text \<open>The mean lies between the extremes as long as the sum does not overflow.\<close>

lemma foldl_plus_word: "foldl (+) a xs = a + of_int (sum_list (map sint xs))" for a :: i64
  by (induction xs arbitrary: a) (simp_all add: add.assoc)

lemma sint_of_int_64:
  assumes "- (2 ^ 63) \<le> k" and "k < 2 ^ 63"
  shows "sint (of_int k :: i64) = k"
  using assms by (simp only: sint_sbintrunc') (simp add: signed_take_bit_int_eq_self)

lemma mean_between:
  fixes ys :: "i64 list"
  assumes "ys \<noteq> []" and "length ys < 2 ^ 63" and "\<And>y. y \<in> set ys \<Longrightarrow> a \<le> sint y \<and> sint y \<le> b" and "0 \<le> a"
    and "sum_list (map sint ys) < 2 ^ 63"
  shows "a \<le> sint (of_int (sint (foldl (+) 0 ys) sdiv sint (of_nat (length ys) :: i64)) :: i64)
    \<and> sint (of_int (sint (foldl (+) 0 ys) sdiv sint (of_nat (length ys) :: i64)) :: i64) \<le> b"
proof -
  let ?s = "sum_list (map sint ys)" and ?n = "int (length ys)"
  have n: "0 < ?n" "sint (of_nat (length ys) :: i64) = ?n" using assms(1,2) by simp_all
  have bounds: "a * int (length zs) \<le> sum_list (map sint zs) \<and> sum_list (map sint zs) \<le> b * int (length zs)"
    if "set zs \<subseteq> set ys" for zs using that assms(3) by (induction zs) (auto simp: algebra_simps add_mono)
  have s: "a * ?n \<le> ?s" "?s \<le> b * ?n" using bounds [of ys] by simp_all
  have s0: "0 \<le> ?s" using s(1) assms(4) n(1) by (meson mult_nonneg_nonneg less_imp_le order_trans)
  then have sum: "sint (foldl (+) 0 ys) = ?s" using assms(5) by (simp add: foldl_plus_word sint_of_int_64)
  have q: "a \<le> ?s div ?n" "?s div ?n \<le> b"
    using zdiv_mono1 [OF s(1) n(1)] zdiv_mono1 [OF s(2) n(1)] n(1) by simp_all
  have "?s div ?n \<le> ?s div 1" using s0 n(1) by (intro zdiv_mono2) linarith+
  then have "sint (of_int (?s div ?n) :: i64) = ?s div ?n"
    using assms(4,5) q(1) by (intro sint_of_int_64) simp_all
  moreover have "?s sdiv ?n = ?s div ?n" using s0 n(1) by (cases "?s = 0") (simp_all add: signed_divide_int_def)
  ultimately show ?thesis using q unfolding sum n(2) by simp
qed

lemma sorted_rank:
  assumes "sorted (map f ys)" and "k < length ys"
  shows "length (filter (\<lambda>y. f y < f (ys ! k)) ys) \<le> k" "Suc k \<le> length (filter (\<lambda>y. f y \<le> f (ys ! k)) ys)"
proof -
  have mono: "f (ys ! i) \<le> f (ys ! j)" if "i \<le> j" "j < length ys" for i j
    using sorted_nth_mono [OF assms(1), of i j] that by simp
  have split: "length (filter P ys) = length (filter P (take n ys)) + length (filter P (drop n ys))" for P n
    by (metis append_take_drop_id filter_append length_append)
  have "filter (\<lambda>y. f y < f (ys ! k)) (drop k ys) = []"
    using mono [of k] by (auto simp: filter_empty_conv in_set_conv_nth not_less)
  then show "length (filter (\<lambda>y. f y < f (ys ! k)) ys) \<le> k"
    using split [of _ k] length_filter_le [of _ "take k ys"] assms(2) by (simp add: le_trans)
  have "filter (\<lambda>y. f y \<le> f (ys ! k)) (take (Suc k) ys) = take (Suc k) ys"
    using mono [of _ k] assms(2) by (auto simp: filter_id_conv in_set_conv_nth)
  then show "Suc k \<le> length (filter (\<lambda>y. f y \<le> f (ys ! k)) ys)"
    using split [of _ "Suc k"] assms(2) by simp
qed

lemma length_filter_sort [simp]: "length (filter P (sort_key f xs)) = length (filter P xs)"
  by (metis mset_filter mset_sort size_mset)

text \<open>
  C37. The statistics of the benchmark are those of the recorded samples: \<^verbatim>\<open>Compute\<close> never panics, counts every sample and
  error of an operation, its percentiles are recorded samples in ascending order between the least and the greatest, the
  50th is a median, and the mean lies between the extremes as long as the durations are not negative and their sum fits into an \<^verbatim>\<open>int64\<close>.
\<close>

theorem rec_Compute_statistics:
  assumes "ops_order r ops" and "rec_samples r op = Some xs" and "xs \<noteq> []" and "length xs < 2 ^ 53"
  shows "\<exists>out st. rec_Compute r ops = Ret out \<and> out op = Some st \<and> st_Count st = length xs \<and> st_Errors st = errors_of r op
    \<and> {st_Min st, st_P50 st, st_P95 st, st_P99 st, st_P999 st, st_Max st} \<subseteq> set xs
    \<and> (\<forall>x. x \<in> set xs \<longrightarrow> sint (st_Min st) \<le> sint x \<and> sint x \<le> sint (st_Max st))
    \<and> sorted (map sint [st_Min st, st_P50 st, st_P95 st, st_P99 st, st_P999 st, st_Max st])
    \<and> 2 * length (filter (\<lambda>x. sint x < sint (st_P50 st)) xs) \<le> length xs
    \<and> length xs \<le> 2 * length (filter (\<lambda>x. sint x \<le> sint (st_P50 st)) xs)
    \<and> (0 \<le> sint (st_Min st) \<and> sum_list (map sint xs) < 2 ^ 63
        \<longrightarrow> sint (st_Min st) \<le> sint (st_Mean st) \<and> sint (st_Mean st) \<le> sint (st_Max st))"
proof -
  define ys n where "ys = sort_key sint xs" and "n = length xs"
  have n: "0 < n" "n < 2 ^ 53" "length ys = n" using assms(3,4) by (simp_all add: n_def ys_def)
  have ys: "sorted (map sint ys)" "set ys = set xs" by (simp_all add: ys_def)
  have at: "sint (ys ! i) \<le> sint (ys ! j)" if "i \<le> j" "j < n" for i j
    using sorted_nth_mono [OF ys(1), of i j] that n(3) by simp
  have mem: "ys ! i \<in> set xs" if "i < n" for i using that n(3) ys(2) nth_mem [of i ys] by simp
  obtain st where st: "rec_Compute r ops = Ret (\<lambda>op. if op \<in> set ops then Some (st op) else None)"
    "op_stats (samples_of r op) (errors_of r op) = Ret (st op)" by (rule rec_Compute_lookup [of r ops]) (rule that)
  have op: "op \<in> set ops" "samples_of r op = xs" using assms(1,2) by (auto simp: ops_order_def samples_of_def)
  let ?r = "\<lambda>p. rank (fl p) n"
  have r: "?r (50 / 100) \<le> ?r (95 / 100)" "?r (95 / 100) \<le> ?r (99 / 100)" "?r (99 / 100) \<le> ?r (999 / 1000)"
    by (intro rank_mono fl_mono; simp)+
  have r_le: "rank p n \<le> n - Suc 0" "rank p n < n" "n - Suc 0 < n" for p using rank_less [OF n(1), of p] n(1) by simp_all
  have s: "st op = \<lparr>st_Count = n, st_Errors = errors_of r op, st_P50 = ys ! ?r (50 / 100), st_P95 = ys ! ?r (95 / 100),
      st_P99 = ys ! ?r (99 / 100), st_P999 = ys ! ?r (999 / 1000), st_Min = ys ! 0, st_Max = ys ! (n - 1),
      st_Mean = of_int (sint (foldl (+) 0 ys) sdiv sint (of_nat n :: i64))\<rparr>"
    using st(2) op_stats_returns [OF assms(3) ys_def, of "errors_of r op"] by (simp add: op(2) n_def)
  have f: "st_Count (st op) = n" "st_Errors (st op) = errors_of r op" "st_Min (st op) = ys ! 0" "st_Max (st op) = ys ! (n - 1)"
    "st_P50 (st op) = ys ! (n div 2)" using rank_median [OF n(1,2)] by (simp_all only: s OpStats.simps)
  have ext: "sint (ys ! 0) \<le> sint x \<and> sint x \<le> sint (ys ! (n - 1))" if "x \<in> set xs" for x
    using that at n(1,3) unfolding ys(2) [symmetric] in_set_conv_nth by fastforce
  have half: "2 * length (filter (\<lambda>x. sint x < sint (ys ! (n div 2))) xs) \<le> n \<and> n \<le> 2 * length (filter (\<lambda>x. sint x \<le> sint (ys ! (n div 2))) xs)"
    using sorted_rank [OF ys(1), of "n div 2"] n(1,3) by (simp add: ys_def) linarith
  have sum: "sum_list (map sint ys) = sum_list (map sint xs)" by (metis mset_map mset_sort sum_mset_sum_list ys_def)
  have mean: "sint (ys ! 0) \<le> sint (st_Mean (st op)) \<and> sint (st_Mean (st op)) \<le> sint (ys ! (n - 1))"
    if "0 \<le> sint (ys ! 0)" "sum_list (map sint xs) < 2 ^ 63"
    using mean_between [of ys "sint (ys ! 0)" "sint (ys ! (n - 1))"] that ext n sum ys(2) by (auto simp: s)
  have "sorted (map sint [st_Min (st op), st_P50 (st op), st_P95 (st op), st_P99 (st op), st_P999 (st op), st_Max (st op)])"
    using r r_le by (auto simp: s intro!: at)
  moreover have "{st_Min (st op), st_P50 (st op), st_P95 (st op), st_P99 (st op), st_P999 (st op), st_Max (st op)} \<subseteq> set xs"
    using n(1) rank_less [OF n(1)] by (auto simp: s intro!: mem)
  ultimately show ?thesis
    using st(1) op(1) ext mean half by (intro exI [of _ "\<lambda>op. if op \<in> set ops then Some (st op) else None"] exI [of _ "st op"])
      (simp add: f flip: n_def)
qed

definition sample_recorder :: Recorder where
  "sample_recorder =
     rec_Record bench_OpGet 7 True (rec_Record bench_OpGet 2 False (rec_Record bench_OpGet 5 False (SetWarmedUp
       (rec_Record bench_OpGet 9 False NewRecorder))))"

theorem rec_Compute_statistics_witness:
  "\<exists>out st. rec_Compute sample_recorder [bench_OpGet] = Ret out \<and> out bench_OpGet = Some st \<and> st_Count st = 2 \<and> st_Errors st = 1
    \<and> sint (st_Min st) = 2 \<and> sint (st_Max st) = 5"
proof -
  have m: "rec_samples sample_recorder = [bench_OpGet \<mapsto> [5, 2]]" "rec_errors sample_recorder = [bench_OpGet \<mapsto> 1]"
    by (simp_all add: sample_recorder_def rec_Record_def NewRecorder_def SetWarmedUp_def samples_of_def errors_of_def)
  have r: "ops_order sample_recorder [bench_OpGet]" "rec_samples sample_recorder bench_OpGet = Some [5, 2]" "[5, 2] \<noteq> ([] :: i64 list)"
    "length [5, 2 :: i64] < 2 ^ 53" "errors_of sample_recorder bench_OpGet = 1"
    by (simp_all add: ops_order_def errors_of_def m)
  from rec_Compute_statistics [OF r(1-4)] obtain out st where
    "rec_Compute sample_recorder [bench_OpGet] = Ret out" "out bench_OpGet = Some st" "st_Count st = length [5, 2 :: i64]"
    "st_Errors st = errors_of sample_recorder bench_OpGet" "{st_Min st, st_P50 st, st_P95 st, st_P99 st, st_P999 st, st_Max st} \<subseteq> set [5, 2]"
    "\<forall>x. x \<in> set [5, 2 :: i64] \<longrightarrow> sint (st_Min st) \<le> sint x \<and> sint x \<le> sint (st_Max st)" by (elim exE conjE) (rule that)
  note st = this
  have "st_Min st = 5 \<or> st_Min st = 2" "st_Max st = 5 \<or> st_Max st = 2" using st(5) by simp_all
  moreover have "sint (st_Min st) \<le> sint (2 :: i64)" "sint (5 :: i64) \<le> sint (st_Max st)" using st(6) by simp_all
  ultimately have "st_Min st = 2" "st_Max st = 5" by (elim disjE; simp)+
  with st(1-4) r(5) show ?thesis by (intro exI [of _ out] exI [of _ st]) simp
qed

text \<open>
  The index is the floor of \<open>p n\<close>, which is one more than the nearest rank where \<open>p n\<close> is an integer: of two
  samples the 50th percentile is the greater one.
\<close>

lemma percentile_above_nearest_rank: "percentile [1, 2] (fl (50 / 100)) = Ret 2"
proof -
  have "rank (fl (50 / 100)) 2 = 1" using rank_median [of 2] by simp
  then show ?thesis using percentile_rank [of "[1, 2 :: i64]"] by (simp add: numeral_2_eq_2)
qed

end
