(* ===== verification/Backup.thy ===== *)
theory Backup
  imports Replication GoSha256
begin

text \<open>
  Backup files, \<^verbatim>\<open>internal/backup/backup.go\<close>: one gob stream with the description of the backup and
  its entries, and a checksum of the entries as this process encodes them.
\<close>

section \<open>Description of a backup\<close>

text \<open>\<^verbatim>\<open>CreatedAt\<close> is an instant in nanoseconds since the epoch; the zero time is that of year 1.\<close>

record Meta =
  FormatVersion :: int
  bm_NamespaceID :: bytes
  RecoveryPoint :: u64
  EntryCount :: int
  CreatedAt :: int
  SHA256Entries :: bytes

definition currentBackupVersion :: int where
  "currentBackupVersion = 1"

definition epoch_seconds :: int where
  "epoch_seconds = 62135596800"

definition zero_time :: int where
  "zero_time = - epoch_seconds * 1000000000"

text \<open>\<^verbatim>\<open>Time.GobEncode\<close> of a time in UTC; gob leaves out the zero time.\<close>

definition time_bytes :: "int \<Rightarrow> bytes" where
  "time_bytes t =
     (if t = zero_time then []
      else 1 # rev (PutUint64 (of_int (t div 1000000000 + epoch_seconds)))
        @ rev (PutUint32 (of_int (t mod 1000000000))) @ [0xff, 0xff])"

definition bytes_time :: "bytes \<Rightarrow> int option" where
  "bytes_time bs =
     (if bs = [] then Some zero_time
      else if length bs \<noteq> 15 \<or> hd bs \<noteq> 1 then None
      else (case (Uint64 (rev (take 8 (drop 1 bs))), Uint32 (rev (take 4 (drop 9 bs)))) of
              (Ret sec, Ret nsec) \<Rightarrow> Some ((sint sec - epoch_seconds) * 1000000000 + uint nsec)
            | _ \<Rightarrow> None))"

definition meta_type :: gtype where
  "meta_type = TStruct [TInt, TBytes, TUint, TInt, TBytes, TBytes]"

definition meta_gval :: "Meta \<Rightarrow> gval" where
  "meta_gval m = VStruct [VInt (FormatVersion m), VBytes (bm_NamespaceID m), VUint (unat (RecoveryPoint m)),
     VInt (EntryCount m), VBytes (time_bytes (CreatedAt m)), VBytes (SHA256Entries m)]"

fun gval_meta :: "gval \<Rightarrow> Meta option" where
  "gval_meta (VStruct [VInt ver, VBytes ns, VUint rp, VInt n, VBytes t, VBytes digest]) =
     map_option (\<lambda>tm. \<lparr>FormatVersion = ver, bm_NamespaceID = ns, RecoveryPoint = of_nat rp, EntryCount = n,
       CreatedAt = tm, SHA256Entries = digest\<rparr>) (bytes_time t)"
| "gval_meta _ = None"

definition payload_defs :: "gob_registry \<Rightarrow> wire_type list" where
  "payload_defs reg =
     [StructT (lit ''payload'') (id_payload reg) [(lit ''Meta'', id_Meta reg), (lit ''Entries'', id_Entries reg)],
      StructT (lit ''Meta'') (id_Meta reg)
        [(lit ''FormatVersion'', gob_tInt), (lit ''NamespaceID'', gob_tString), (lit ''RecoveryPoint'', gob_tUint),
         (lit ''EntryCount'', gob_tInt), (lit ''CreatedAt'', id_Time reg), (lit ''SHA256Entries'', gob_tString)],
      GobEncoderT (lit ''Time'') (id_Time reg)]
     @ entries_defs reg"

definition payload_type :: gtype where
  "payload_type = TStruct [meta_type, TSlice entry_type]"

definition payload_gval :: "Meta \<Rightarrow> SnapshotEntry list \<Rightarrow> gval" where
  "payload_gval m es = VStruct [meta_gval m, entries_gval es]"

fun gval_payload :: "gval \<Rightarrow> (Meta \<times> SnapshotEntry list) option" where
  "gval_payload (VStruct [m, es]) =
     (case (gval_meta m, gval_entries es) of (Some meta, Some entries) \<Rightarrow> Some (meta, entries) | _ \<Rightarrow> None)"
| "gval_payload _ = None"

section \<open>Writing\<close>

datatype backup_error =
    CreateFailed | EncodeEntries | EncodePayload | SyncFailed os_error | OpenFailed | DecodePayload
  | UnsupportedVersion int | ReencodeEntries | ChecksumMismatch

text \<open>The encoder writes message by message and stops at the first error.\<close>

fun write_messages :: "bytes list \<Rightarrow> osfile \<Rightarrow> bool \<times> osfile" where
  "write_messages [] f = (True, f)"
| "write_messages (m # ms) f =
     (if tooBig \<le> length m then (False, f)
      else (case file_Write (gob_message m) f of
              ((_, None), f1) \<Rightarrow> write_messages ms f1
            | ((_, Some _), f1) \<Rightarrow> (False, f1)))"

definition backup_Write :: "gob_registry \<Rightarrow> int \<Rightarrow> Meta \<Rightarrow> SnapshotEntry list \<Rightarrow> osfile \<Rightarrow> (backup_error + Meta) \<times> osfile" where
  "backup_Write reg now meta entries f =
     (case encode_entries reg entries of
        None \<Rightarrow> (Inl EncodeEntries, f)
      | Some entryBuf \<Rightarrow>
          (let meta1 = meta\<lparr>FormatVersion := currentBackupVersion, EntryCount := int (length entries),
                 SHA256Entries := hex (Sum256 entryBuf), CreatedAt := now\<rparr> in
           case write_messages (gob_messages (payload_defs reg) (payload_gval meta1 entries)) f of
             (False, f1) \<Rightarrow> (Inl EncodePayload, f1)
           | (True, f1) \<Rightarrow> (Inr meta1, f1)))"

text \<open>
  \<^verbatim>\<open>WriteFile\<close> with \<^verbatim>\<open>O_EXCL\<close>: the file must not exist.  \<open>created\<close> is what the operating system makes of the
  call: the new file with the faults that lie ahead of it, or a failure.
\<close>

definition backup_WriteFile :: "gob_registry \<Rightarrow> int \<Rightarrow> osfile option \<Rightarrow> bytes \<Rightarrow> Meta \<Rightarrow> SnapshotEntry list
    \<Rightarrow> (bytes \<rightharpoonup> osfile) \<Rightarrow> (backup_error + Meta) \<times> (bytes \<rightharpoonup> osfile)" where
  "backup_WriteFile reg now created pth meta entries files =
     (case (files pth, created) of
        (None, Some f) \<Rightarrow>
          (case backup_Write reg now meta entries f of
             (Inl err, f1) \<Rightarrow> (Inl err, files(pth \<mapsto> snd (file_Close f1)))
           | (Inr meta1, f1) \<Rightarrow>
               (case file_Sync f1 of
                  (Some e, f2) \<Rightarrow> (Inl (SyncFailed e), files(pth \<mapsto> snd (file_Close f2)))
                | (None, f2) \<Rightarrow> (Inr meta1, files(pth \<mapsto> snd (file_Close f2)))))
      | _ \<Rightarrow> (Inl CreateFailed, files))"

section \<open>Reading\<close>

definition backup_Read :: "gob_registry \<Rightarrow> reader \<Rightarrow> backup_error + Meta \<times> SnapshotEntry list" where
  "backup_Read reg r =
     (case Option.bind (gob_Decode payload_type [] (rd_bytes r)) gval_payload of
        None \<Rightarrow> Inl DecodePayload
      | Some (meta, entries) \<Rightarrow>
          if FormatVersion meta \<noteq> currentBackupVersion then Inl (UnsupportedVersion (FormatVersion meta))
          else (case encode_entries reg entries of
             None \<Rightarrow> Inl ReencodeEntries
           | Some entryBuf \<Rightarrow>
               if hex (Sum256 entryBuf) \<noteq> SHA256Entries meta then Inl ChecksumMismatch
               else Inr (meta, entries)))"

definition backup_ReadFile :: "gob_registry \<Rightarrow> bytes \<Rightarrow> (bytes \<rightharpoonup> osfile)
    \<Rightarrow> (backup_error + Meta \<times> SnapshotEntry list) \<times> (bytes \<rightharpoonup> osfile)" where
  "backup_ReadFile reg pth files =
     (case files pth of
        None \<Rightarrow> (Inl OpenFailed, files)
      | Some f \<Rightarrow>
          (case file_reader 0 (f\<lparr>closed := False\<rparr>) of
             (r, f1) \<Rightarrow> (backup_Read reg r, files(pth \<mapsto> snd (file_Close f1)))))"

section \<open>Round trip\<close>

lemma length_hex [simp]: "length (hex bs) = 2 * length bs"
  by (induction bs) (simp_all add: hex_def)

lemma length_Sum256 [simp]: "length (Sum256 bs) = 32"
  by (cases "sha_blocks (length (sha_pad bs) div 64) sha_init (be_words (sha_pad bs))") (simp add: Sum256_def Let_def be32_def)

lemma bytes_time_back:
  assumes "0 \<le> t" and "t < 2 ^ 63"
  shows "bytes_time (time_bytes t) = Some t"
proof -
  let ?s = "t div 1000000000 + epoch_seconds" and ?n = "t mod 1000000000"
  have s: "0 \<le> ?s" "?s < 2 ^ 63" using assms by (simp_all add: epoch_seconds_def) 
  have n: "0 \<le> ?n" "?n < 2 ^ 32" by simp_all
  have "sint (of_int ?s :: u64) = ?s" using s by (simp only: sint_sbintrunc') (simp add: signed_take_bit_int_eq_self)
  moreover have "uint (of_int ?n :: u32) = ?n" using n by (simp add: unsigned_of_int take_bit_int_eq_self)
  moreover have "t \<noteq> zero_time" using assms by (simp add: zero_time_def epoch_seconds_def)
  ultimately show ?thesis
    using Uint64_PutUint64 [of "of_int ?s" "[]"] Uint32_PutUint32 [of "of_int ?n" "[]"]
    by (simp add: time_bytes_def bytes_time_def)
qed

definition meta_ok :: "Meta \<Rightarrow> bool" where
  "meta_ok m \<longleftrightarrow> length (bm_NamespaceID m) < 2 ^ 20 \<and> FormatVersion m = 1 \<and> 0 \<le> EntryCount m \<and> EntryCount m < 2 ^ 63
     \<and> 0 \<le> CreatedAt m \<and> CreatedAt m < 2 ^ 63 \<and> length (SHA256Entries m) = 64"

lemma length_time_bytes: "length (time_bytes t) \<le> 15"
  by (simp add: time_bytes_def)

lemma payload_gval_type:
  "meta_ok m \<Longrightarrow> entries_ok es \<Longrightarrow> has_type payload_type (payload_gval m es)"
  using unat_u64_less [of "RecoveryPoint m"] length_time_bytes [of "CreatedAt m"] entries_gval_type [of es]
  by (simp add: payload_type_def payload_gval_def meta_type_def meta_gval_def meta_ok_def)

lemma gval_payload_gval: "meta_ok m \<Longrightarrow> gval_payload (payload_gval m es) = Some (m, es)"
  by (simp add: payload_gval_def meta_gval_def bytes_time_back meta_ok_def)

lemma payload_defs_ids: "registry_ok reg \<Longrightarrow> good_ids (payload_defs reg)"
  by (simp add: registry_ok_def good_ids_def payload_defs_def entries_defs_def)

lemma payload_defs_small: "registry_ok reg \<Longrightarrow> d \<in> set (payload_defs reg) \<Longrightarrow> length (wire_bytes d) < 2 ^ 32"
proof (cases "d \<in> set (entries_defs reg)")
  case False
  assume "registry_ok reg" and "d \<in> set (payload_defs reg)"
  with False show ?thesis
    by (intro le_less_trans [OF length_wire_bytes])
      (auto simp: registry_ok_def payload_defs_def gob_tInt_def gob_tUint_def gob_tString_def lit_def)
qed (rule entries_defs_small)

lemma payload_Encode:
  assumes "registry_ok reg" and "meta_ok m" and "entries_size es < 2 ^ 31"
  obtains bs where "gob_Encode (payload_defs reg) (payload_gval m es) = Some bs"
    and "Option.bind (gob_Decode payload_type [] bs) gval_payload = Some (m, es)"
proof -
  have ok: "entries_ok es" using assms(3) by (simp add: entries_size_ok)
  note ty = payload_gval_type [OF assms(2) ok]
  have "gob_size (payload_gval m es) < 2 ^ 32"
    using assms(2,3) length_time_bytes [of "CreatedAt m"] by (simp add: payload_gval_def meta_gval_def meta_ok_def)
  from gob_Encode_small [OF payload_defs_ids [OF assms(1)] _ ty this] payload_defs_small [OF assms(1)] obtain bs where
    bs: "gob_Encode (payload_defs reg) (payload_gval m es) = Some bs" by blast
  from gob_Decode_Encode [OF bs payload_defs_ids [OF assms(1)] ty] gval_payload_gval [OF assms(2)] show thesis
    by (intro that [OF bs]) simp
qed

lemma write_messages_healthy:
  assumes "healthy f" and "list_all (\<lambda>m. length m < tooBig) ms"
  shows "write_messages ms f = (True, f\<lparr>content := content f @ concat (map gob_message ms)\<rparr>)"
  using assms
proof (induction ms arbitrary: f)
  case (Cons m ms)
  have "file_Write (gob_message m) f = ((length (gob_message m), None), f\<lparr>content := content f @ gob_message m\<rparr>)"
    using Cons.prems(1) by (simp add: file_Write_def)
  with Cons.IH [of "f\<lparr>content := content f @ gob_message m\<rparr>"] Cons.prems show ?case by simp
qed simp

lemma gob_Encode_messages:
  "gob_Encode defs v = Some bs \<Longrightarrow>
    list_all (\<lambda>m. length m < tooBig) (gob_messages defs v) \<and> bs = concat (map gob_message (gob_messages defs v))"
  by (auto simp: gob_Encode_def Let_def split: if_splits)

definition fresh_file :: osfile where
  "fresh_file = \<lparr>content = [], durable = 0, closed = False, faults = []\<rparr>"

text \<open>What \<^verbatim>\<open>Write\<close> puts into a file that works.\<close>

lemma backup_Write_healthy:
  assumes "registry_ok reg" and "entries_size es < 2 ^ 31" and "length (bm_NamespaceID meta) < 2 ^ 20"
    and "0 \<le> now" and "now < 2 ^ 63" and "healthy f" and "content f = []"
  obtains buf bs m where "encode_entries reg es = Some buf"
    and "m = meta\<lparr>FormatVersion := 1, EntryCount := int (length es), SHA256Entries := hex (Sum256 buf), CreatedAt := now\<rparr>"
    and "backup_Write reg now meta es f = (Inr m, f\<lparr>content := bs\<rparr>)"
    and "Option.bind (gob_Decode payload_type [] bs) gval_payload = Some (m, es)"
proof -
  obtain buf where buf: "encode_entries reg es = Some buf"
    using encode_entries_succeeds [OF assms(1), of es] assms(2) by auto
  define m where "m = meta\<lparr>FormatVersion := 1, EntryCount := int (length es), SHA256Entries := hex (Sum256 buf), CreatedAt := now\<rparr>"
  have "length es < 2 ^ 63" using entries_size_ok [of es] assms(2) by (simp add: entries_ok_def)
  then have mok: "meta_ok m" using assms(3-5) by (simp add: m_def meta_ok_def)
  obtain bs where bs: "gob_Encode (payload_defs reg) (payload_gval m es) = Some bs"
    "Option.bind (gob_Decode payload_type [] bs) gval_payload = Some (m, es)" using payload_Encode [OF assms(1) mok assms(2)] .
  from gob_Encode_messages [OF bs(1)] write_messages_healthy [OF assms(6)] assms(7)
  have "backup_Write reg now meta es f = (Inr m, f\<lparr>content := bs\<rparr>)"
    by (simp add: backup_Write_def buf Let_def currentBackupVersion_def flip: m_def)
  with that buf m_def bs(2) show thesis by blast
qed

lemma backup_WriteFile_healthy:
  assumes "registry_ok reg" and "entries_size es < 2 ^ 31" and "length (bm_NamespaceID meta) < 2 ^ 20"
    and "0 \<le> now" and "now < 2 ^ 63" and "files pth = None"
  obtains buf bs m where "encode_entries reg es = Some buf"
    and "m = meta\<lparr>FormatVersion := 1, EntryCount := int (length es), SHA256Entries := hex (Sum256 buf), CreatedAt := now\<rparr>"
    and "backup_WriteFile reg now (Some fresh_file) pth meta es files =
      (Inr m, files(pth \<mapsto> \<lparr>content = bs, durable = length bs, closed = True, faults = []\<rparr>))"
    and "Option.bind (gob_Decode payload_type [] bs) gval_payload = Some (m, es)"
proof -
  have h: "healthy fresh_file" "content fresh_file = []" by (simp_all add: fresh_file_def healthy_def)
  obtain buf bs m where b: "encode_entries reg es = Some buf"
    "m = meta\<lparr>FormatVersion := 1, EntryCount := int (length es), SHA256Entries := hex (Sum256 buf), CreatedAt := now\<rparr>"
    "backup_Write reg now meta es fresh_file = (Inr m, fresh_file\<lparr>content := bs\<rparr>)"
    "Option.bind (gob_Decode payload_type [] bs) gval_payload = Some (m, es)"
    using backup_Write_healthy [OF assms(1-5) h] .
  have "backup_WriteFile reg now (Some fresh_file) pth meta es files =
      (Inr m, files(pth \<mapsto> \<lparr>content = bs, durable = length bs, closed = True, faults = []\<rparr>))"
    using assms(6) b(3) by (simp add: backup_WriteFile_def file_Sync_def file_Close_def syscall_def fresh_file_def)
  with that b show thesis by blast
qed

lemma backup_Read_stream:
  assumes "Option.bind (gob_Decode payload_type [] bs) gval_payload = Some (m, es)" and "FormatVersion m = 1"
    and "encode_entries reg es = Some buf"
  shows "backup_Read reg \<lparr>rd_bytes = bs, rd_end = e\<rparr> =
    (if hex (Sum256 buf) = SHA256Entries m then Inr (m, es) else Inl ChecksumMismatch)"
  using assms by (simp add: backup_Read_def currentBackupVersion_def)

lemma backup_ReadFile_disk:
  "files pth = Some (disk bs) \<Longrightarrow>
    fst (backup_ReadFile reg pth files) = backup_Read reg \<lparr>rd_bytes = bs, rd_end = None\<rparr>"
  by (simp add: backup_ReadFile_def file_reader_def syscall_def disk_def)

section \<open>Checksums\<close>

text \<open>The digits determine the bytes.\<close>

lemma unat_hex_digit:
  assumes "unat w < 16"
  shows "unat (hex_digit w) = (if unat w < 10 then 48 + unat w else 87 + unat w)"
proof -
  have "w < 10 \<longleftrightarrow> unat w < 10" by (simp add: word_less_nat_alt)
  then show ?thesis using assms by (simp add: hex_digit_def unat_word_ariths)
qed

lemma hex_digit_inj: "unat v < 16 \<Longrightarrow> unat w < 16 \<Longrightarrow> hex_digit v = hex_digit w \<Longrightarrow> v = w"
  using unat_hex_digit [of v] unat_hex_digit [of w] by (simp add: word_unat_eq_iff split: if_splits)

lemma nibbles: "unat (drop_bit 4 b) = unat b div 16" "unat (b AND 15) = unat b mod 16" for b :: byte
proof -
  show "unat (drop_bit 4 b) = unat b div 16" by (simp add: drop_bit_eq_div unat_div)
  have "b AND 15 = take_bit 4 b" by (simp add: take_bit_eq_mask mask_eq_exp_minus_1)
  then show "unat (b AND 15) = unat b mod 16" by (simp add: take_bit_eq_mod unat_mod)
qed

lemma hex_inj: "hex xs = hex ys \<Longrightarrow> xs = ys"
proof (induction xs arbitrary: ys)
  case Nil
  then show ?case by (cases ys) (simp_all add: hex_def)
next
  case (Cons x xs)
  then obtain y ys' where ys: "ys = y # ys'" by (cases ys) (simp_all add: hex_def)
  have lt: "unat b div 16 < 16" for b :: byte using unat_byte_less [of b] by simp
  from Cons.prems have "hex_digit (drop_bit 4 x) = hex_digit (drop_bit 4 y)" "hex_digit (x AND 15) = hex_digit (y AND 15)"
    and tail: "hex xs = hex ys'" by (simp_all add: ys hex_def)
  then have "drop_bit 4 x = drop_bit 4 y" "x AND 15 = y AND 15"
    using lt by (auto intro!: hex_digit_inj simp: nibbles)
  then have "unat x div 16 = unat y div 16" "unat x mod 16 = unat y mod 16" using nibbles by metis+
  then have "unat x = unat y" by (metis div_mult_mod_eq)
  with Cons.IH [OF tail] ys show ?case by (simp add: word_unat_eq_iff)
qed

text \<open>The numbers of the types are in the encoding.\<close>

lemma encode_entries_ids:
  assumes "registry_ok reg1" and "registry_ok reg2" and "encode_entries reg1 es1 = Some buf" and "encode_entries reg2 es2 = Some buf"
  shows "id_Entries reg1 = id_Entries reg2"
proof -
  let ?m = "\<lambda>reg. gob_int (- id_Entries reg) @ wire_bytes (hd (entries_defs reg))"
  have split: "\<exists>rest. buf = gob_message (?m reg) @ rest \<and> length (?m reg) < tooBig"
    if "encode_entries reg es = Some buf" for reg es
    using gob_Encode_messages [OF that [unfolded encode_entries_def]]
    by (auto simp: gob_messages_def entries_defs_def)
  from split [OF assms(3)] obtain rest1 where b1: "buf = gob_message (?m reg1) @ rest1" "length (?m reg1) < tooBig" by blast
  from split [OF assms(4)] obtain rest2 where b2: "buf = gob_message (?m reg2) @ rest2" "length (?m reg2) < tooBig" by blast
  have "Some (?m reg1, rest1) = gob_dec_bytes buf" using b1 by simp
  also have "\<dots> = Some (?m reg2, rest2)" using b2 by simp
  finally have m: "?m reg1 = ?m reg2" by simp
  have dec: "gob_dec_int (?m reg) = Some (- id_Entries reg, wire_bytes (hd (entries_defs reg)))" if "registry_ok reg" for reg
    using that by (intro gob_dec_int_enc) (simp_all add: registry_ok_def)
  from dec [OF assms(1)] dec [OF assms(2)] show ?thesis unfolding m by simp
qed

text \<open>The encodings of two lists of entries, each in its own process, differ and have the same SHA-256.\<close>

definition collide :: "gob_registry \<Rightarrow> SnapshotEntry list \<Rightarrow> gob_registry \<Rightarrow> SnapshotEntry list \<Rightarrow> bool" where
  "collide reg es reg2 es2 =
     (case (encode_entries reg es, encode_entries reg2 es2) of
        (Some buf, Some buf2) \<Rightarrow> buf \<noteq> buf2 \<and> Sum256 buf = Sum256 buf2
      | _ \<Rightarrow> False)"

section \<open>Properties\<close>

text \<open>
  C10. A backup that was acknowledged is on stable storage and restores exactly: for every list of
  entries below two gigabytes, \<^verbatim>\<open>WriteFile\<close> to a new path on a disk that works returns the description
  it wrote, and after a crash at any time \<^verbatim>\<open>ReadFile\<close> in the same process gives back this
  description and the entries.
\<close>

theorem backup_roundtrip:
  assumes "registry_ok reg" and "entries_size es < 2 ^ 31" and "length (bm_NamespaceID meta) < 2 ^ 20"
    and "0 \<le> now" and "now < 2 ^ 63" and "files pth = None"
  shows "\<exists>m files1 f. backup_WriteFile reg now (Some fresh_file) pth meta es files = (Inr m, files1) \<and> files1 pth = Some f
    \<and> bm_NamespaceID m = bm_NamespaceID meta \<and> RecoveryPoint m = RecoveryPoint meta \<and> EntryCount m = int (length es)
    \<and> CreatedAt m = now
    \<and> (\<forall>k \<ge> durable f. fst (backup_ReadFile reg pth (files1(pth \<mapsto> crash k f))) = Inr (m, es))"
proof -
  obtain buf bs m where b: "encode_entries reg es = Some buf"
    "m = meta\<lparr>FormatVersion := 1, EntryCount := int (length es), SHA256Entries := hex (Sum256 buf), CreatedAt := now\<rparr>"
    "backup_WriteFile reg now (Some fresh_file) pth meta es files =
      (Inr m, files(pth \<mapsto> \<lparr>content = bs, durable = length bs, closed = True, faults = []\<rparr>))"
    "Option.bind (gob_Decode payload_type [] bs) gval_payload = Some (m, es)"
    using backup_WriteFile_healthy [where files = files and pth = pth, OF assms] .
  let ?f = "\<lparr>content = bs, durable = length bs, closed = True, faults = []\<rparr>"
  have "fst (backup_ReadFile reg pth ((files(pth \<mapsto> ?f))(pth \<mapsto> crash k ?f))) = Inr (m, es)" if "length bs \<le> k" for k
    using that b(1,2,4) by (subst backup_ReadFile_disk [of _ _ bs]) (simp_all add: crash_def backup_Read_stream)
  with b(2,3) show ?thesis
    by (intro exI [of _ m] exI [of _ "files(pth \<mapsto> ?f)"] exI [of _ ?f]) simp
qed

definition sample_meta :: Meta where
  "sample_meta = \<lparr>FormatVersion = 0, bm_NamespaceID = lit ''ns'', RecoveryPoint = 7, EntryCount = 0, CreatedAt = 0, SHA256Entries = []\<rparr>"

definition sample_entries :: "SnapshotEntry list" where
  "sample_entries = [\<lparr>snap_Key = [0x6b], snap_Value = [0x76], snap_ExpiresAtUnixNano = 0\<rparr>]"

theorem backup_roundtrip_witness:
  "\<exists>m files1 f. backup_WriteFile sample_registry 1700000000000000000 (Some fresh_file) (lit ''/b'') sample_meta sample_entries Map.empty =
      (Inr m, files1) \<and> files1 (lit ''/b'') = Some f
    \<and> fst (backup_ReadFile sample_registry (lit ''/b'') (files1(lit ''/b'' \<mapsto> crash (durable f) f))) = Inr (m, sample_entries)"
proof -
  have "entries_size sample_entries < 2 ^ 31" "length (bm_NamespaceID sample_meta) < 2 ^ 20"
    by (simp_all add: entries_size_def sample_entries_def sample_meta_def)
  from backup_roundtrip [OF sample_registry_ok this, of 1700000000000000000 Map.empty "lit ''/b''"] show ?thesis by fastforce
qed

text \<open>
  A good backup is rejected by a process that has given its types other numbers: the checksum covers
  the encoding of the entries in the process that wrote them, numbers included, and the reader
  computes it over its own encoding.  If such a process does accept the backup, the two
  encodings of its entries collide under SHA-256.
\<close>

lemma backup_other_process:
  assumes "registry_ok reg" and "registry_ok reg2" and "id_Entries reg \<noteq> id_Entries reg2"
    and "entries_size es < 2 ^ 31" and "length (bm_NamespaceID meta) < 2 ^ 20" and "0 \<le> now" and "now < 2 ^ 63"
    and "files pth = None"
  shows "\<exists>m files1. backup_WriteFile reg now (Some fresh_file) pth meta es files = (Inr m, files1)
    \<and> fst (backup_ReadFile reg pth files1) = Inr (m, es)
    \<and> (fst (backup_ReadFile reg2 pth files1) = Inl ChecksumMismatch \<or> collide reg es reg2 es)"
proof -
  obtain buf bs m where b: "encode_entries reg es = Some buf"
    "m = meta\<lparr>FormatVersion := 1, EntryCount := int (length es), SHA256Entries := hex (Sum256 buf), CreatedAt := now\<rparr>"
    "backup_WriteFile reg now (Some fresh_file) pth meta es files =
      (Inr m, files(pth \<mapsto> \<lparr>content = bs, durable = length bs, closed = True, faults = []\<rparr>))"
    "Option.bind (gob_Decode payload_type [] bs) gval_payload = Some (m, es)"
    using backup_WriteFile_healthy [where files = files and pth = pth, OF assms(1,4-8)] .
  let ?files = "files(pth \<mapsto> \<lparr>content = bs, durable = length bs, closed = True, faults = []\<rparr>)"
  have f: "?files pth = Some (disk bs)" by (simp add: disk_def)
  obtain buf2 where buf2: "encode_entries reg2 es = Some buf2"
    using encode_entries_succeeds [OF assms(2), of es] assms(4) by auto
  have "buf \<noteq> buf2" using encode_entries_ids [OF assms(1,2) b(1)] buf2 assms(3) by auto
  moreover have "fst (backup_ReadFile reg2 pth ?files) =
      (if hex (Sum256 buf2) = hex (Sum256 buf) then Inr (m, es) else Inl ChecksumMismatch)"
    unfolding backup_ReadFile_disk [where files = ?files, OF f] using backup_Read_stream [OF b(4) _ buf2] b(2) by simp
  ultimately have "fst (backup_ReadFile reg2 pth ?files) = Inl ChecksumMismatch \<or> collide reg es reg2 es"
    using hex_inj [of "Sum256 buf2" "Sum256 buf"] b(1) buf2 by (auto simp: collide_def)
  moreover have "fst (backup_ReadFile reg pth ?files) = Inr (m, es)"
    unfolding backup_ReadFile_disk [where files = ?files, OF f] using backup_Read_stream [OF b(4) _ b(1)] b(2) by simp
  ultimately show ?thesis using b(3) by blast
qed

definition other_registry :: gob_registry where
  "other_registry = \<lparr>id_Command = 70, id_payload = 67, id_Meta = 68, id_Time = 69, id_Entries = 64,
     id_SnapshotEntry = 65, name_Entries = []\<rparr>"

lemma backup_other_process_example:
  "\<exists>m files1. backup_WriteFile sample_registry 0 (Some fresh_file) (lit ''/b'') sample_meta sample_entries Map.empty = (Inr m, files1)
    \<and> fst (backup_ReadFile sample_registry (lit ''/b'') files1) = Inr (m, sample_entries)
    \<and> (fst (backup_ReadFile other_registry (lit ''/b'') files1) = Inl ChecksumMismatch
         \<or> collide sample_registry sample_entries other_registry sample_entries)"
  by (rule backup_other_process [OF sample_registry_ok])
    (simp_all add: registry_ok_def other_registry_def sample_registry_def entries_size_def sample_entries_def sample_meta_def)

text \<open>
  C20. Tampering with the entries is detected: whatever the bytes of the file, if the same process
  accepts it and it carries the checksum of a backup of \<open>es\<close>, then it holds exactly the entries
  \<open>es\<close>, or other entries whose encoding differs from that of \<open>es\<close> and has the same SHA-256.
\<close>

theorem backup_integrity:
  assumes "registry_ok reg" and "encode_entries reg es = Some buf" and "entries_ok es" and "entries_ok es2"
    and "backup_Read reg r = Inr (m2, es2)" and "SHA256Entries m2 = hex (Sum256 buf)"
  shows "es2 = es \<or> collide reg es reg es2"
proof -
  from assms(5) obtain buf2 where buf2: "encode_entries reg es2 = Some buf2" "hex (Sum256 buf2) = SHA256Entries m2"
    by (auto simp: backup_Read_def split: option.splits prod.splits if_splits)
  with assms(6) have "Sum256 buf2 = Sum256 buf" using hex_inj by simp
  moreover have "es2 = es" if "buf2 = buf"
    using decode_encode_entries [OF assms(1,3,2)] decode_encode_entries [OF assms(1,4) buf2(1)] that by simp
  ultimately show ?thesis using assms(2) buf2(1) by (auto simp: collide_def)
qed

theorem backup_integrity_witness:
  "\<exists>buf bs m es2. encode_entries sample_registry sample_entries = Some buf
    \<and> backup_Read sample_registry \<lparr>rd_bytes = bs, rd_end = None\<rparr> = Inr (m, es2) \<and> SHA256Entries m = hex (Sum256 buf)
    \<and> (es2 = sample_entries \<or> collide sample_registry sample_entries sample_registry es2)"
proof -
  have es: "entries_size sample_entries < 2 ^ 31" by (simp add: entries_size_def sample_entries_def)
  obtain buf bs m where b: "encode_entries sample_registry sample_entries = Some buf"
    "m = sample_meta\<lparr>FormatVersion := 1, EntryCount := int (length sample_entries), SHA256Entries := hex (Sum256 buf), CreatedAt := 0\<rparr>"
    "backup_WriteFile sample_registry 0 (Some fresh_file) (lit ''/b'') sample_meta sample_entries Map.empty =
      (Inr m, [lit ''/b'' \<mapsto> \<lparr>content = bs, durable = length bs, closed = True, faults = []\<rparr>])"
    "Option.bind (gob_Decode payload_type [] bs) gval_payload = Some (m, sample_entries)"
    by (rule backup_WriteFile_healthy [OF sample_registry_ok es, of sample_meta 0 Map.empty "lit ''/b''"])
      (simp_all add: sample_meta_def)
  have rd: "backup_Read sample_registry \<lparr>rd_bytes = bs, rd_end = None\<rparr> = Inr (m, sample_entries)"
    using backup_Read_stream [OF b(4) _ b(1)] b(2) by simp
  have ok: "entries_ok sample_entries" using es by (simp add: entries_size_ok)
  have m: "SHA256Entries m = hex (Sum256 buf)" by (simp add: b(2))
  have "sample_entries = sample_entries \<or> collide sample_registry sample_entries sample_registry sample_entries"
    by (rule backup_integrity [OF sample_registry_ok b(1) ok ok rd m])
  with b(1) rd m show ?thesis by blast
qed

end
