(* ===== verification/Node.thy ===== *)
theory Node
  imports Replication GoText
begin

text \<open>
  A replicated node: \<^verbatim>\<open>internal/replication/node.go\<close> and \<^verbatim>\<open>internal/replication/transport.go\<close>.  The raft
  library and what the operating system answers are parameters: records of the functions the
  node calls.  What the program relies on of raft is the predicate \<open>raft_applies\<close>.
\<close>

section \<open>The raft library as the node uses it\<close>

datatype RaftState = Follower | Candidate | Leader | Shutdown

record 'r Raft =
  raft_Apply :: "bytes \<Rightarrow> int \<Rightarrow> 'r \<times> engine \<Rightarrow> ApplyFuture \<times> 'r \<times> engine"
  raft_State :: "'r \<Rightarrow> RaftState"
  raft_LeaderWithID :: "'r \<Rightarrow> bytes \<times> bytes"
  raft_AddVoter :: "bytes \<Rightarrow> bytes \<Rightarrow> 'r \<Rightarrow> raft_error option \<times> 'r"
  raft_RemoveServer :: "bytes \<Rightarrow> 'r \<Rightarrow> raft_error option \<times> 'r"
  raft_GetConfiguration :: "'r \<Rightarrow> raft_error + (bytes \<times> bytes \<times> bool) list"
  raft_BootstrapCluster :: "(bytes \<times> bytes) list \<Rightarrow> 'r \<Rightarrow> raft_error option \<times> 'r"
  raft_Shutdown :: "'r \<Rightarrow> raft_error option \<times> 'r"

record 'r Node =
  raft :: "'r Raft"
  applyTimeout :: int
  gob :: gob_registry

section \<open>Operations\<close>

definition Propose :: "'r Node \<Rightarrow> Command \<Rightarrow> 'r \<times> engine \<Rightarrow> (repl_error + ApplyResult) \<times> 'r \<times> engine" where
  "Propose n cmd s =
     (case encodeCommand (gob n) cmd of
        None \<Rightarrow> (Inl EncodeFailed, s)
      | Some b \<Rightarrow>
          (case raft_Apply (raft n) b (applyTimeout n) s of
             (future, s1) \<Rightarrow> (AsApplyResult future, s1)))"

definition IsLeader :: "'r Node \<Rightarrow> 'r \<Rightarrow> bool" where
  "IsLeader n r \<longleftrightarrow> raft_State (raft n) r = Leader"

definition LeaderAddr :: "'r Node \<Rightarrow> 'r \<Rightarrow> bytes" where
  "LeaderAddr n r = (case raft_LeaderWithID (raft n) r of (addr, _) \<Rightarrow> addr)"

definition AddVoter :: "'r Node \<Rightarrow> bytes \<Rightarrow> bytes \<Rightarrow> 'r \<Rightarrow> raft_error option \<times> 'r" where
  "AddVoter n nid addr r = raft_AddVoter (raft n) nid addr r"

definition RemoveServer :: "'r Node \<Rightarrow> bytes \<Rightarrow> 'r \<Rightarrow> raft_error option \<times> 'r" where
  "RemoveServer n nid r = raft_RemoveServer (raft n) nid r"

record ServerInfo =
  si_ID :: bytes
  si_Addr :: bytes
  si_IsVoter :: bool

record Servers =
  Members :: "ServerInfo list"
  srv_LeaderID :: bytes
  srv_LeaderAddr :: bytes

definition ListServers :: "'r Node \<Rightarrow> 'r \<Rightarrow> raft_error + Servers" where
  "ListServers n r =
     (case raft_GetConfiguration (raft n) r of
        Inl err \<Rightarrow> Inl err
      | Inr servers \<Rightarrow>
          (case raft_LeaderWithID (raft n) r of
             (leaderAddr, leaderID) \<Rightarrow>
               Inr \<lparr>Members = map (\<lambda>(i, a, v). \<lparr>si_ID = i, si_Addr = a, si_IsVoter = v\<rparr>) servers,
                    srv_LeaderID = leaderID, srv_LeaderAddr = leaderAddr\<rparr>))"

definition node_Shutdown :: "'r Node \<Rightarrow> 'r \<Rightarrow> raft_error option \<times> 'r" where
  "node_Shutdown n r = raft_Shutdown (raft n) r"

section \<open>Mutual TLS for the raft transport\<close>

record TLSConfig =
  CertFile :: bytes
  KeyFile :: bytes
  PeerCAFile :: bytes

datatype ClientAuthType = NoClientCert | RequireAndVerifyClientCert

record ('c, 'p) tls_config =
  Certificates :: "'c list"
  ClientCAs :: "'p option"
  ClientAuth :: ClientAuthType
  RootCAs :: "'p option"

text \<open>Certificates, pools and listeners: what the files hold, and whether the calls succeed.\<close>

record ('c, 'p) tls_env =
  LoadX509KeyPair :: "bytes \<Rightarrow> bytes \<Rightarrow> 'c option"
  ReadFile :: "bytes \<Rightarrow> bytes option"
  AppendCertsFromPEM :: "bytes \<Rightarrow> 'p option"
  tls_Listen :: "bytes \<Rightarrow> ('c, 'p) tls_config \<Rightarrow> bool"

record ('c, 'p) tlsStreamLayer =
  listenConfig :: "('c, 'p) tls_config"
  dialTLSConfig :: "('c, 'p) tls_config"

datatype transport_error = LoadKeyPair | ReadPeerCA | NoCertificates | TLSListen

definition newTLSStreamLayer :: "('c, 'p) tls_env \<Rightarrow> bytes \<Rightarrow> TLSConfig \<Rightarrow> transport_error + ('c, 'p) tlsStreamLayer" where
  "newTLSStreamLayer env bindAddr cfg =
     (case LoadX509KeyPair env (CertFile cfg) (KeyFile cfg) of
        None \<Rightarrow> Inl LoadKeyPair
      | Some cert \<Rightarrow>
          (case ReadFile env (PeerCAFile cfg) of
             None \<Rightarrow> Inl ReadPeerCA
           | Some caPEM \<Rightarrow>
               (case AppendCertsFromPEM env caPEM of
                  None \<Rightarrow> Inl NoCertificates
                | Some pool \<Rightarrow>
                    (let serverTLSConfig = \<lparr>Certificates = [cert], ClientCAs = Some pool,
                           ClientAuth = RequireAndVerifyClientCert, RootCAs = None\<rparr>;
                         dial = \<lparr>Certificates = [cert], ClientCAs = None, ClientAuth = NoClientCert, RootCAs = Some pool\<rparr> in
                     if \<not> tls_Listen env bindAddr serverTLSConfig then Inl TLSListen
                     else Inr \<lparr>listenConfig = serverTLSConfig, dialTLSConfig = dial\<rparr>))))"

section \<open>Starting a node\<close>

record Peer =
  peer_ID :: bytes
  peer_Addr :: bytes

record Config =
  cfg_ID :: bytes
  BindAddr :: bytes
  DataDir :: bytes
  Bootstrap :: bool
  Peers :: "Peer list"
  ApplyTimeout :: int
  cfg_TLS :: "TLSConfig option"

datatype ('c, 'p) transport = PlainTCP bytes | OverTLS "('c, 'p) tlsStreamLayer"

text \<open>The settings of raft that the node changes from their defaults.\<close>

record raft_settings =
  LocalID :: bytes
  SnapshotThreshold :: u64
  SnapshotInterval :: int

record ('r, 'c, 'p) open_env =
  MkdirAll :: "bytes \<Rightarrow> bool"
  NewBoltStore :: "bytes \<Rightarrow> bool"
  NewFileSnapshotStore :: "bytes \<Rightarrow> nat \<Rightarrow> bool"
  ResolveTCPAddr :: "bytes \<Rightarrow> bool"
  NewTCPTransport :: "bytes \<Rightarrow> bool"
  tls :: "('c, 'p) tls_env"
  NewRaft :: "raft_settings \<Rightarrow> ('c, 'p) transport \<Rightarrow> ('r Raft \<times> 'r) option"

datatype open_error =
    CreateDataDir | OpenLogStore | OpenSnapshotStore | TransportErr transport_error | ResolveAddr
  | OpenTransport | StartRaft | NoPeers | BootstrapCluster raft_error

definition second :: int where
  "second = 1000000000"

definition new_transport :: "('r, 'c, 'p) open_env \<Rightarrow> Config \<Rightarrow> open_error + ('c, 'p) transport" where
  "new_transport env cfg =
     (case cfg_TLS cfg of
        Some t \<Rightarrow>
          (case newTLSStreamLayer (tls env) (BindAddr cfg) t of
             Inl err \<Rightarrow> Inl (TransportErr err)
           | Inr layer \<Rightarrow> Inr (OverTLS layer))
      | None \<Rightarrow>
          if \<not> ResolveTCPAddr env (BindAddr cfg) then Inl ResolveAddr
          else if \<not> NewTCPTransport env (BindAddr cfg) then Inl OpenTransport
          else Inr (PlainTCP (BindAddr cfg)))"

definition bootstrap :: "Config \<Rightarrow> 'r Raft \<Rightarrow> 'r \<Rightarrow> open_error option \<times> 'r" where
  "bootstrap cfg rf r =
     (if \<not> Bootstrap cfg then (None, r)
      else if Peers cfg = [] then (Some NoPeers, r)
      else (case raft_BootstrapCluster rf (map (\<lambda>p. (peer_ID p, peer_Addr p)) (Peers cfg)) r of
              (err, r1) \<Rightarrow>
                (case err of
                   None \<Rightarrow> (None, r1)
                 | Some e \<Rightarrow> (if e = ErrCantBootstrap then None else Some (BootstrapCluster e), r1))))"

definition node_Open :: "('r, 'c, 'p) open_env \<Rightarrow> gob_registry \<Rightarrow> Config \<Rightarrow> open_error + 'r Node \<times> 'r" where
  "node_Open env reg cfg =
     (if \<not> MkdirAll env (DataDir cfg) then Inl CreateDataDir
      else
        (let raftConfig = \<lparr>LocalID = cfg_ID cfg, SnapshotThreshold = 2 ^ 30, SnapshotInterval = 24 * 3600 * second\<rparr> in
         if \<not> NewBoltStore env (path_Join [DataDir cfg, lit ''raft-log.bolt'']) then Inl OpenLogStore
         else if \<not> NewFileSnapshotStore env (DataDir cfg) 2 then Inl OpenSnapshotStore
         else (case new_transport env cfg of
                 Inl err \<Rightarrow> Inl err
               | Inr tr \<Rightarrow>
                   (case NewRaft env raftConfig tr of
                      None \<Rightarrow> Inl StartRaft
                    | Some (rf, r) \<Rightarrow>
                        (case bootstrap cfg rf r of
                           (Some err, _) \<Rightarrow> Inl err
                         | (None, r1) \<Rightarrow>
                             Inr (\<lparr>raft = rf,
                                   applyTimeout = (if ApplyTimeout cfg = 0 then 5 * second else ApplyTimeout cfg),
                                   gob = reg\<rparr>, r1))))))"

section \<open>What raft promises\<close>

text \<open>
  A proposal whose future has no error was committed and applied on this node: raft handed the
  state machine some entries committed before it, then this one, and the response is what the
  state machine answered to it.
\<close>

definition raft_applies :: "'r Raft \<Rightarrow> bool" where
  "raft_applies rf \<longleftrightarrow>
     (\<forall>b timeout r e fut r1 e1. raft_Apply rf b timeout (r, e) = (fut, r1, e1) \<longrightarrow> fut_Error fut = None \<longrightarrow>
        (\<exists>before now trm res rs0. fsm_run (before @ [(now, trm, b)]) e = Ret (rs0 @ [res], e1)
           \<and> (\<forall>i \<in> set before. entry_okay i) \<and> fut_Response fut = Some res))"

text \<open>Raft on a single node whose log is applied at once, for the examples.\<close>

definition single_raft :: "nat Raft" where
  "single_raft = \<lparr>
     raft_Apply = (\<lambda>b timeout (r, e).
       case fsm_Apply 0 1 b e of
         Ret (res, e1) \<Rightarrow> (\<lparr>fut_Error = None, fut_Response = Some res\<rparr>, Suc r, e1)
       | Panic \<Rightarrow> (\<lparr>fut_Error = Some OtherRaftError, fut_Response = None\<rparr>, r, e)),
     raft_State = (\<lambda>r. Leader),
     raft_LeaderWithID = (\<lambda>r. (lit ''127.0.0.1:7000'', lit ''n1'')),
     raft_AddVoter = (\<lambda>i a r. (None, r)),
     raft_RemoveServer = (\<lambda>i r. (None, r)),
     raft_GetConfiguration = (\<lambda>r. Inr [(lit ''n1'', lit ''127.0.0.1:7000'', True)]),
     raft_BootstrapCluster = (\<lambda>ps r. (None, r)),
     raft_Shutdown = (\<lambda>r. (None, r))\<rparr>"

lemma single_raft_applies: "raft_applies single_raft"
  unfolding raft_applies_def
proof (intro allI impI)
  fix b timeout r e fut r1 e1
  assume "raft_Apply single_raft b timeout (r, e) = (fut, r1, e1)" and "fut_Error fut = None"
  then obtain res where "fsm_Apply 0 1 b e = Ret (res, e1)" "fut_Response fut = Some res"
    by (auto simp: single_raft_def split: go.splits)
  then show "\<exists>before now trm res rs0. fsm_run (before @ [(now, trm, b)]) e = Ret (rs0 @ [res], e1)
      \<and> (\<forall>i \<in> set before. entry_okay i) \<and> fut_Response fut = Some res"
    by (intro exI [of _ "[]"] exI [of _ 0] exI [of _ 1] exI [of _ res]) (simp add: fsm_run_def fsm_step_def)
qed

text \<open>A proposal that succeeds, in terms of the specification of the state machine.\<close>

lemma Propose_spec:
  assumes "raft_applies (raft n)" and "replica e rs" and "registry_ok (gob n)" and "command_size cmd < 2 ^ 32 - 200"
    and "command_fits cmd" and p: "Propose n cmd (r, e) = (Inr res, r1, e1)"
  shows "\<exists>now trm rs1. replica e1 (snd (spec_command now trm cmd rs1)) \<and> res = fst (spec_command now trm cmd rs1)"
proof -
  obtain b where b: "encodeCommand (gob n) cmd = Some b" using encodeCommand_succeeds [OF assms(3,4)] ..
  have dec: "decodeCommand b = Some cmd" using decode_encodeCommand [OF assms(3) command_size_ok [OF assms(4)] b] .
  from p b obtain fut where fut: "raft_Apply (raft n) b (applyTimeout n) (r, e) = (fut, r1, e1)" "AsApplyResult fut = Inr res"
    by (auto simp: Propose_def split: prod.splits)
  then have ok: "fut_Error fut = None" "fut_Response fut = Some res"
    by (auto simp: AsApplyResult_def split: option.splits)
  from assms(1) [unfolded raft_applies_def, rule_format, OF fut(1) ok(1)] ok(2)
  obtain before now trm rs0 where run: "fsm_run (before @ [(now, trm, b)]) e = Ret (rs0 @ [res], e1)"
    and okay: "\<forall>i \<in> set before. entry_okay i" by auto
  from fsm_run_spec [OF assms(2) okay] obtain e0 where
    e0: "fsm_run before e = Ret (fst (run_spec spec_step before rs), e0)" "replica e0 (snd (run_spec spec_step before rs))" .
  let ?rs1 = "snd (run_spec spec_step before rs)"
  have "entry_okay (now, trm, b)" using dec assms(5) by (simp add: entry_okay_def)
  from fsm_Apply_spec [OF e0(2) this] obtain e2 where
    e2: "fsm_Apply now trm b e0 = Ret (fst (spec_step (now, trm, b) ?rs1), e2)" "replica e2 (snd (spec_step (now, trm, b) ?rs1))" by blast
  have "fsm_run (before @ [(now, trm, b)]) e =
      Ret (fst (run_spec spec_step before rs) @ [fst (spec_step (now, trm, b) ?rs1)], e2)"
    using e0(1) e2(1) by (simp add: fsm_run_def run_go_append fsm_step_def)
  with run have "res = fst (spec_step (now, trm, b) ?rs1)" "e1 = e2" by simp_all
  with e2(2) dec show ?thesis by (auto simp: spec_step_def)
qed

section \<open>Properties\<close>

text \<open>
  C23. Transport security is all or nothing: a node whose configuration asks for TLS either starts with
  a transport that presents its certificate, demands a certificate from every peer that connects
  and checks it, as well as that of every peer it dials, against the peer CA and nothing else, or
  does not start.  It never falls back to plain TCP.
\<close>

theorem node_Open_tls:
  assumes "cfg_TLS cfg = Some t" and "node_Open env reg cfg = Inr (n, r)"
  shows "\<exists>cert pem pool settings r0. LoadX509KeyPair (tls env) (CertFile t) (KeyFile t) = Some cert
    \<and> ReadFile (tls env) (PeerCAFile t) = Some pem \<and> AppendCertsFromPEM (tls env) pem = Some pool
    \<and> NewRaft env settings (OverTLS \<lparr>listenConfig = \<lparr>Certificates = [cert], ClientCAs = Some pool,
          ClientAuth = RequireAndVerifyClientCert, RootCAs = None\<rparr>,
        dialTLSConfig = \<lparr>Certificates = [cert], ClientCAs = None, ClientAuth = NoClientCert, RootCAs = Some pool\<rparr>\<rparr>) =
      Some (raft n, r0)"
proof -
  from assms(2) obtain tr settings rf r0 where tr: "new_transport env cfg = Inr tr" "NewRaft env settings tr = Some (rf, r0)" "raft n = rf"
    by (auto simp: node_Open_def Let_def split: if_splits sum.splits option.splits prod.splits)
  from tr(1) assms(1) obtain layer where layer: "newTLSStreamLayer (tls env) (BindAddr cfg) t = Inr layer" "tr = OverTLS layer"
    by (auto simp: new_transport_def split: sum.splits)
  from layer(1) obtain cert pem pool where "LoadX509KeyPair (tls env) (CertFile t) (KeyFile t) = Some cert"
    "ReadFile (tls env) (PeerCAFile t) = Some pem" "AppendCertsFromPEM (tls env) pem = Some pool"
    "layer = \<lparr>listenConfig = \<lparr>Certificates = [cert], ClientCAs = Some pool,
          ClientAuth = RequireAndVerifyClientCert, RootCAs = None\<rparr>,
        dialTLSConfig = \<lparr>Certificates = [cert], ClientCAs = None, ClientAuth = NoClientCert, RootCAs = Some pool\<rparr>\<rparr>"
    by (auto simp: newTLSStreamLayer_def Let_def split: option.splits if_splits)
  with tr(2,3) layer(2) show ?thesis by blast
qed

definition sample_config :: Config where
  "sample_config = \<lparr>cfg_ID = lit ''n1'', BindAddr = lit ''127.0.0.1:7000'', DataDir = lit ''/d'', Bootstrap = True,
     Peers = [\<lparr>peer_ID = lit ''n1'', peer_Addr = lit ''127.0.0.1:7000''\<rparr>], ApplyTimeout = 0,
     cfg_TLS = Some \<lparr>CertFile = lit ''c'', KeyFile = lit ''k'', PeerCAFile = lit ''ca''\<rparr>\<rparr>"

definition sample_env :: "(nat, nat, nat) open_env" where
  "sample_env = \<lparr>MkdirAll = \<lambda>_. True, NewBoltStore = \<lambda>_. True, NewFileSnapshotStore = \<lambda>_ _. True,
     ResolveTCPAddr = \<lambda>_. True, NewTCPTransport = \<lambda>_. True,
     tls = \<lparr>LoadX509KeyPair = \<lambda>_ _. Some 1, ReadFile = \<lambda>_. Some [], AppendCertsFromPEM = \<lambda>_. Some 2, tls_Listen = \<lambda>_ _. True\<rparr>,
     NewRaft = \<lambda>_ tr. case tr of OverTLS layer \<Rightarrow> Some (single_raft, length (Certificates (listenConfig layer))) | _ \<Rightarrow> None\<rparr>"

theorem node_Open_tls_witness:
  "\<exists>n r cert pem pool settings r0. node_Open sample_env sample_registry sample_config = Inr (n, r)
    \<and> AppendCertsFromPEM (tls sample_env) pem = Some pool
    \<and> NewRaft sample_env settings (OverTLS \<lparr>listenConfig = \<lparr>Certificates = [cert], ClientCAs = Some pool,
          ClientAuth = RequireAndVerifyClientCert, RootCAs = None\<rparr>,
        dialTLSConfig = \<lparr>Certificates = [cert], ClientCAs = None, ClientAuth = NoClientCert, RootCAs = Some pool\<rparr>\<rparr>) =
      Some (raft n, r0)"
proof -
  obtain t where t: "cfg_TLS sample_config = Some t" by (simp add: sample_config_def)
  have "\<exists>n r. node_Open sample_env sample_registry sample_config = Inr (n, r)"
    by (simp add: node_Open_def sample_env_def sample_config_def new_transport_def newTLSStreamLayer_def bootstrap_def
        single_raft_def Let_def)
  then obtain n r where n: "node_Open sample_env sample_registry sample_config = Inr (n, r)" by blast
  from node_Open_tls [OF t n] n show ?thesis by blast
qed

text \<open>Starting again with the bootstrap flag set is harmless.\<close>

lemma node_Open_rebootstrap:
  assumes "NewRaft env \<lparr>LocalID = cfg_ID cfg, SnapshotThreshold = 2 ^ 30, SnapshotInterval = 24 * 3600 * second\<rparr> tr = Some (rf, r)"
    and "new_transport env cfg = Inr tr" and "raft_BootstrapCluster rf (map (\<lambda>p. (peer_ID p, peer_Addr p)) (Peers cfg)) r = (Some ErrCantBootstrap, r)"
    and "Peers cfg \<noteq> []"
  shows "node_Open env reg (cfg\<lparr>Bootstrap := True\<rparr>) = node_Open env reg (cfg\<lparr>Bootstrap := False\<rparr>)"
proof -
  have "new_transport env (cfg\<lparr>Bootstrap := b\<rparr>) = new_transport env cfg" for b
    by (cases "cfg_TLS cfg") (simp_all add: new_transport_def)
  with assms show ?thesis by (simp add: node_Open_def bootstrap_def Let_def)
qed

end
