(* ===== verification/Rpc.thy ===== *)
theory Rpc
  imports Prelude
begin

text \<open>
  What surrounds every RPC handler: the status codes the handlers answer with, the metrics
  interceptor of \<^verbatim>\<open>internal/observability/metrics.go\<close> and the token interceptor of
  \<^verbatim>\<open>internal/auth/token.go\<close>.  A handler acts on the state of the node, which is a type parameter
  here, and may panic; the text of error messages is left out.
\<close>

section \<open>Results\<close>

datatype codes = OK | InvalidArgument | NotFound | FailedPrecondition | Internal | Unavailable | Unauthenticated

type_synonym 'r rpc = "codes + 'r"
type_synonym ('s, 'r) handler = "'s \<Rightarrow> ('r rpc \<times> 's) go"

section \<open>Metrics\<close>

text \<open>
  The conversion \<^verbatim>\<open>float64(position)\<close>: a float has 53 bits of precision, and the conversion rounds
  to the nearest one, ties to even.
\<close>

definition float64_of :: "u64 \<Rightarrow> nat" where
  "float64_of v =
     (let n = unat v;
          e = length (takeWhile (\<lambda>e. 2 ^ (53 + e) \<le> n) [0..<11]);
          q = n div 2 ^ e;
          r = 2 * (n mod 2 ^ e)
      in (if r > 2 ^ e \<or> r = 2 ^ e \<and> odd q then q + 1 else q) * 2 ^ e)"

lemma float64_of_exact: "unat v < 2 ^ 53 \<Longrightarrow> float64_of v = unat v"
  by (simp add: float64_of_def upt_rec)

text \<open>
  The collectors belong to the Prometheus client library.  What the program does to them is
  kept as the sequence of its calls: the counter of requests, the histogram of durations in
  nanoseconds, and the gauge of the commit position.
\<close>

datatype metric_event =
    IncRequests bytes codes
  | ObserveDuration bytes int
  | SetGauge bytes nat

record node_env =
  metrics :: "metric_event list"

definition SetCommitPosition :: "bytes \<Rightarrow> u64 \<Rightarrow> 'a node_env_scheme \<Rightarrow> 'a node_env_scheme" where
  "SetCommitPosition namespace position s = s\<lparr>metrics := metrics s @ [SetGauge namespace (float64_of position)]\<rparr>"

definition metrics_interceptor :: "bytes \<Rightarrow> int \<Rightarrow> ('a node_env_scheme, 'r) handler \<Rightarrow> ('a node_env_scheme, 'r) handler" where
  "metrics_interceptor fullMethod elapsed handler s =
     go_bind (handler s) (\<lambda>(res, s1).
       let code = (case res of Inl c \<Rightarrow> c | Inr _ \<Rightarrow> OK) in
       Ret (res, s1\<lparr>metrics := metrics s1 @ [IncRequests fullMethod code, ObserveDuration fullMethod elapsed]\<rparr>))"

section \<open>Authentication\<close>

definition metadataKey :: bytes where
  "metadataKey = lit ''authorization''"

definition bearerPrefix :: bytes where
  "bearerPrefix = lit ''Bearer ''"

definition health_method :: "bytes \<Rightarrow> bool" where
  "health_method m \<longleftrightarrow> m = lit ''/grpc.health.v1.Health/Check'' \<or> m = lit ''/grpc.health.v1.Health/Watch''"

text \<open>The incoming metadata is \<open>None\<close> when the context has none; a key has a list of values.\<close>

definition auth_interceptor :: "bytes \<Rightarrow> bytes \<Rightarrow> (bytes \<Rightarrow> bytes list) option \<Rightarrow> ('s, 'r) handler \<Rightarrow> ('s, 'r) handler" where
  "auth_interceptor token fullMethod md handler s =
     (if health_method fullMethod then handler s
      else case md of
        None \<Rightarrow> Ret (Inl Unauthenticated, s)
      | Some get \<Rightarrow>
          (case get metadataKey of
             [] \<Rightarrow> Ret (Inl Unauthenticated, s)
           | v # _ \<Rightarrow>
               (let presented =
                      (if length v > length bearerPrefix \<and> take (length bearerPrefix) v = bearerPrefix
                       then drop (length bearerPrefix) v else v) in
                if presented \<noteq> token then Ret (Inl Unauthenticated, s) else handler s)))"

text \<open>
  \<^verbatim>\<open>run\<close> of \<^verbatim>\<open>cmd/uddp-node/main.go\<close> chains the interceptors, the metrics outside, and adds the token
  check only if a token is configured.
\<close>

definition intercepted :: "bytes \<Rightarrow> bytes \<Rightarrow> (bytes \<Rightarrow> bytes list) option \<Rightarrow> int
    \<Rightarrow> ('a node_env_scheme, 'r) handler \<Rightarrow> ('a node_env_scheme, 'r) handler" where
  "intercepted authToken fullMethod md elapsed handler =
     metrics_interceptor fullMethod elapsed
       (if authToken \<noteq> [] then auth_interceptor authToken fullMethod md handler else handler)"

section \<open>Guards\<close>

text \<open>
  A guard runs the handler once or answers with an error and leaves the state alone, so it
  keeps whatever the handler keeps.
\<close>

locale guard =
  fixes icp :: "('s, 'r) handler \<Rightarrow> ('s, 'r) handler"
  assumes runs_or_refuses: "icp h s = h s \<or> (\<exists>c. icp h s = Ret (Inl c, s))"
begin

lemma keeps: "(\<And>s r s1. P s \<Longrightarrow> h s = Ret (r, s1) \<Longrightarrow> P s1) \<Longrightarrow> P s \<Longrightarrow> icp h s = Ret (r, s1) \<Longrightarrow> P s1"
  using runs_or_refuses [of h s] by (metis go.inject prod.inject)

lemma answer_from_handler: "icp h s = Ret (Inr r, s1) \<Longrightarrow> h s = Ret (Inr r, s1)"
  using runs_or_refuses [of h s] by auto

end

interpretation auth_guard: guard "auth_interceptor token fullMethod md"
  by unfold_locales (auto simp: auth_interceptor_def Let_def split: option.splits list.splits)

definition presents :: "bytes \<Rightarrow> (bytes \<Rightarrow> bytes list) option \<Rightarrow> bool" where
  "presents token md \<longleftrightarrow>
     (case md of None \<Rightarrow> False
      | Some get \<Rightarrow> (case get metadataKey of [] \<Rightarrow> False
          | v # _ \<Rightarrow> v = bearerPrefix @ token \<and> token \<noteq> [] \<or> v = token \<and> take 7 v \<noteq> bearerPrefix
              \<or> v = token \<and> length v \<le> 7))"

lemma length_bearerPrefix [simp]: "length bearerPrefix = 7"
  by (simp add: bearerPrefix_def lit_def)

lemma auth_interceptor_presents:
  assumes "\<not> health_method fullMethod"
  shows "auth_interceptor token fullMethod md h s = (if presents token md then h s else Ret (Inl Unauthenticated, s))"
proof (cases md)
  case (Some get)
  show ?thesis
  proof (cases "get metadataKey")
    case (Cons v vs)
    have "drop 7 v = token \<longleftrightarrow> v = bearerPrefix @ token" if "take 7 v = bearerPrefix"
      using that append_take_drop_id [of 7 v] by auto
    with Some Cons assms show ?thesis
      by (auto simp: auth_interceptor_def presents_def Let_def)
  qed (use Some assms in \<open>simp add: auth_interceptor_def presents_def\<close>)
qed (use assms in \<open>simp add: auth_interceptor_def presents_def\<close>)

text \<open>
  No handler runs without the token: on a node with a token, an RPC other than a health check
  whose metadata does not present the token is answered \<^verbatim>\<open>Unauthenticated\<close>, changes nothing but the request
  metrics, and is counted there under that code.
\<close>

lemma unauthenticated_refused:
  assumes "authToken \<noteq> []" and "\<not> health_method fullMethod" and "\<not> presents authToken md"
  shows "intercepted authToken fullMethod md elapsed h s =
    Ret (Inl Unauthenticated, s\<lparr>metrics := metrics s @ [IncRequests fullMethod Unauthenticated, ObserveDuration fullMethod elapsed]\<rparr>)"
  using assms by (simp add: intercepted_def metrics_interceptor_def auth_interceptor_presents)

lemma unauthenticated_refused_example:
  "intercepted (lit ''secret'') (lit ''/Get'') (Some (\<lambda>_. [lit ''Bearer wrong''])) 5 (\<lambda>s. Ret (Inr (), s)) \<lparr>metrics = []\<rparr> =
    Ret (Inl Unauthenticated, \<lparr>metrics = [IncRequests (lit ''/Get'') Unauthenticated, ObserveDuration (lit ''/Get'') 5]\<rparr>)"
  by (subst unauthenticated_refused)
    (simp_all add: lit_def health_method_def presents_def bearerPrefix_def)

lemma authenticated_runs:
  assumes "presents authToken md" and "authToken \<noteq> []" and "h s = Ret (res, s1)"
  shows "intercepted authToken fullMethod md elapsed h s =
    Ret (res, s1\<lparr>metrics := metrics s1 @ [IncRequests fullMethod (case res of Inl c \<Rightarrow> c | Inr _ \<Rightarrow> OK), ObserveDuration fullMethod elapsed]\<rparr>)"
proof -
  have "auth_interceptor authToken fullMethod md h s = Ret (res, s1)"
    using assms auth_interceptor_presents [of fullMethod authToken md h s]
    by (cases "health_method fullMethod") (simp_all add: auth_interceptor_def)
  with assms show ?thesis by (simp add: intercepted_def metrics_interceptor_def)
qed

end
