(* ===== verification/Catalog.thy ===== *)
theory Catalog
  imports Prelude
begin

text \<open>
  The namespace catalog of \<^verbatim>\<open>internal/catalog/namespace.go\<close>: which workload profiles a node may
  declare, and which namespace it answers for.
\<close>

section \<open>Specification and registry\<close>

datatype catalog_error =
    EmptyNamespaceId
  | ErrUnsupportedProfile bytes
  | ErrNamespaceNotFound bytes bytes

definition alwaysSupportedProfiles :: "bytes \<Rightarrow> bool" where
  "alwaysSupportedProfiles profile = (profile = lit ''cache'')"

record NamespaceSpec =
  ns_ID :: bytes
  ns_Profile :: bytes

definition NewNamespaceSpec :: "bytes \<Rightarrow> bytes \<Rightarrow> bool \<Rightarrow> catalog_error + NamespaceSpec" where
  "NewNamespaceSpec nid profile replicationEnabled =
     (if nid = [] then Inl EmptyNamespaceId
      else
        let supported = alwaysSupportedProfiles profile \<or> profile = lit ''durable'' \<and> replicationEnabled in
        if \<not> supported then Inl (ErrUnsupportedProfile profile)
        else Inr \<lparr>ns_ID = nid, ns_Profile = profile\<rparr>)"

record Registry =
  reg_spec :: NamespaceSpec

definition NewRegistry :: "NamespaceSpec \<Rightarrow> Registry" where
  "NewRegistry spec = \<lparr>reg_spec = spec\<rparr>"

definition Validate :: "Registry \<Rightarrow> bytes \<Rightarrow> catalog_error option" where
  "Validate r nid =
     (if nid \<noteq> ns_ID (reg_spec r) then Some (ErrNamespaceNotFound nid (ns_ID (reg_spec r))) else None)"

definition registry_Spec :: "Registry \<Rightarrow> NamespaceSpec" where
  "registry_Spec r = reg_spec r"

section \<open>What is accepted\<close>

lemma NewNamespaceSpec_cache: "nid \<noteq> [] \<Longrightarrow>
    NewNamespaceSpec nid (lit ''cache'') repl = Inr \<lparr>ns_ID = nid, ns_Profile = lit ''cache''\<rparr>"
  by (simp add: NewNamespaceSpec_def alwaysSupportedProfiles_def)

text \<open>
  A node declares no durability it cannot back: the specification is accepted exactly if the
  namespace has a name and the profile is \<^verbatim>\<open>cache\<close>, or \<^verbatim>\<open>durable\<close> on a replicated node.  Every other profile,
  \<^verbatim>\<open>strong\<close> included, is refused, and the registry of an accepted one answers for that namespace only.
\<close>

lemma NewNamespaceSpec_honest:
  "case NewNamespaceSpec nid profile repl of
     Inr spec \<Rightarrow>
       nid \<noteq> [] \<and> (profile = lit ''cache'' \<or> profile = lit ''durable'' \<and> repl)
       \<and> registry_Spec (NewRegistry spec) = \<lparr>ns_ID = nid, ns_Profile = profile\<rparr>
       \<and> (Validate (NewRegistry spec) req = None \<longleftrightarrow> req = nid)
   | Inl _ \<Rightarrow> nid = [] \<or> profile \<noteq> lit ''cache'' \<and> (profile = lit ''durable'' \<longrightarrow> \<not> repl)"
  by (auto simp: NewNamespaceSpec_def alwaysSupportedProfiles_def Let_def registry_Spec_def NewRegistry_def
      Validate_def split: if_splits)

lemma NewNamespaceSpec_honest_example:
  "NewNamespaceSpec (lit ''a'') (lit ''durable'') True = Inr \<lparr>ns_ID = lit ''a'', ns_Profile = lit ''durable''\<rparr>
   \<and> Validate (NewRegistry \<lparr>ns_ID = lit ''a'', ns_Profile = lit ''durable''\<rparr>) (lit ''a'') = None"
  using NewNamespaceSpec_honest [of "lit ''a''" "lit ''durable''" True "lit ''a''"]
  by (simp add: NewNamespaceSpec_def lit_def)

end
