(* ===== verification/Offsets.thy ===== *)
theory Offsets
  imports LogClient
begin

text \<open>
  The consumer group offsets of \<^verbatim>\<open>internal/streaming/offsets.go\<close>: a map from groups to the next
  offset, kept in a log of its own.  A committed offset never moves backward, restarts included.
\<close>

section \<open>State and operations\<close>

datatype offset_error = ErrOffsetRegression | OffsetWalErr wal_error

record OffsetStore =
  olog :: wal
  offsets :: "bytes \<rightharpoonup> u64"

definition encodeOffset :: "u64 \<Rightarrow> bytes" where
  "encodeOffset v = PutUint64 v"

definition decodeOffset :: "bytes \<Rightarrow> u64 go" where
  "decodeOffset b = Uint64 b"

definition offsets_replay :: "(bytes \<rightharpoonup> u64) replay" where
  "offsets_replay rec s = go_bind (decodeOffset (Value rec)) (\<lambda>v. Ret (Some (s(Key rec \<mapsto> v))))"

definition offsets_Open :: "bytes \<Rightarrow> osfile \<Rightarrow> (wal_error \<times> osfile + OffsetStore) go" where
  "offsets_Open pth f0 =
     go_bind (wal_Open pth f0 offsets_replay Map.empty) (\<lambda>(res, s).
       Ret (case res of
              Inl err \<Rightarrow> Inl err
            | Inr w \<Rightarrow> Inr \<lparr>olog = w, offsets = s\<rparr>))"

definition offset_record :: "bytes \<Rightarrow> u64 \<Rightarrow> Record" where
  "offset_record grp off = \<lparr>CommitPosition = 0, Kind = KindPut, Key = grp, Value = encodeOffset off,
     ExpiresAtUnixNano = 0, IdempotencyKey = []\<rparr>"

definition offsets_Commit :: "bytes \<Rightarrow> u64 \<Rightarrow> OffsetStore \<Rightarrow> (u64 \<times> offset_error option) \<times> OffsetStore" where
  "offsets_Commit grp off s =
     (case (case offsets s grp of Some current \<Rightarrow> if off < current then Some current else None | None \<Rightarrow> None) of
        Some current \<Rightarrow> ((current, Some ErrOffsetRegression), s)
      | None \<Rightarrow>
          (case wal_Append (offset_record grp off) (olog s) of
             (Inl err, w) \<Rightarrow> ((0, Some (OffsetWalErr err)), s\<lparr>olog := w\<rparr>)
           | (Inr _, w) \<Rightarrow> ((off, None), s\<lparr>olog := w, offsets := (offsets s)(grp \<mapsto> off)\<rparr>)))"

text \<open>\<open>None\<close> when \<^verbatim>\<open>found\<close> is false.\<close>

definition offsets_Fetch :: "bytes \<Rightarrow> OffsetStore \<Rightarrow> u64 option" where
  "offsets_Fetch grp s = offsets s grp"

definition offsets_Close :: "OffsetStore \<Rightarrow> wal_error option \<times> OffsetStore" where
  "offsets_Close s = (case wal_Close (olog s) of (err, w) \<Rightarrow> (err, s\<lparr>olog := w\<rparr>))"

section \<open>The store and its log\<close>

text \<open>The records the store writes have eight bytes of value, so that the replay does not panic.\<close>

definition offset_apply :: "Record \<Rightarrow> (bytes \<rightharpoonup> u64) \<Rightarrow> (bytes \<rightharpoonup> u64)" where
  "offset_apply rec s = (case decodeOffset (Value rec) of Ret v \<Rightarrow> s(Key rec \<mapsto> v) | Panic \<Rightarrow> s)"

definition offset_valid :: "Record \<Rightarrow> bool" where
  "offset_valid rec \<longleftrightarrow> returns (decodeOffset (Value rec))"

interpretation offsets_log: log_client offsets_replay offset_apply offset_valid Map.empty
  by unfold_locales
    (auto simp: offset_valid_def offsets_replay_def offset_apply_def returns_def split: go.splits)

definition offsets_inv :: "OffsetStore \<Rightarrow> Record list \<Rightarrow> bool" where
  "offsets_inv s rs \<longleftrightarrow> tracks offset_apply offset_valid Map.empty (olog s) (offsets s) rs"

lemma decode_encodeOffset [simp]: "decodeOffset (encodeOffset v) = Ret v"
  by (simp add: decodeOffset_def encodeOffset_def)

lemma offset_record_valid [simp]: "offset_valid (offset_record grp off)"
  by (simp add: offset_valid_def offset_record_def returns_def)

lemma offset_record_apply [simp]:
  "offset_apply ((offset_record grp off)\<lparr>CommitPosition := p\<rparr>) s = s(grp \<mapsto> off)"
  by (simp add: offset_apply_def offset_record_def)

lemma offsets_Commit_cases:
  assumes "offsets_Commit grp off s = (res, s1)"
  obtains (regression) current where "offsets s grp = Some current" and "off < current"
      and "res = (current, Some ErrOffsetRegression)" and "s1 = s"
    | (failed) err w where "wal_Append (offset_record grp off) (olog s) = (Inl err, w)"
      and "res = (0, Some (OffsetWalErr err))" and "s1 = s\<lparr>olog := w\<rparr>"
    | (committed) pos w where "wal_Append (offset_record grp off) (olog s) = (Inr pos, w)"
      and "\<forall>current. offsets s grp = Some current \<longrightarrow> current \<le> off"
      and "res = (off, None)" and "s1 = s\<lparr>olog := w, offsets := (offsets s)(grp \<mapsto> off)\<rparr>"
proof (cases "\<exists>current. offsets s grp = Some current \<and> off < current")
  case True
  with assms show thesis by (auto simp: offsets_Commit_def intro: regression)
next
  case False
  then have "offsets_Commit grp off s =
     (case wal_Append (offset_record grp off) (olog s) of
             (Inl err, w) \<Rightarrow> ((0, Some (OffsetWalErr err)), s\<lparr>olog := w\<rparr>)
           | (Inr _, w) \<Rightarrow> ((off, None), s\<lparr>olog := w, offsets := (offsets s)(grp \<mapsto> off)\<rparr>))"
    by (auto simp: offsets_Commit_def split: option.splits)
  with assms False show thesis
    by (cases "wal_Append (offset_record grp off) (olog s)")
      (auto intro: failed committed simp: not_less split: sum.splits)
qed

lemma offsets_Commit_ok:
  assumes inv: "offsets_inv s rs" and fits: "fits (offset_record grp off)"
    and c: "offsets_Commit grp off s = ((r, None), s1)"
  shows "r = off \<and> offsets_inv s1 (rs @ [(offset_record grp off)\<lparr>CommitPosition := of_nat (Suc (length rs))\<rparr>])
    \<and> offsets s1 = (offsets s)(grp \<mapsto> off)"
  using c
proof (cases rule: offsets_Commit_cases)
  case (committed pos w)
  note ok = offsets_log.append_ok [OF inv [unfolded offsets_inv_def] fits offset_record_valid committed(1)]
  then have pos: "pos = of_nat (Suc (length rs))" by simp
  from ok committed show ?thesis unfolding pos by (simp add: offsets_inv_def del: of_nat_Suc)
qed simp_all

text \<open>A store on a healthy file that has these offsets.\<close>

definition keeps :: "OffsetStore \<Rightarrow> (bytes \<rightharpoonup> u64) \<Rightarrow> bool" where
  "keeps s os \<longleftrightarrow> offsets s = os \<and> healthy (fd (olog s)) \<and> (\<exists>rs. offsets_inv s rs)"

definition regresses :: "(bytes \<rightharpoonup> u64) \<Rightarrow> bytes \<Rightarrow> u64 \<Rightarrow> bool" where
  "regresses os grp off = (case os grp of Some current \<Rightarrow> off < current | None \<Rightarrow> False)"

lemma offsets_Commit_keeps:
  assumes "keeps s os" and "fits (offset_record grp off)"
  shows "if regresses os grp off then \<exists>current. offsets_Commit grp off s = ((current, Some ErrOffsetRegression), s)
    else \<exists>s1. offsets_Commit grp off s = ((off, None), s1) \<and> keeps s1 (os(grp \<mapsto> off))"
proof (cases "regresses os grp off")
  case True
  with assms(1) show ?thesis by (auto simp: regresses_def offsets_Commit_def keeps_def split: option.splits)
next
  case False
  from assms(1) obtain rs where inv: "offsets_inv s rs" "healthy (fd (olog s))" "offsets s = os" by (auto simp: keeps_def)
  obtain w1 where w1: "wal_Append (offset_record grp off) (olog s) = (Inr (of_nat (Suc (length rs))), w1)" "healthy (fd w1)"
    by (rule offsets_log.append_healthy [OF inv(1) [unfolded offsets_inv_def] inv(2) assms(2) offset_record_valid])
  let ?s1 = "s\<lparr>olog := w1, offsets := os(grp \<mapsto> off)\<rparr>"
  have c: "offsets_Commit grp off s = ((off, None), ?s1)"
    using False w1(1) inv(3) by (auto simp: regresses_def offsets_Commit_def split: option.splits)
  from offsets_Commit_ok [OF inv(1) assms(2) c] w1(2) have "keeps ?s1 (os(grp \<mapsto> off))" by (auto simp: keeps_def)
  with c False show ?thesis by simp
qed

section \<open>Monotone offsets\<close>

fun run_commits :: "(bytes \<times> u64) list \<Rightarrow> OffsetStore \<Rightarrow> OffsetStore" where
  "run_commits [] s = s"
| "run_commits ((grp, off) # cs) s = run_commits cs (snd (offsets_Commit grp off s))"

definition behind :: "u64 option \<Rightarrow> u64 option \<Rightarrow> bool" where
  "behind a b \<longleftrightarrow> (case a of None \<Rightarrow> True | Some x \<Rightarrow> (case b of None \<Rightarrow> False | Some y \<Rightarrow> x \<le> y))"

lemma behind_refl [simp]: "behind a a"
  by (simp add: behind_def split: option.splits)

lemma behind_trans: "behind a b \<Longrightarrow> behind b c \<Longrightarrow> behind a c"
  by (auto simp: behind_def split: option.splits)

lemma offsets_Commit_monotone: "behind (offsets s g) (offsets (snd (offsets_Commit grp off s)) g)"
proof (cases "offsets_Commit grp off s")
  case (Pair res s1)
  then have "behind (offsets s g) (offsets s1 g)"
    by (cases rule: offsets_Commit_cases) (auto simp: behind_def split: option.splits)
  with Pair show ?thesis by simp
qed

lemma run_commits_monotone: "behind (offsets s g) (offsets (run_commits cs s) g)"
proof (induction cs arbitrary: s)
  case (Cons c cs)
  obtain grp off where "c = (grp, off)" by force
  with Cons.IH [of "snd (offsets_Commit grp off s)"] offsets_Commit_monotone [of s g grp off] show ?case
    by (auto intro: behind_trans)
qed simp

text \<open>
  Over any sequence of commits, whatever system calls fail, the offset of every group only grows.
\<close>

lemma commits_never_regress: "behind (offsets_Fetch g s) (offsets_Fetch g (run_commits cs s))"
  using run_commits_monotone [of s g cs] by (simp add: offsets_Fetch_def)

text \<open>
  C27. Committed offsets are durable and never move backward: after a commit, during which
  any system call may fail, and a crash, the store that opens has the offsets of before or of
  after the commit, those of after it if the commit succeeded, and no group moved backward.
\<close>

theorem offsets_Commit_crash:
  assumes inv: "offsets_inv s rs" and fits: "fits (offset_record grp off)"
    and c: "offsets_Commit grp off s = (res, s1)"
    and k: "durable (fd (olog s1)) \<le> k" "k \<le> length (content (fd (olog s1)))"
  shows "\<exists>s2. offsets_Open pth (crash k (fd (olog s1))) = Ret (Inr s2)
    \<and> (offsets s2 = offsets s \<or> offsets s2 = (offsets s)(grp \<mapsto> off))
    \<and> (snd res = None \<longrightarrow> offsets s2 = offsets s1) \<and> (\<forall>g. behind (offsets s g) (offsets s2 g))"
  using c
proof (cases rule: offsets_Commit_cases)
  case (regression current)
  with offsets_log.reopen [OF inv [unfolded offsets_inv_def]] k show ?thesis
    by (simp add: offsets_Open_def)
next
  case (failed err w)
  note cr = offsets_log.append_crash [OF inv [unfolded offsets_inv_def] fits offset_record_valid failed(1), of k pth]
  have mono: "\<forall>current. offsets s grp = Some current \<longrightarrow> current \<le> off"
  proof (rule ccontr)
    assume "\<not> ?thesis"
    then obtain current where "offsets s grp = Some current" "off < current" by (auto simp: not_le)
    then have "snd (fst (offsets_Commit grp off s)) = Some ErrOffsetRegression"
      by (simp add: offsets_Commit_def)
    with c failed show False by simp
  qed
  then have "behind (offsets s g) (((offsets s)(grp \<mapsto> off)) g)" for g
    by (auto simp: behind_def split: option.splits)
  with cr k failed show ?thesis
    by (auto simp: offsets_Open_def simp del: of_nat_Suc fun_upd_apply)
next
  case (committed pos w)
  note cr = offsets_log.append_crash [OF inv [unfolded offsets_inv_def] fits offset_record_valid committed(1), of k pth]
  have "behind (offsets s g) (((offsets s)(grp \<mapsto> off)) g)" for g
    using committed(2) by (auto simp: behind_def split: option.splits)
  with cr k committed show ?thesis
    by (auto simp: offsets_Open_def simp del: of_nat_Suc fun_upd_apply)
qed

text \<open>A new store, for the examples.\<close>

lemma offsets_sample: "offsets_inv \<lparr>olog = opened [] [], offsets = Map.empty\<rparr> []"
  using offsets_log.tracks_opened [of "[]" "[]"] by (simp add: offsets_inv_def)

theorem offsets_Commit_crash_witness:
  "\<exists>res s1 s2. offsets_Commit [0x67] 5 \<lparr>olog = opened [] [], offsets = Map.empty\<rparr> = (res, s1)
    \<and> offsets_Open [] (crash (durable (fd (olog s1))) (fd (olog s1))) = Ret (Inr s2)
    \<and> (snd res = None \<longrightarrow> offsets s2 = offsets s1)"
proof -
  let ?s = "\<lparr>olog = opened [] [], offsets = Map.empty\<rparr>"
  obtain res s1 where c: "offsets_Commit [0x67] 5 ?s = (res, s1)" by (metis prod.exhaust)
  have fit: "fits (offset_record [0x67] 5)" by (simp add: fits_def offset_record_def encodeOffset_def)
  have lo: "log_of (opened [] []) []" using log_of_opened [of "[]" "[]"] by simp
  have "durable (fd (olog s1)) \<le> length (content (fd (olog s1)))"
    using c
  proof (cases rule: offsets_Commit_cases)
    case (failed err w)
    with append_log_state [OF lo fit, of "Inl err" w] show ?thesis by (simp add: log_state_def)
  next
    case (committed pos w)
    with append_log_state [OF lo fit, of "Inr pos" w] show ?thesis by (simp add: log_state_def)
  qed simp
  from offsets_Commit_crash [OF offsets_sample fit c order_refl this, of "[]"] obtain s2 where
    "offsets_Open [] (crash (durable (fd (olog s1))) (fd (olog s1))) = Ret (Inr s2)"
    "snd res = None \<longrightarrow> offsets s2 = offsets s1" by (elim exE conjE) (rule that)
  with c show ?thesis by (intro exI [of _ res] exI [of _ s1] exI [of _ s2]) simp
qed

text \<open>A log whose record has a shorter value, which no commit writes, makes \<^verbatim>\<open>Open\<close> panic.\<close>

lemma offsets_replay_short:
  assumes "length (Value rec) < 8"
  shows "offsets_replay rec s = Panic"
  using assms by (simp add: offsets_replay_def decodeOffset_def Uint64_short)

end
