(* ===== verification/StateServer.thy ===== *)
theory StateServer
  imports Node Rpc Catalog Offsets
begin

text \<open>
  The key-value service of \<^verbatim>\<open>internal/api/state_server.go\<close>.  A handler works on the state of the
  node: the metrics, the state of raft, the engine, the offsets and the files of the machine.
  Requests and responses are the messages of \<^verbatim>\<open>state.proto\<close>.
\<close>

section \<open>State and messages\<close>

record 'r node_state = node_env +
  n_raft :: 'r
  n_engine :: engine
  n_offsets :: OffsetStore
  n_files :: "bytes \<rightharpoonup> osfile"

record 'r StateServer =
  st_Registry :: Registry
  st_Metrics :: bool
  st_Replication :: "'r Node option"

record GetRequest =
  greq_NamespaceId :: bytes
  greq_Key :: bytes

record GetResponse =
  gres_Value :: bytes
  gres_Version :: u64
  gres_Found :: bool

record PutRequest =
  preq_NamespaceId :: bytes
  preq_Key :: bytes
  preq_Value :: bytes
  preq_TtlSeconds :: i64
  preq_IdempotencyKey :: bytes

record DeleteRequest =
  dreq_NamespaceId :: bytes
  dreq_Key :: bytes
  dreq_IdempotencyKey :: bytes

record CompareAndSetRequest =
  creq_NamespaceId :: bytes
  creq_Key :: bytes
  creq_Value :: bytes
  creq_ExpectedVersion :: u64
  creq_TtlSeconds :: i64
  creq_IdempotencyKey :: bytes

record MutationResponse =
  mres_NamespaceId :: bytes
  mres_PartitionId :: nat
  mres_Epoch :: u64
  mres_CommitPosition :: u64
  mres_DurabilityProfile :: bytes
  mres_Deduplicated :: bool
  mres_Version :: u64

section \<open>Handlers\<close>

definition checkNamespace :: "Registry \<Rightarrow> bytes \<Rightarrow> codes option" where
  "checkNamespace reg namespaceID = (case Validate reg namespaceID of Some _ \<Rightarrow> Some NotFound | None \<Rightarrow> None)"

definition resolveExpiry :: "int \<Rightarrow> i64 \<Rightarrow> i64" where
  "resolveExpiry now ttlSeconds =
     (if sint ttlSeconds \<le> 0 then 0 else of_int (now + sint (ttlSeconds * 1000000000)))"

definition response :: "'r StateServer \<Rightarrow> Outcome \<Rightarrow> u64 \<Rightarrow> 'r node_state \<Rightarrow> MutationResponse \<times> 'r node_state" where
  "response srv out epoch s =
     (let spec = registry_Spec (st_Registry srv) in
      (\<lparr>mres_NamespaceId = ns_ID spec, mres_PartitionId = 0, mres_Epoch = epoch,
        mres_CommitPosition = out_CommitPosition out, mres_DurabilityProfile = ns_Profile spec,
        mres_Deduplicated = Deduplicated out, mres_Version = out_Version out\<rparr>,
       if st_Metrics srv then SetCommitPosition (ns_ID spec) (out_CommitPosition out) s else s))"

definition replicatedResponse :: "'r StateServer \<Rightarrow> repl_error + ApplyResult \<Rightarrow> 'r node_state
    \<Rightarrow> MutationResponse rpc \<times> 'r node_state" where
  "replicatedResponse srv res s =
     (case res of
        Inl _ \<Rightarrow> (Inl Unavailable, s)
      | Inr r \<Rightarrow>
          (case res_Err r of
             Some err \<Rightarrow> (Inl (if err = EngineErr ErrVersionMismatch then FailedPrecondition else Internal), s)
           | None \<Rightarrow> (case response srv (res_Outcome r) (res_Term r) s of (m, s1) \<Rightarrow> (Inr m, s1))))"

definition zero_Command :: Command where
  "zero_Command = \<lparr>cmd_Op = 0, cmd_Key = [], cmd_Value = [], cmd_ExpiresAtUnixNano = 0, cmd_ExpectedVersion = 0,
     cmd_IdempotencyKey = [], cmd_Entries = []\<rparr>"

text \<open>\<^verbatim>\<open>s.Replication.Propose\<close> on the state of the node.\<close>

definition node_Propose :: "'r Node \<Rightarrow> Command \<Rightarrow> 'r node_state \<Rightarrow> (repl_error + ApplyResult) \<times> 'r node_state" where
  "node_Propose n cmd s =
     (case Propose n cmd (n_raft s, n_engine s) of
        (res, r1, e1) \<Rightarrow> (res, s\<lparr>n_raft := r1, n_engine := e1\<rparr>))"

definition state_Get :: "'r StateServer \<Rightarrow> int \<Rightarrow> GetRequest \<Rightarrow> ('r node_state, GetResponse) handler" where
  "state_Get srv now req s =
     (case checkNamespace (st_Registry srv) (greq_NamespaceId req) of
        Some c \<Rightarrow> Ret (Inl c, s)
      | None \<Rightarrow>
          if greq_Key req = [] then Ret (Inl InvalidArgument, s)
          else Ret (Inr (case engine_Get now (greq_Key req) (n_engine s) of
                 None \<Rightarrow> \<lparr>gres_Value = [], gres_Version = 0, gres_Found = False\<rparr>
               | Some (v, ver) \<Rightarrow> \<lparr>gres_Value = v, gres_Version = ver, gres_Found = True\<rparr>), s))"

definition state_Put :: "'r StateServer \<Rightarrow> int \<Rightarrow> PutRequest \<Rightarrow> ('r node_state, MutationResponse) handler" where
  "state_Put srv now req s =
     (case checkNamespace (st_Registry srv) (preq_NamespaceId req) of
        Some c \<Rightarrow> Ret (Inl c, s)
      | None \<Rightarrow>
          if preq_Key req = [] then Ret (Inl InvalidArgument, s)
          else (case st_Replication srv of
             Some n \<Rightarrow>
               (case node_Propose n (zero_Command\<lparr>cmd_Op := OpPut, cmd_Key := preq_Key req, cmd_Value := preq_Value req,
                       cmd_ExpiresAtUnixNano := resolveExpiry now (preq_TtlSeconds req),
                       cmd_IdempotencyKey := preq_IdempotencyKey req\<rparr>) s of
                  (res, s1) \<Rightarrow> Ret (replicatedResponse srv res s1))
           | None \<Rightarrow>
               (case engine_Put now (preq_Key req) (preq_Value req) (preq_TtlSeconds req) (preq_IdempotencyKey req) (n_engine s) of
                  (Inl _, e1) \<Rightarrow> Ret (Inl Internal, s\<lparr>n_engine := e1\<rparr>)
                | (Inr out, e1) \<Rightarrow>
                    (case response srv out 0 (s\<lparr>n_engine := e1\<rparr>) of (m, s1) \<Rightarrow> Ret (Inr m, s1)))))"

definition state_Delete :: "'r StateServer \<Rightarrow> DeleteRequest \<Rightarrow> ('r node_state, MutationResponse) handler" where
  "state_Delete srv req s =
     (case checkNamespace (st_Registry srv) (dreq_NamespaceId req) of
        Some c \<Rightarrow> Ret (Inl c, s)
      | None \<Rightarrow>
          if dreq_Key req = [] then Ret (Inl InvalidArgument, s)
          else (case st_Replication srv of
             Some n \<Rightarrow>
               (case node_Propose n (zero_Command\<lparr>cmd_Op := OpDelete, cmd_Key := dreq_Key req,
                       cmd_IdempotencyKey := dreq_IdempotencyKey req\<rparr>) s of
                  (res, s1) \<Rightarrow> Ret (replicatedResponse srv res s1))
           | None \<Rightarrow>
               (case engine_Delete (dreq_Key req) (dreq_IdempotencyKey req) (n_engine s) of
                  (Inl _, e1) \<Rightarrow> Ret (Inl Internal, s\<lparr>n_engine := e1\<rparr>)
                | (Inr out, e1) \<Rightarrow>
                    (case response srv out 0 (s\<lparr>n_engine := e1\<rparr>) of (m, s1) \<Rightarrow> Ret (Inr m, s1)))))"

definition state_CompareAndSet :: "'r StateServer \<Rightarrow> int \<Rightarrow> int \<Rightarrow> CompareAndSetRequest
    \<Rightarrow> ('r node_state, MutationResponse) handler" where
  "state_CompareAndSet srv now1 now2 req s =
     (case checkNamespace (st_Registry srv) (creq_NamespaceId req) of
        Some c \<Rightarrow> Ret (Inl c, s)
      | None \<Rightarrow>
          if creq_Key req = [] then Ret (Inl InvalidArgument, s)
          else (case st_Replication srv of
             Some n \<Rightarrow>
               (case node_Propose n (zero_Command\<lparr>cmd_Op := OpCompareAndSet, cmd_Key := creq_Key req,
                       cmd_Value := creq_Value req, cmd_ExpiresAtUnixNano := resolveExpiry now1 (creq_TtlSeconds req),
                       cmd_ExpectedVersion := creq_ExpectedVersion req,
                       cmd_IdempotencyKey := creq_IdempotencyKey req\<rparr>) s of
                  (res, s1) \<Rightarrow> Ret (replicatedResponse srv res s1))
           | None \<Rightarrow>
               (case CompareAndSet now1 now2 (creq_Key req) (creq_Value req) (creq_ExpectedVersion req)
                       (creq_TtlSeconds req) (creq_IdempotencyKey req) (n_engine s) of
                  (Inl err, e1) \<Rightarrow>
                    Ret (Inl (if err = ErrVersionMismatch then FailedPrecondition else Internal), s\<lparr>n_engine := e1\<rparr>)
                | (Inr out, e1) \<Rightarrow>
                    (case response srv out 0 (s\<lparr>n_engine := e1\<rparr>) of (m, s1) \<Rightarrow> Ret (Inr m, s1)))))"

section \<open>The service as one handler\<close>

datatype state_request =
    ReqGet int GetRequest
  | ReqPut int PutRequest
  | ReqDelete DeleteRequest
  | ReqCompareAndSet int int CompareAndSetRequest

datatype state_response = ResGet GetResponse | ResMutation MutationResponse

definition wrap :: "('a \<Rightarrow> 'b) \<Rightarrow> ('a rpc \<times> 's) go \<Rightarrow> ('b rpc \<times> 's) go" where
  "wrap f m = go_bind m (\<lambda>(r, s). Ret (map_sum id f r, s))"

fun state_handle :: "'r StateServer \<Rightarrow> state_request \<Rightarrow> ('r node_state, state_response) handler" where
  "state_handle srv (ReqGet now req) s = wrap ResGet (state_Get srv now req s)"
| "state_handle srv (ReqPut now req) s = wrap ResMutation (state_Put srv now req s)"
| "state_handle srv (ReqDelete req) s = wrap ResMutation (state_Delete srv req s)"
| "state_handle srv (ReqCompareAndSet now1 now2 req) s = wrap ResMutation (state_CompareAndSet srv now1 now2 req s)"

fun request_namespace :: "state_request \<Rightarrow> bytes" where
  "request_namespace (ReqGet now req) = greq_NamespaceId req"
| "request_namespace (ReqPut now req) = preq_NamespaceId req"
| "request_namespace (ReqDelete req) = dreq_NamespaceId req"
| "request_namespace (ReqCompareAndSet now1 now2 req) = creq_NamespaceId req"

fun request_key :: "state_request \<Rightarrow> bytes" where
  "request_key (ReqGet now req) = greq_Key req"
| "request_key (ReqPut now req) = preq_Key req"
| "request_key (ReqDelete req) = dreq_Key req"
| "request_key (ReqCompareAndSet now1 now2 req) = creq_Key req"

section \<open>Specification without replication\<close>

text \<open>What a node without raft answers, as a function of the records committed so far.\<close>

definition spec_get :: "int \<Rightarrow> bytes \<Rightarrow> Record list \<Rightarrow> GetResponse" where
  "spec_get now key rs =
     (case fst (tables_of rs) key of
        None \<Rightarrow> \<lparr>gres_Value = [], gres_Version = 0, gres_Found = False\<rparr>
      | Some ent \<Rightarrow>
          if expired now ent then \<lparr>gres_Value = [], gres_Version = 0, gres_Found = False\<rparr>
          else \<lparr>gres_Value = ent_value ent, gres_Version = ent_version ent, gres_Found = True\<rparr>)"

definition answer :: "NamespaceSpec \<Rightarrow> u64 \<Rightarrow> Outcome \<Rightarrow> MutationResponse" where
  "answer spec epoch out =
     \<lparr>mres_NamespaceId = ns_ID spec, mres_PartitionId = 0, mres_Epoch = epoch,
      mres_CommitPosition = out_CommitPosition out, mres_DurabilityProfile = ns_Profile spec,
      mres_Deduplicated = Deduplicated out, mres_Version = out_Version out\<rparr>"

fun spec_result :: "NamespaceSpec \<Rightarrow> engine_error + Outcome \<Rightarrow> state_response rpc" where
  "spec_result spec (Inl err) = Inl (if err = ErrVersionMismatch then FailedPrecondition else Internal)"
| "spec_result spec (Inr out) = Inr (ResMutation (answer spec 0 out))"

fun spec_handle :: "NamespaceSpec \<Rightarrow> state_request \<Rightarrow> Record list \<Rightarrow> state_response rpc \<times> Record list" where
  "spec_handle spec (ReqGet now req) rs = (Inr (ResGet (spec_get now (greq_Key req) rs)), rs)"
| "spec_handle spec (ReqPut now req) rs =
     apfst (spec_result spec) (spec_once (preq_IdempotencyKey req)
       (spec_commit (put_record (preq_Key req) (preq_Value req) (ttl_expiry now (preq_TtlSeconds req)) (preq_IdempotencyKey req))) rs)"
| "spec_handle spec (ReqDelete req) rs =
     apfst (spec_result spec) (spec_once (dreq_IdempotencyKey req)
       (spec_commit (delete_record (dreq_Key req) (dreq_IdempotencyKey req))) rs)"
| "spec_handle spec (ReqCompareAndSet now1 now2 req) rs =
     apfst (spec_result spec) (spec_once (creq_IdempotencyKey req)
       (spec_cas now2 (creq_Key req) (creq_Value req) (creq_ExpectedVersion req) (ttl_expiry now1 (creq_TtlSeconds req))
         (creq_IdempotencyKey req)) rs)"

definition spec_request :: "NamespaceSpec \<Rightarrow> state_request \<Rightarrow> Record list \<Rightarrow> state_response rpc \<times> Record list" where
  "spec_request spec req rs =
     (if request_namespace req \<noteq> ns_ID spec then (Inl NotFound, rs)
      else if request_key req = [] then (Inl InvalidArgument, rs)
      else spec_handle spec req rs)"

fun request_fits :: "state_request \<Rightarrow> bool" where
  "request_fits (ReqGet now req) = True"
| "request_fits (ReqPut now req) = fits (put_record (preq_Key req) (preq_Value req) 0 (preq_IdempotencyKey req))"
| "request_fits (ReqDelete req) = fits (delete_record (dreq_Key req) (dreq_IdempotencyKey req))"
| "request_fits (ReqCompareAndSet now1 now2 req) = fits (put_record (creq_Key req) (creq_Value req) 0 (creq_IdempotencyKey req))"

definition serves :: "'r node_state \<Rightarrow> Record list \<Rightarrow> bool" where
  "serves s rs \<longleftrightarrow> replica (n_engine s) rs"

section \<open>The handlers refine the specification\<close>

lemma wrap_Ret [simp]: "wrap f (Ret (r, s)) = Ret (map_sum id f r, s)"
  by (simp add: wrap_def)

lemma resolveExpiry_ttl: "resolveExpiry now ttl = ttl_expiry now ttl"
  by (simp add: resolveExpiry_def ttl_expiry_def)

lemma checkNamespace_iff: "checkNamespace reg nid = (if nid = ns_ID (registry_Spec reg) then None else Some NotFound)"
  by (simp add: checkNamespace_def Validate_def registry_Spec_def)

lemma response_answer:
  "response srv out epoch s = (m, s1) \<Longrightarrow>
    m = answer (registry_Spec (st_Registry srv)) epoch out \<and> n_engine s1 = n_engine s \<and> n_raft s1 = n_raft s
    \<and> n_offsets s1 = n_offsets s \<and> n_files s1 = n_files s"
  by (auto simp: response_def answer_def SetCommitPosition_def Let_def split: if_splits)

lemma serves_engine: "serves s rs \<Longrightarrow> replica (n_engine s) rs"
  by (simp add: serves_def)

lemma state_Put_spec:
  assumes "serves s rs" and "st_Replication srv = None" and "preq_NamespaceId req = ns_ID (registry_Spec (st_Registry srv))"
    and "preq_Key req \<noteq> []" and "request_fits (ReqPut now req)"
  shows "\<exists>s1. state_handle srv (ReqPut now req) s = Ret (fst (spec_handle (registry_Spec (st_Registry srv)) (ReqPut now req) rs), s1)
    \<and> serves s1 (snd (spec_handle (registry_Spec (st_Registry srv)) (ReqPut now req) rs))"
proof -
  let ?r = "put_record (preq_Key req) (preq_Value req) (ttl_expiry now (preq_TtlSeconds req)) (preq_IdempotencyKey req)"
  have "fits ?r" using assms(5) by (simp add: fits_def put_record_def)
  from ApplyPut_spec [OF serves_engine [OF assms(1)] this] obtain e1 where
    e1: "engine_Put now (preq_Key req) (preq_Value req) (preq_TtlSeconds req) (preq_IdempotencyKey req) (n_engine s) =
      (fst (spec_once (preq_IdempotencyKey req) (spec_commit ?r) rs), e1)"
    "replica e1 (snd (spec_once (preq_IdempotencyKey req) (spec_commit ?r) rs))"
    by (auto simp: engine_Put_def)
  show ?thesis
  proof (cases "fst (spec_once (preq_IdempotencyKey req) (spec_commit ?r) rs)")
    case (Inl err)
    with assms e1 show ?thesis
      by (auto simp: state_Put_def checkNamespace_iff serves_def spec_once_def spec_commit_def split: option.splits)
  next
    case (Inr out)
    obtain m s1 where m: "response srv out 0 (s\<lparr>n_engine := e1\<rparr>) = (m, s1)" by force
    from response_answer [OF m] have "m = answer (registry_Spec (st_Registry srv)) 0 out" "n_engine s1 = e1" by simp_all
    with m assms e1 Inr show ?thesis by (simp add: state_Put_def checkNamespace_iff serves_def)
  qed
qed

lemma state_Delete_spec:
  assumes "serves s rs" and "st_Replication srv = None" and "dreq_NamespaceId req = ns_ID (registry_Spec (st_Registry srv))"
    and "dreq_Key req \<noteq> []" and "request_fits (ReqDelete req)"
  shows "\<exists>s1. state_handle srv (ReqDelete req) s = Ret (fst (spec_handle (registry_Spec (st_Registry srv)) (ReqDelete req) rs), s1)
    \<and> serves s1 (snd (spec_handle (registry_Spec (st_Registry srv)) (ReqDelete req) rs))"
proof -
  let ?r = "delete_record (dreq_Key req) (dreq_IdempotencyKey req)"
  have "fits ?r" using assms(5) by simp
  from engine_Delete_spec [OF serves_engine [OF assms(1)] this] obtain e1 where
    e1: "engine_Delete (dreq_Key req) (dreq_IdempotencyKey req) (n_engine s) =
      (fst (spec_once (dreq_IdempotencyKey req) (spec_commit ?r) rs), e1)"
    "replica e1 (snd (spec_once (dreq_IdempotencyKey req) (spec_commit ?r) rs))" by auto
  show ?thesis
  proof (cases "fst (spec_once (dreq_IdempotencyKey req) (spec_commit ?r) rs)")
    case (Inl err)
    with assms e1 show ?thesis
      by (auto simp: state_Delete_def checkNamespace_iff serves_def spec_once_def spec_commit_def split: option.splits)
  next
    case (Inr out)
    obtain m s1 where m: "response srv out 0 (s\<lparr>n_engine := e1\<rparr>) = (m, s1)" by force
    from response_answer [OF m] have "m = answer (registry_Spec (st_Registry srv)) 0 out" "n_engine s1 = e1" by simp_all
    with m assms e1 Inr show ?thesis by (simp add: state_Delete_def checkNamespace_iff serves_def)
  qed
qed

lemma state_CompareAndSet_spec:
  assumes "serves s rs" and "st_Replication srv = None" and "creq_NamespaceId req = ns_ID (registry_Spec (st_Registry srv))"
    and "creq_Key req \<noteq> []" and "request_fits (ReqCompareAndSet now1 now2 req)"
  shows "\<exists>s1. state_handle srv (ReqCompareAndSet now1 now2 req) s =
      Ret (fst (spec_handle (registry_Spec (st_Registry srv)) (ReqCompareAndSet now1 now2 req) rs), s1)
    \<and> serves s1 (snd (spec_handle (registry_Spec (st_Registry srv)) (ReqCompareAndSet now1 now2 req) rs))"
proof -
  let ?x = "ttl_expiry now1 (creq_TtlSeconds req)"
  let ?r = "put_record (creq_Key req) (creq_Value req) ?x (creq_IdempotencyKey req)"
  let ?c = "spec_cas now2 (creq_Key req) (creq_Value req) (creq_ExpectedVersion req) ?x (creq_IdempotencyKey req)"
  have "fits ?r" using assms(5) by (simp add: fits_def put_record_def)
  from ApplyCompareAndSet_spec [OF serves_engine [OF assms(1)] this, of now2 "creq_ExpectedVersion req"] obtain e1 where
    e1: "CompareAndSet now1 now2 (creq_Key req) (creq_Value req) (creq_ExpectedVersion req) (creq_TtlSeconds req)
      (creq_IdempotencyKey req) (n_engine s) = (fst (spec_once (creq_IdempotencyKey req) ?c rs), e1)"
    "replica e1 (snd (spec_once (creq_IdempotencyKey req) ?c rs))"
    by (auto simp: CompareAndSet_def)
  show ?thesis
  proof (cases "fst (spec_once (creq_IdempotencyKey req) ?c rs)")
    case (Inl err)
    with assms e1 show ?thesis by (simp add: state_CompareAndSet_def checkNamespace_iff serves_def)
  next
    case (Inr out)
    obtain m s1 where m: "response srv out 0 (s\<lparr>n_engine := e1\<rparr>) = (m, s1)" by force
    from response_answer [OF m] have "m = answer (registry_Spec (st_Registry srv)) 0 out" "n_engine s1 = e1" by simp_all
    with m assms e1 Inr show ?thesis by (simp add: state_CompareAndSet_def checkNamespace_iff serves_def)
  qed
qed

lemma state_Get_spec:
  assumes "serves s rs" and "greq_NamespaceId req = ns_ID (registry_Spec (st_Registry srv))" and "greq_Key req \<noteq> []"
  shows "state_Get srv now req s = Ret (Inr (spec_get now (greq_Key req) rs), s)"
  using assms replica_Get [OF serves_engine [OF assms(1)], of now "greq_Key req"]
  by (simp add: state_Get_def checkNamespace_iff spec_get_def split: option.split)

lemma state_handle_refused:
  assumes "request_namespace req \<noteq> ns_ID (registry_Spec (st_Registry srv)) \<or> request_key req = []"
  shows "state_handle srv req s =
    Ret (Inl (if request_namespace req \<noteq> ns_ID (registry_Spec (st_Registry srv)) then NotFound else InvalidArgument), s)"
  using assms by (cases req) (auto simp: state_Get_def state_Put_def state_Delete_def state_CompareAndSet_def checkNamespace_iff)

lemma state_handle_spec:
  assumes "serves s rs" and "st_Replication srv = None" and "request_fits req"
  shows "\<exists>s1. state_handle srv req s = Ret (fst (spec_request (registry_Spec (st_Registry srv)) req rs), s1)
    \<and> serves s1 (snd (spec_request (registry_Spec (st_Registry srv)) req rs))"
proof (cases "request_namespace req \<noteq> ns_ID (registry_Spec (st_Registry srv)) \<or> request_key req = []")
  case True
  with assms(1) show ?thesis by (simp add: spec_request_def state_handle_refused)
next
  case False
  then have spec: "spec_request (registry_Spec (st_Registry srv)) req rs = spec_handle (registry_Spec (st_Registry srv)) req rs"
    by (simp add: spec_request_def)
  show ?thesis
  proof (cases req)
    case (ReqGet now r)
    with False state_Get_spec [OF assms(1), of r srv now] assms(1) show ?thesis unfolding spec by simp
  next
    case (ReqPut now r)
    with False assms show ?thesis unfolding spec by (simp only: ReqPut) (rule state_Put_spec, simp_all)
  next
    case (ReqDelete r)
    with False assms show ?thesis unfolding spec by (simp only: ReqDelete) (rule state_Delete_spec, simp_all)
  next
    case (ReqCompareAndSet now1 now2 r)
    with False assms show ?thesis unfolding spec by (simp only: ReqCompareAndSet) (rule state_CompareAndSet_spec, simp_all)
  qed
qed

interpretation state_service: refinement "state_handle srv" "spec_request (registry_Spec (st_Registry srv))" serves
    "\<lambda>req. request_fits req \<and> st_Replication srv = None"
  by unfold_locales (auto intro: state_handle_spec)

section \<open>Properties\<close>

text \<open>
  C6. The service of a node without raft is the specified one: every sequence of requests is
  answered, none panics, each answer is the one that the specification computes from the
  records committed before it, and after a crash at any later time the engine comes back
  with exactly the records the answers speak of.
\<close>

theorem state_server_refines:
  assumes "serves s rs" and "st_Replication srv = None" and "\<forall>req \<in> set reqs. request_fits req"
  defines "final \<equiv> run_spec (spec_request (registry_Spec (st_Registry srv))) reqs rs"
  shows "\<exists>s1. run_go (state_handle srv) reqs s = Ret (fst final, s1) \<and> serves s1 (snd final)
    \<and> (\<forall>k \<ge> durable (fd (elog (n_engine s1))). \<exists>e1.
         engine_Open pth (crash k (fd (elog (n_engine s1)))) = Ret (Inr e1) \<and> replica e1 (snd final))"
proof -
  from state_service.run [of s rs reqs srv] assms(1-3) obtain s1 where
    s1: "run_go (state_handle srv) reqs s = Ret (fst final, s1)" "serves s1 (snd final)" by (auto simp: final_def)
  with replica_opened [OF serves_engine [OF s1(2)]] show ?thesis by blast
qed

definition sample_server :: "'r Node option \<Rightarrow> 'r StateServer" where
  "sample_server repl = \<lparr>st_Registry = NewRegistry \<lparr>ns_ID = lit ''ns'', ns_Profile = lit ''cache''\<rparr>,
     st_Metrics = True, st_Replication = repl\<rparr>"

definition sample_state :: "'r \<Rightarrow> 'r node_state" where
  "sample_state r = \<lparr>metrics = [], n_raft = r, n_engine = engine_of [] [],
     n_offsets = \<lparr>olog = opened [] [], offsets = Map.empty\<rparr>, n_files = Map.empty\<rparr>"

lemma sample_serves: "serves (sample_state r) []"
  by (simp add: serves_def sample_state_def replica_new)

lemma sample_server_simps [simp]: "st_Replication (sample_server repl) = repl"
  "registry_Spec (st_Registry (sample_server repl)) = \<lparr>ns_ID = lit ''ns'', ns_Profile = lit ''cache''\<rparr>"
  by (simp_all add: sample_server_def NewRegistry_def registry_Spec_def)

definition sample_put :: PutRequest where
  "sample_put = \<lparr>preq_NamespaceId = lit ''ns'', preq_Key = [0x6b], preq_Value = [0x76], preq_TtlSeconds = 0,
     preq_IdempotencyKey = []\<rparr>"

definition sample_get :: GetRequest where
  "sample_get = \<lparr>greq_NamespaceId = lit ''ns'', greq_Key = [0x6b]\<rparr>"

theorem state_server_refines_witness:
  "\<exists>s1. run_go (state_handle (sample_server None)) [ReqPut 0 sample_put, ReqGet 9 sample_get] (sample_state ()) =
    Ret ([Inr (ResMutation \<lparr>mres_NamespaceId = lit ''ns'', mres_PartitionId = 0, mres_Epoch = 0, mres_CommitPosition = 1,
             mres_DurabilityProfile = lit ''cache'', mres_Deduplicated = False, mres_Version = 1\<rparr>),
          Inr (ResGet \<lparr>gres_Value = [0x76], gres_Version = 1, gres_Found = True\<rparr>)], s1)"
proof -
  let ?reqs = "[ReqPut 0 sample_put, ReqGet 9 sample_get]"
  have fit: "\<forall>req \<in> set ?reqs. request_fits req" by (simp add: sample_put_def fits_def put_record_def)
  have spec: "fst (run_spec (spec_request \<lparr>ns_ID = lit ''ns'', ns_Profile = lit ''cache''\<rparr>) ?reqs []) =
      [Inr (ResMutation \<lparr>mres_NamespaceId = lit ''ns'', mres_PartitionId = 0, mres_Epoch = 0, mres_CommitPosition = 1,
             mres_DurabilityProfile = lit ''cache'', mres_Deduplicated = False, mres_Version = 1\<rparr>),
       Inr (ResGet \<lparr>gres_Value = [0x76], gres_Version = 1, gres_Found = True\<rparr>)]"
    by (simp add: spec_request_def sample_put_def sample_get_def spec_once_def spec_replayed_def spec_commit_def put_outcome_def
        answer_def spec_get_def tables_of_def put_record_def put_entry_def ttl_expiry_def expired_def expiry_time_def)
  from state_server_refines [OF sample_serves [of "()"] sample_server_simps(1) fit, of "[]"] obtain s1 where
    s1: "run_go (state_handle (sample_server None)) ?reqs (sample_state ()) =
      Ret (fst (run_spec (spec_request (registry_Spec (st_Registry (sample_server None :: unit StateServer)))) ?reqs []), s1)"
    by (elim exE conjE) (rule that)
  show ?thesis by (rule exI [of _ s1], rule trans [OF s1]) (simp only: sample_server_simps(2) spec)
qed

text \<open>
  A request for another namespace, or with an empty key, is refused before anything happens,
  with or without replication: the answer says which of the two it was, and no part of the node
  changes, the metrics of the handler included.
\<close>

lemma bad_request_refused:
  assumes "request_namespace req \<noteq> ns_ID (registry_Spec (st_Registry srv)) \<or> request_key req = []"
  shows "state_handle srv req s =
    Ret (Inl (if request_namespace req \<noteq> ns_ID (registry_Spec (st_Registry srv)) then NotFound else InvalidArgument), s)"
  by (rule state_handle_refused [OF assms])

lemma bad_request_refused_example:
  "state_handle (sample_server None) (ReqGet 0 \<lparr>greq_NamespaceId = lit ''other'', greq_Key = [0x6b]\<rparr>) (sample_state ()) =
    Ret (Inl NotFound, sample_state ())"
  using bad_request_refused [of "ReqGet 0 \<lparr>greq_NamespaceId = lit ''other'', greq_Key = [0x6b]\<rparr>" "sample_server None" "sample_state ()"]
  by (simp add: lit_def)

text \<open>
  C19. On a replicated node an acknowledged put went through raft and can be read at once on this
  node: if raft keeps its promise, a put without TTL and idempotency key is answered only after
  raft took the encoded command without an error; raft and the engine are as that left them,
  nothing having been written to the engine beside it; the epoch of the answer is the term the
  command was committed in; and a get on this state returns the value, with the version and the
  position of the answer.
\<close>

theorem replicated_put_readable:
  assumes "raft_applies (raft n)" and "st_Replication srv = Some n" and "serves s rs" and "registry_ok (gob n)"
    and "request_fits (ReqPut now req)" and "length (preq_Key req) + length (preq_Value req) < 2 ^ 32 - 200"
    and "preq_TtlSeconds req = 0" and "preq_IdempotencyKey req = []"
    and put: "state_Put srv now req s = Ret (Inr m, s1)"
  shows "(\<exists>b fut res. encodeCommand (gob n) \<lparr>cmd_Op = OpPut, cmd_Key = preq_Key req, cmd_Value = preq_Value req,
           cmd_ExpiresAtUnixNano = 0, cmd_ExpectedVersion = 0, cmd_IdempotencyKey = [], cmd_Entries = []\<rparr> = Some b
       \<and> raft_Apply (raft n) b (applyTimeout n) (n_raft s, n_engine s) = (fut, n_raft s1, n_engine s1)
       \<and> fut_Error fut = None \<and> fut_Response fut = Some res \<and> mres_Epoch m = res_Term res)
    \<and> state_Get srv later \<lparr>greq_NamespaceId = preq_NamespaceId req, greq_Key = preq_Key req\<rparr> s1 =
      Ret (Inr \<lparr>gres_Value = preq_Value req, gres_Version = mres_Version m, gres_Found = True\<rparr>, s1)
    \<and> mres_CommitPosition m = mres_Version m \<and> \<not> mres_Deduplicated m"
proof -
  let ?cmd = "zero_Command\<lparr>cmd_Op := OpPut, cmd_Key := preq_Key req, cmd_Value := preq_Value req,
     cmd_ExpiresAtUnixNano := 0, cmd_IdempotencyKey := []\<rparr>"
  have exp: "resolveExpiry now 0 = 0" by (simp add: resolveExpiry_def)
  from put assms(2,7,8) obtain res r1 e1 where ok: "preq_NamespaceId req = ns_ID (registry_Spec (st_Registry srv))" "preq_Key req \<noteq> []"
    and p: "Propose n ?cmd (n_raft s, n_engine s) = (res, r1, e1)"
    and m: "replicatedResponse srv res (s\<lparr>n_raft := r1, n_engine := e1\<rparr>) = (Inr m, s1)"
    by (auto simp: state_Put_def checkNamespace_iff node_Propose_def exp split: if_splits prod.splits)
  from m obtain r where r: "res = Inr r" "res_Err r = None"
    "response srv (res_Outcome r) (res_Term r) (s\<lparr>n_raft := r1, n_engine := e1\<rparr>) = (m, s1)"
    by (auto simp: replicatedResponse_def split: sum.splits option.splits prod.splits)
  have size: "command_size ?cmd < 2 ^ 32 - 200" using assms(6) by (simp add: command_size_def zero_Command_def entries_size_def)
  have fit: "command_fits ?cmd" using assms(5,8) by (simp add: command_fits_def cmd_put_def zero_Command_def fits_def put_record_def)
  from Propose_spec [OF assms(1) serves_engine [OF assms(3)] assms(4) size fit] p r(1) obtain now1 trm rs1 where
    e1: "replica e1 (snd (spec_command now1 trm ?cmd rs1))" and rr: "r = fst (spec_command now1 trm ?cmd rs1)" by blast
  have cmd: "spec_command now1 trm ?cmd rs1 =
      (apply_result trm (Inr (put_outcome (of_nat (Suc (length rs1))))), rs1 @ [at_end (put_record (preq_Key req) (preq_Value req) 0 []) rs1])"
    by (simp add: spec_command_def spec_once_def spec_replayed_def spec_commit_def cmd_put_def zero_Command_def del: of_nat_Suc)
  from response_answer [OF r(3)] have ans: "m = answer (registry_Spec (st_Registry srv)) (res_Term r) (res_Outcome r)" "n_engine s1 = e1"
    "n_raft s1 = r1" by simp_all
  from p r(1) ans have raft: "\<exists>b fut res. encodeCommand (gob n) ?cmd = Some b
      \<and> raft_Apply (raft n) b (applyTimeout n) (n_raft s, n_engine s) = (fut, n_raft s1, n_engine s1)
      \<and> fut_Error fut = None \<and> fut_Response fut = Some res \<and> mres_Epoch m = res_Term res"
    by (auto simp: Propose_def AsApplyResult_def answer_def split: option.splits prod.splits)
  have s1: "serves s1 (rs1 @ [at_end (put_record (preq_Key req) (preq_Value req) 0 []) rs1])"
    using e1 ans(2) cmd by (simp add: serves_def del: of_nat_Suc)
  have "spec_get later (preq_Key req) (rs1 @ [at_end (put_record (preq_Key req) (preq_Value req) 0 []) rs1]) =
      \<lparr>gres_Value = preq_Value req, gres_Version = of_nat (Suc (length rs1)), gres_Found = True\<rparr>"
    by (cases "tables_of rs1") (simp add: spec_get_def tables_of_def put_record_def put_entry_def expiry_time_def expired_def del: of_nat_Suc)
  with state_Get_spec [OF s1, of _ srv later] ok ans(1) rr cmd raft show ?thesis
    by (simp add: answer_def apply_result_def put_outcome_def zero_Command_def del: of_nat_Suc)
qed

definition sample_node :: "nat Node" where
  "sample_node = \<lparr>raft = single_raft, applyTimeout = 5 * second, gob = sample_registry\<rparr>"

theorem replicated_put_readable_witness:
  "\<exists>m s1. state_Put (sample_server (Some sample_node)) 0 sample_put (sample_state 0) = Ret (Inr m, s1)
    \<and> state_Get (sample_server (Some sample_node)) 9 sample_get s1 =
        Ret (Inr \<lparr>gres_Value = [0x76], gres_Version = mres_Version m, gres_Found = True\<rparr>, s1)"
proof -
  let ?srv = "sample_server (Some sample_node)"
  let ?cmd = "sample_command OpPut [0x6b] [0x76] 0 0 []"
  have cmd: "zero_Command\<lparr>cmd_Op := OpPut, cmd_Key := [0x6b], cmd_Value := [0x76], cmd_ExpiresAtUnixNano := 0, cmd_IdempotencyKey := []\<rparr> = ?cmd"
    by (simp add: zero_Command_def sample_command_def)
  obtain b where b: "encodeCommand sample_registry ?cmd = Some b"
    using encodeCommand_succeeds [OF sample_registry_ok, of ?cmd] by auto
  then have data: "b = sample_data ?cmd" by (simp add: sample_data_def)
  have "entry_okay (0, 1, b)" unfolding data by simp
  from fsm_Apply_spec [OF replica_new this] obtain e1 where
    e1: "fsm_Apply 0 1 b (engine_of [] []) = Ret (fst (spec_step (0, 1, b) []), e1)" by blast
  have res: "res_Err (fst (spec_step (0, 1, b) [])) = None" by (simp add: data spec_eval apply_result_def)
  have "\<exists>m s1. state_Put ?srv 0 sample_put (sample_state 0) = Ret (Inr m, s1)"
    using b e1 res cmd
    by (simp add: state_Put_def checkNamespace_iff sample_put_def resolveExpiry_def node_Propose_def Propose_def sample_node_def
        sample_state_def single_raft_def AsApplyResult_def replicatedResponse_def split: prod.split)
  then obtain m s1 where put: "state_Put ?srv 0 sample_put (sample_state 0) = Ret (Inr m, s1)" by blast
  have "state_Get ?srv 9 \<lparr>greq_NamespaceId = preq_NamespaceId sample_put, greq_Key = preq_Key sample_put\<rparr> s1 =
      Ret (Inr \<lparr>gres_Value = preq_Value sample_put, gres_Version = mres_Version m, gres_Found = True\<rparr>, s1)"
    using replicated_put_readable [OF _ _ sample_serves _ _ _ _ _ put, of sample_node 9]
    by (simp add: sample_node_def single_raft_applies sample_registry_ok sample_put_def fits_def put_record_def)
  with put show ?thesis by (auto simp: sample_put_def sample_get_def)
qed

end
