(* ===== verification/StreamServer.thy ===== *)
theory StreamServer
  imports StateServer "HOL-Library.Sublist"
begin

text \<open>
  The streaming service of \<^verbatim>\<open>internal/api/stream_server.go\<close>: reading the change stream, and the
  committed offsets of consumer groups.
\<close>

section \<open>Messages and handlers\<close>

record StreamServer =
  sm_Registry :: Registry

datatype ChangeKind = CHANGE_KIND_UNSPECIFIED | CHANGE_KIND_PUT | CHANGE_KIND_DELETE

record wire_change =
  wc_Offset :: u64
  wc_Kind :: ChangeKind
  wc_Key :: bytes
  wc_Value :: bytes

record FetchRequest =
  freq_NamespaceId :: bytes
  freq_FromOffset :: u64
  freq_MaxRecords :: "32 word"

record FetchResponse =
  fres_Records :: "wire_change list"
  fres_NextOffset :: u64

definition defaultMaxRecords :: int where
  "defaultMaxRecords = 500"

definition toChangeKind :: "RecordKind \<Rightarrow> ChangeKind" where
  "toChangeKind k =
     (if k = KindPut then CHANGE_KIND_PUT
      else if k = KindDelete then CHANGE_KIND_DELETE
      else CHANGE_KIND_UNSPECIFIED)"

definition wire_of :: "ChangeRecord \<Rightarrow> wire_change" where
  "wire_of r = \<lparr>wc_Offset = Offset r, wc_Kind = toChangeKind (chg_Kind r), wc_Key = chg_Key r, wc_Value = chg_Value r\<rparr>"

definition fetch_limit :: "32 word \<Rightarrow> int" where
  "fetch_limit maxRecords = (let limit = sint maxRecords in if limit \<le> 0 then defaultMaxRecords else limit)"

definition stream_Fetch :: "StreamServer \<Rightarrow> FetchRequest \<Rightarrow> ('r node_state, FetchResponse) handler" where
  "stream_Fetch srv req s =
     (case checkNamespace (sm_Registry srv) (freq_NamespaceId req) of
        Some c \<Rightarrow> Ret (Inl c, s)
      | None \<Rightarrow>
          if freq_FromOffset req = 0 then Ret (Inl InvalidArgument, s)
          else go_bind (engine_Fetch (freq_FromOffset req) (fetch_limit (freq_MaxRecords req)) (n_engine s)) (\<lambda>(res, e1).
            case res of
              Inl _ \<Rightarrow> Ret (Inl Internal, s\<lparr>n_engine := e1\<rparr>)
            | Inr recs \<Rightarrow>
                Ret (Inr \<lparr>fres_Records = map wire_of recs,
                          fres_NextOffset = foldl (\<lambda>_ r. Offset r + 1) (freq_FromOffset req) recs\<rparr>,
                     s\<lparr>n_engine := e1\<rparr>)))"

record CommitOffsetRequest =
  oreq_NamespaceId :: bytes
  oreq_ConsumerGroup :: bytes
  oreq_Offset :: u64

definition stream_CommitOffset :: "StreamServer \<Rightarrow> CommitOffsetRequest \<Rightarrow> ('r node_state, u64) handler" where
  "stream_CommitOffset srv req s =
     (case checkNamespace (sm_Registry srv) (oreq_NamespaceId req) of
        Some c \<Rightarrow> Ret (Inl c, s)
      | None \<Rightarrow>
          if oreq_ConsumerGroup req = [] then Ret (Inl InvalidArgument, s)
          else (case offsets_Commit (oreq_ConsumerGroup req) (oreq_Offset req) (n_offsets s) of
             ((committed, err), o1) \<Rightarrow>
               (case err of
                  Some e \<Rightarrow>
                    Ret (Inl (if e = ErrOffsetRegression then FailedPrecondition else Internal), s\<lparr>n_offsets := o1\<rparr>)
                | None \<Rightarrow> Ret (Inr committed, s\<lparr>n_offsets := o1\<rparr>))))"

record FetchOffsetRequest =
  ofreq_NamespaceId :: bytes
  ofreq_ConsumerGroup :: bytes

record FetchOffsetResponse =
  ofres_Offset :: u64
  ofres_Found :: bool

definition stream_FetchOffset :: "StreamServer \<Rightarrow> FetchOffsetRequest \<Rightarrow> ('r node_state, FetchOffsetResponse) handler" where
  "stream_FetchOffset srv req s =
     (case checkNamespace (sm_Registry srv) (ofreq_NamespaceId req) of
        Some c \<Rightarrow> Ret (Inl c, s)
      | None \<Rightarrow>
          if ofreq_ConsumerGroup req = [] then Ret (Inl InvalidArgument, s)
          else Ret (Inr (case offsets_Fetch (ofreq_ConsumerGroup req) (n_offsets s) of
                 None \<Rightarrow> \<lparr>ofres_Offset = 0, ofres_Found = False\<rparr>
               | Some off \<Rightarrow> \<lparr>ofres_Offset = off, ofres_Found = True\<rparr>), s))"

section \<open>Consumers\<close>

text \<open>
  A consumer that fetches again and again from where the last fetch ended, while the node goes
  through the given states: between two fetches the writers may have added anything.
\<close>

fun consume :: "StreamServer \<Rightarrow> bytes \<Rightarrow> 32 word \<Rightarrow> 'r node_state list \<Rightarrow> u64 \<Rightarrow> (wire_change list \<times> u64) option" where
  "consume srv ns maxr [] from = Some ([], from)"
| "consume srv ns maxr (s # ss) from =
     (case stream_Fetch srv \<lparr>freq_NamespaceId = ns, freq_FromOffset = from, freq_MaxRecords = maxr\<rparr> s of
        Ret (Inr res, _) \<Rightarrow>
          map_option (\<lambda>(rs, nxt). (fres_Records res @ rs, nxt)) (consume srv ns maxr ss (fres_NextOffset res))
      | _ \<Rightarrow> None)"

abbreviation wire_record :: "Record \<Rightarrow> wire_change" where
  "wire_record r \<equiv> wire_of (change_of r)"

lemma fetch_limit_pos: "0 < fetch_limit maxr"
  by (simp add: fetch_limit_def defaultMaxRecords_def Let_def)

lemma foldl_last_offset:
  "recs \<noteq> [] \<Longrightarrow> foldl (\<lambda>_ r. Offset r + 1) from recs = Offset (last recs) + 1"
  by (induction recs arbitrary: "from") auto

lemma next_offset:
  assumes "numbered rs" and "i \<le> length rs"
  shows "foldl (\<lambda>_ r. Offset r + 1) (of_nat (Suc i)) (map change_of (take m (drop i rs))) =
    of_nat (Suc (i + min m (length rs - i)))"
proof (cases "min m (length rs - i)")
  case 0
  then have t: "take m (drop i rs) = []" by (auto simp: min_def split: if_splits)
  show ?thesis unfolding t 0 by simp
next
  case (Suc j)
  let ?t = "take m (drop i rs)"
  have len: "length ?t = Suc j" using Suc by (simp add: min.commute)
  then have ne: "?t \<noteq> []" by auto
  have "last ?t = rs ! (i + j)" using len ne assms(2) Suc by (simp add: last_conv_nth)
  moreover have "i + j < length rs" using Suc by linarith
  ultimately have "CommitPosition (last ?t) = of_nat (Suc (i + j))" using assms(1) by (simp add: numbered_def)
  with ne Suc show ?thesis by (simp add: foldl_last_offset last_map change_of_def)
qed

lemma stream_Fetch_replica:
  assumes "serves s rs" and "ns = ns_ID (registry_Spec (sm_Registry srv))" and "i \<le> length rs" and "length rs < 2 ^ 63 - 1"
  shows "stream_Fetch srv \<lparr>freq_NamespaceId = ns, freq_FromOffset = of_nat (Suc i), freq_MaxRecords = maxr\<rparr> s =
    Ret (Inr \<lparr>fres_Records = map wire_record (take (nat (fetch_limit maxr)) (drop i rs)),
              fres_NextOffset = of_nat (Suc (i + min (nat (fetch_limit maxr)) (length rs - i)))\<rparr>, s)"
proof -
  have e: "engine_inv (n_engine s) rs" "engine_healthy (n_engine s)" using assms(1) by (simp_all add: serves_def replica_def)
  have u: "unat (of_nat (Suc i) :: u64) = Suc i" using assms(3,4) by (simp del: of_nat_Suc)
  then have nz: "(of_nat (Suc i) :: u64) \<noteq> 0" by (metis nat.distinct(1) unsigned_0)
  have fetch: "engine_Fetch (of_nat (Suc i)) (fetch_limit maxr) (n_engine s) =
      Ret (Inr (map change_of (take (nat (fetch_limit maxr)) (drop i rs))), n_engine s)"
  proof (cases "i < length rs")
    case True
    with engine_Fetch_segment [OF e True _ fetch_limit_pos] assms(4) show ?thesis by simp
  next
    case False
    have "log_of (elog (n_engine s)) rs" using e(1) by (simp add: engine_inv_def tracks_log_of)
    moreover have "length rs < unat (of_nat (Suc i) :: u64) \<and> unat (of_nat (Suc i) :: u64) \<le> 2 ^ 63"
      using False assms(3,4) unfolding u by simp
    ultimately show ?thesis
      using False assms(3,4) ReadRange_outside [of "elog (n_engine s)" rs "of_nat (Suc i)" "fetch_limit maxr"]
      by (simp add: engine_Fetch_def del: of_nat_Suc)
  qed
  have "numbered rs" using engine_inv_wf [OF e(1)] by (simp add: well_formed_def)
  note nxt = next_offset [OF this assms(3)]
  show ?thesis
    using assms(2) nz fetch nxt by (simp add: stream_Fetch_def checkNamespace_iff del: of_nat_Suc)
qed

text \<open>The answer to a fetch from any position up to 2 to the 63.\<close>

definition fetched :: "FetchRequest \<Rightarrow> Record list \<Rightarrow> Record list" where
  "fetched req rs = take (nat (fetch_limit (freq_MaxRecords req))) (drop (unat (freq_FromOffset req) - 1) rs)"

lemma fetched_next:
  assumes "numbered rs" and "freq_FromOffset req \<noteq> 0"
  shows "foldl (\<lambda>_ r. Offset r + 1) (freq_FromOffset req) (map change_of (fetched req rs)) =
    freq_FromOffset req + of_nat (length (fetched req rs))"
proof (cases "unat (freq_FromOffset req) - 1 \<le> length rs")
  case True
  define i where "i = unat (freq_FromOffset req) - 1"
  have "0 < unat (freq_FromOffset req)" using assms(2) by (simp add: unat_gt_0)
  then have f: "freq_FromOffset req = of_nat (Suc i)" by (simp add: i_def)
  have "i \<le> length rs" using True by (simp add: i_def)
  let ?m = "nat (fetch_limit (freq_MaxRecords req))"
  have t: "fetched req rs = take ?m (drop i rs)" by (simp add: fetched_def i_def)
  have "foldl (\<lambda>_ r. Offset r + 1) (of_nat (Suc i)) (map change_of (take ?m (drop i rs))) = of_nat (Suc i) + of_nat (length (take ?m (drop i rs)))"
    using next_offset [OF assms(1) \<open>i \<le> length rs\<close>, of ?m] by (simp add: min.commute add.assoc)
  then show ?thesis by (simp only: f t)
next
  case False
  then have "fetched req rs = []" by (simp add: fetched_def)
  then show ?thesis by simp
qed

lemma stream_Fetch_from:
  assumes "serves s rs" and "freq_NamespaceId req = ns_ID (registry_Spec (sm_Registry srv))"
    and "freq_FromOffset req \<noteq> 0" and "unat (freq_FromOffset req) \<le> 2 ^ 63"
  shows "stream_Fetch srv req s =
    Ret (Inr \<lparr>fres_Records = map wire_record (fetched req rs),
              fres_NextOffset = freq_FromOffset req + of_nat (length (fetched req rs))\<rparr>, s)"
proof -
  have e: "engine_inv (n_engine s) rs" "engine_healthy (n_engine s)" using assms(1) by (simp_all add: serves_def replica_def)
  then have lo: "log_of (elog (n_engine s)) rs" by (simp add: engine_inv_def tracks_log_of)
  have "engine_Fetch (freq_FromOffset req) (fetch_limit (freq_MaxRecords req)) (n_engine s) =
      Ret (Inr (map change_of (fetched req rs)), n_engine s)"
    using ReadRange_from [OF lo e(2) assms(3,4) fetch_limit_pos] by (simp add: engine_Fetch_def fetched_def)
  moreover have "numbered rs" using engine_inv_wf [OF e(1)] by (simp add: well_formed_def)
  ultimately show ?thesis
    using assms(2,3) fetched_next [of rs req] by (simp add: stream_Fetch_def checkNamespace_iff)
qed

lemma consume_prefix:
  assumes "list_all2 serves ss logs" and "ns = ns_ID (registry_Spec (sm_Registry srv))"
    and "sorted_wrt prefix (logs @ [final])" and "\<forall>rs \<in> set logs. i \<le> length rs" and "length final < 2 ^ 63 - 1"
    and "i \<le> length final"
  shows "\<exists>n. consume srv ns maxr ss (of_nat (Suc i)) = Some (map wire_record (take n (drop i final)), of_nat (Suc (i + n)))
    \<and> i + n \<le> length final
    \<and> (logs \<noteq> [] \<longrightarrow> min (length (hd logs)) (i + length ss * nat (fetch_limit maxr)) \<le> i + n)"
  using assms
proof (induction ss logs arbitrary: i rule: list_all2_induct)
  case Nil
  then show ?case by (intro exI [of _ 0]) simp
next
  case (Cons s ss rs logs)
  let ?m = "nat (fetch_limit maxr)"
  let ?k = "min ?m (length rs - i)"
  have pre: "prefix rs final" "\<forall>rs2 \<in> set logs. prefix rs rs2" "sorted_wrt prefix (logs @ [final])"
    using Cons.prems(2) by (auto simp: sorted_wrt_append)
  have len: "length rs \<le> length final" "\<forall>rs2 \<in> set logs. length rs \<le> length rs2"
    using pre prefix_length_le by blast+
  have i: "i \<le> length rs" using Cons.prems(3) by simp
  have fetch: "stream_Fetch srv \<lparr>freq_NamespaceId = ns, freq_FromOffset = of_nat (Suc i), freq_MaxRecords = maxr\<rparr> s =
    Ret (Inr \<lparr>fres_Records = map wire_record (take ?m (drop i rs)), fres_NextOffset = of_nat (Suc (i + ?k))\<rparr>, s)"
    using Cons.hyps(1) Cons.prems(1,4) i len(1) by (intro stream_Fetch_replica) simp_all
  have "i + ?k \<le> length rs" using i by simp
  then have ik: "\<forall>rs2 \<in> set logs. i + ?k \<le> length rs2" "i + ?k \<le> length final"
    using len le_trans by blast+
  from Cons.IH [OF Cons.prems(1) pre(3) ik(1) Cons.prems(4) ik(2)] obtain n where
    n: "consume srv ns maxr ss (of_nat (Suc (i + ?k))) =
      Some (map wire_record (take n (drop (i + ?k) final)), of_nat (Suc (i + ?k + n)))" "i + ?k + n \<le> length final"
      "logs \<noteq> [] \<longrightarrow> min (length (hd logs)) (i + ?k + length ss * ?m) \<le> i + ?k + n" by blast
  obtain more where fin: "final = rs @ more" using pre(1) by (auto elim: prefixE)
  have "take ?m (drop i rs) = take ?k (drop i final)" using i by (simp add: fin min_def)
  then have "take ?m (drop i rs) @ take n (drop (i + ?k) final) = take (?k + n) (drop i final)"
    using take_add [of ?k n "drop i final"] by (simp add: add.commute)
  then have recs: "map wire_record (take ?m (drop i rs)) @ map wire_record (take n (drop (i + ?k) final)) =
      map wire_record (take (?k + n) (drop i final))" by (metis map_append)
  have "min (length rs) (i + length (s # ss) * ?m) \<le> i + (?k + n)"
  proof (cases "?m \<le> length rs - i")
    case True
    then have k: "?k = ?m" by simp
    show ?thesis
    proof (cases "logs = []")
      case True
      then have "ss = []" using Cons.hyps(2) by simp
      with k show ?thesis by simp
    next
      case False
      then have "length rs \<le> length (hd logs)" using len(2) by simp
      with n(3) False show ?thesis unfolding k by (auto simp: min_def split: if_splits)
    qed
  qed simp
  with fetch n(1,2) recs show ?case by (intro exI [of _ "?k + n"]) (simp add: add.assoc del: of_nat_Suc)
qed

section \<open>Consumer groups\<close>

text \<open>
  One consumer of the group \<open>grp\<close>, in the loop the service is made for: ask for the committed offset,
  fetch from there (from 1 if there is none), process the records, commit the next offset.  The
  consumer may stop between processing and committing and start again, and in between the node
  may do anything that lets the log grow and leaves the offset of the group alone.

  In \<open>group_run srv grp s rs pending seen clean\<close> the node is in state \<open>s\<close> with the records \<open>rs\<close>, \<open>pending\<close> is
  the offset the consumer is to commit next, \<open>seen\<close> is all it has processed, and \<open>clean\<close> tells that it
  never stopped before a commit.
\<close>

definition fetch_request :: "StreamServer \<Rightarrow> 32 word \<Rightarrow> FetchOffsetResponse \<Rightarrow> FetchRequest" where
  "fetch_request srv maxr pos =
     \<lparr>freq_NamespaceId = ns_ID (registry_Spec (sm_Registry srv)),
      freq_FromOffset = (if ofres_Found pos then ofres_Offset pos else 1), freq_MaxRecords = maxr\<rparr>"

definition group_request :: "StreamServer \<Rightarrow> bytes \<Rightarrow> FetchOffsetRequest" where
  "group_request srv grp = \<lparr>ofreq_NamespaceId = ns_ID (registry_Spec (sm_Registry srv)), ofreq_ConsumerGroup = grp\<rparr>"

definition commit_request :: "StreamServer \<Rightarrow> bytes \<Rightarrow> u64 \<Rightarrow> CommitOffsetRequest" where
  "commit_request srv grp off =
     \<lparr>oreq_NamespaceId = ns_ID (registry_Spec (sm_Registry srv)), oreq_ConsumerGroup = grp, oreq_Offset = off\<rparr>"

inductive group_run :: "StreamServer \<Rightarrow> bytes \<Rightarrow> 'r node_state \<Rightarrow> Record list \<Rightarrow> u64 option \<Rightarrow> wire_change list \<Rightarrow> bool \<Rightarrow> bool"
  for srv grp where
  group_start: "serves s rs \<Longrightarrow> keeps (n_offsets s) os \<Longrightarrow> os grp = None \<Longrightarrow> group_run srv grp s rs None [] True"
| group_others: "group_run srv grp s rs pending seen clean \<Longrightarrow> serves s1 rs1 \<Longrightarrow> prefix rs rs1 \<Longrightarrow>
    keeps (n_offsets s1) os \<Longrightarrow> os grp = offsets (n_offsets s) grp \<Longrightarrow> group_run srv grp s1 rs1 pending seen clean"
| group_fetch: "group_run srv grp s rs None seen clean \<Longrightarrow>
    stream_FetchOffset srv (group_request srv grp) s = Ret (Inr pos, s1) \<Longrightarrow>
    stream_Fetch srv (fetch_request srv maxr pos) s1 = Ret (Inr res, s2) \<Longrightarrow>
    group_run srv grp s2 rs (Some (fres_NextOffset res)) (seen @ fres_Records res) clean"
| group_commit: "group_run srv grp s rs (Some off) seen clean \<Longrightarrow>
    stream_CommitOffset srv (commit_request srv grp off) s = Ret (Inr off1, s1) \<Longrightarrow> group_run srv grp s1 rs None seen clean"
| group_stops: "group_run srv grp s rs pending seen clean \<Longrightarrow> group_run srv grp s rs None seen (clean \<and> pending = None)"

text \<open>The number of records the committed offset of the group stands for.\<close>

definition group_done :: "bytes \<Rightarrow> 'r node_state \<Rightarrow> nat" where
  "group_done grp s = (case offsets_Fetch grp (n_offsets s) of None \<Rightarrow> 0 | Some off \<Rightarrow> unat off - 1)"

definition group_inv :: "bytes \<Rightarrow> 'r node_state \<Rightarrow> Record list \<Rightarrow> u64 option \<Rightarrow> wire_change list \<Rightarrow> bool \<Rightarrow> bool" where
  "group_inv grp s rs pending seen clean \<longleftrightarrow>
     serves s rs \<and> keeps (n_offsets s) (offsets (n_offsets s)) \<and> offsets (n_offsets s) grp \<noteq> Some 0
     \<and> set seen \<subseteq> wire_record ` set rs \<and> group_done grp s \<le> length rs
     \<and> subseq (map wire_record (take (group_done grp s) rs)) seen
     \<and> (case pending of
          None \<Rightarrow> clean \<longrightarrow> seen = map wire_record (take (group_done grp s) rs)
        | Some off \<Rightarrow> off \<noteq> 0 \<and> group_done grp s \<le> unat off - 1 \<and> unat off - 1 \<le> length rs
            \<and> subseq (map wire_record (take (unat off - 1) rs)) seen
            \<and> (clean \<longrightarrow> seen = map wire_record (take (unat off - 1) rs)))"

text \<open>What the three calls of the loop do.\<close>

lemma group_fetch_step:
  fixes maxr :: "32 word"
  assumes inv: "group_inv grp s rs None seen clean" and "grp \<noteq> []" and len: "length rs < 2 ^ 63 - 1"
  defines "n \<equiv> group_done grp s" and "m \<equiv> nat (fetch_limit maxr)"
  shows "\<exists>pos. stream_FetchOffset srv (group_request srv grp) s = Ret (Inr pos, s)
    \<and> stream_Fetch srv (fetch_request srv maxr pos) s =
        Ret (Inr \<lparr>fres_Records = map wire_record (take m (drop n rs)),
                  fres_NextOffset = of_nat (Suc (n + min m (length rs - n)))\<rparr>, s)"
proof -
  let ?pos = "case offsets_Fetch grp (n_offsets s) of
      None \<Rightarrow> \<lparr>ofres_Offset = 0, ofres_Found = False\<rparr> | Some off \<Rightarrow> \<lparr>ofres_Offset = off, ofres_Found = True\<rparr>"
  have pos: "stream_FetchOffset srv (group_request srv grp) s = Ret (Inr ?pos, s)"
    using assms(2) by (simp add: stream_FetchOffset_def group_request_def checkNamespace_iff)
  have nz: "offsets (n_offsets s) grp \<noteq> Some 0" and n: "n \<le> length rs" and sv: "serves s rs"
    using inv by (simp_all add: group_inv_def n_def)
  have "of_nat (Suc (unat off - 1)) = off" if "off \<noteq> 0" for off :: u64
  proof -
    have "0 < unat off" using that by (simp add: unat_gt_0)
    then show ?thesis by simp
  qed
  then have "fetch_request srv maxr ?pos =
      \<lparr>freq_NamespaceId = ns_ID (registry_Spec (sm_Registry srv)), freq_FromOffset = of_nat (Suc n), freq_MaxRecords = maxr\<rparr>"
    using nz by (cases "offsets (n_offsets s) grp") (auto simp: fetch_request_def n_def group_done_def offsets_Fetch_def)
  with stream_Fetch_replica [OF sv refl n len, of srv maxr] pos show ?thesis
    by (intro exI [of _ ?pos]) (simp add: m_def del: of_nat_Suc)
qed

lemma group_commit_step:
  assumes inv: "group_inv grp s rs (Some off) seen clean" and "grp \<noteq> []" and "fits (offset_record grp off)"
  shows "\<exists>s1. stream_CommitOffset srv (commit_request srv grp off) s = Ret (Inr off, s1)
    \<and> group_inv grp s1 rs None seen clean \<and> group_done grp s1 = unat off - 1"
proof -
  have off: "off \<noteq> 0" "group_done grp s \<le> unat off - 1" using inv by (simp_all add: group_inv_def)
  then have "\<not> regresses (offsets (n_offsets s)) grp off"
    by (auto simp: regresses_def group_done_def offsets_Fetch_def word_less_nat_alt unat_gt_0 [symmetric] split: option.splits)
  with offsets_Commit_keeps [of "n_offsets s" "offsets (n_offsets s)" grp off] inv assms(3) obtain o1 where
    o1: "offsets_Commit grp off (n_offsets s) = ((off, None), o1)" "keeps o1 ((offsets (n_offsets s))(grp \<mapsto> off))"
    by (auto simp: group_inv_def)
  then have "stream_CommitOffset srv (commit_request srv grp off) s = Ret (Inr off, s\<lparr>n_offsets := o1\<rparr>)"
    using assms(2) by (simp add: stream_CommitOffset_def commit_request_def checkNamespace_iff)
  moreover have "offsets o1 = (offsets (n_offsets s))(grp \<mapsto> off)" using o1(2) by (simp add: keeps_def)
  moreover have "group_done grp (s\<lparr>n_offsets := o1\<rparr>) = unat off - 1"
    using calculation(2) by (simp add: group_done_def offsets_Fetch_def)
  ultimately show ?thesis using inv o1(2) off(1) by (auto simp: group_inv_def serves_def)
qed

lemma group_fetch_inv:
  assumes inv: "group_inv grp s rs None seen clean" and "length rs < 2 ^ 63 - 1"
  defines "n \<equiv> group_done grp s"
  shows "group_inv grp s rs (Some (of_nat (Suc (n + min m (length rs - n))))) (seen @ map wire_record (take m (drop n rs))) clean"
proof -
  let ?k = "n + min m (length rs - n)"
  have n: "n \<le> length rs" using inv by (simp add: group_inv_def n_def)
  then have k: "?k \<le> length rs" by simp
  then have u: "unat (of_nat (Suc ?k) :: u64) = Suc ?k" using assms(2) by (simp del: of_nat_Suc)
  then have nz: "(of_nat (Suc ?k) :: u64) \<noteq> 0" by (metis nat.distinct(1) unsigned_0)
  have "take m (drop n rs) = take (min m (length rs - n)) (drop n rs)" by (simp add: min_def)
  then have split: "map wire_record (take ?k rs) = map wire_record (take n rs) @ map wire_record (take m (drop n rs))"
    by (simp add: take_add)
  have sub: "subseq (map wire_record (take n rs)) seen" and sn: "set seen \<subseteq> wire_record ` set rs"
    using inv by (simp_all add: group_inv_def n_def)
  have "subseq (map wire_record (take ?k rs)) (seen @ map wire_record (take m (drop n rs)))"
    unfolding split using sub by (rule list_emb_append_mono) simp
  moreover have "set (seen @ map wire_record (take m (drop n rs))) \<subseteq> wire_record ` set rs"
    using sn by (auto dest!: in_set_takeD in_set_dropD)
  moreover have "subseq (map wire_record (take n rs)) (seen @ map wire_record (take m (drop n rs)))"
    using sub by (rule list_emb_prefix)
  ultimately show ?thesis
    using inv u nz k split by (simp add: group_inv_def n_def del: of_nat_Suc)
qed

lemma group_others_inv:
  assumes inv: "group_inv grp s rs pending seen clean" and "serves s1 rs1" and "prefix rs rs1"
    and "keeps (n_offsets s1) os" and "os grp = offsets (n_offsets s) grp"
  shows "group_inv grp s1 rs1 pending seen clean"
proof -
  obtain new where rs1: "rs1 = rs @ new" using assms(3) by (auto elim: prefixE)
  have os: "offsets (n_offsets s1) = os" using assms(4) by (simp add: keeps_def)
  then have "group_done grp s1 = group_done grp s" using assms(5) by (simp add: group_done_def offsets_Fetch_def)
  with inv assms(2,4,5) os rs1 show ?thesis by (auto simp: group_inv_def split: option.splits)
qed

lemma group_run_inv:
  assumes "group_run srv grp s rs pending seen clean" and "grp \<noteq> []" and "\<forall>off. fits (offset_record grp off)"
    and "length rs < 2 ^ 63 - 1"
  shows "group_inv grp s rs pending seen clean"
  using assms
proof (induction rule: group_run.induct)
  case (group_start s rs os)
  then show ?case by (auto simp: group_inv_def group_done_def offsets_Fetch_def keeps_def)
next
  case (group_others s rs pending seen clean s1 rs1 os)
  have "length rs < 2 ^ 63 - 1" using group_others.prems(3) prefix_length_le [OF group_others.hyps(3)] by simp
  with group_others show ?case using group_others_inv by blast
next
  case (group_fetch s rs seen clean pos s1 maxr res s2)
  then have inv: "group_inv grp s rs None seen clean" by blast
  from group_fetch_step [OF inv group_fetch.prems(1,3), of srv maxr] group_fetch.hyps(2,3)
    group_fetch_inv [OF inv group_fetch.prems(3), of "nat (fetch_limit maxr)"]
  show ?case by (auto simp del: of_nat_Suc)
next
  case (group_commit s rs off seen clean off1 s1)
  then show ?case using group_commit_step [of grp s rs off seen clean srv] by auto
next
  case (group_stops s rs pending seen clean)
  then show ?case by (auto simp: group_inv_def split: option.splits)
qed

section \<open>Properties\<close>

text \<open>
  C11. A consumer group works through the change stream at least once, in commit order, and exactly once
  as long as it does not stop between processing and committing.  While writers append, other
  groups commit, and the consumer may stop and start again before any commit: the committed offset
  \<open>m + 1\<close> means that the first \<open>m\<close> records of the log were all processed in the order of the log, and
  nothing but records of the log ever is; if the consumer never stopped before a commit, what it
  has processed is exactly these records, each once.  No call of the loop is refused: the next
  fetch brings the records after the first \<open>m\<close>, up to the limit, and the commit after it is taken.
  The disks of the node work, and the log has less than \<open>2 ^ 63 - 1\<close> records.
\<close>

theorem consumer_group_log:
  fixes s :: "'r node_state"
  assumes "group_run srv grp s rs pending seen clean" and "grp \<noteq> []" and "\<forall>off. fits (offset_record grp off)"
    and "length rs < 2 ^ 63 - 1"
  defines "m \<equiv> group_done grp s"
  shows "m \<le> length rs \<and> subseq (map wire_record (take m rs)) seen \<and> set seen \<subseteq> wire_record ` set rs
    \<and> (clean \<and> pending = None \<longrightarrow> seen = map wire_record (take m rs))
    \<and> (pending = None \<longrightarrow> (\<exists>pos nxt. stream_FetchOffset srv (group_request srv grp) s = Ret (Inr pos, s)
         \<and> stream_Fetch srv (fetch_request srv maxr pos) s =
             Ret (Inr \<lparr>fres_Records = map wire_record (take (nat (fetch_limit maxr)) (drop m rs)), fres_NextOffset = nxt\<rparr>, s)))
    \<and> (\<forall>off. pending = Some off \<longrightarrow> (\<exists>s1. stream_CommitOffset srv (commit_request srv grp off) s = Ret (Inr off, s1)
         \<and> subseq (map wire_record (take (group_done grp s1) rs)) seen \<and> group_done grp s1 = unat off - 1))"
proof -
  have inv: "group_inv grp s rs pending seen clean" by (rule group_run_inv [OF assms(1-4)])
  have commit: "\<exists>s1. stream_CommitOffset srv (commit_request srv grp off) s = Ret (Inr off, s1)
      \<and> subseq (map wire_record (take (group_done grp s1) rs)) seen \<and> group_done grp s1 = unat off - 1" if "pending = Some off" for off
    using group_commit_step [OF inv [unfolded that] assms(2) spec [OF assms(3)], of srv] by (auto simp: group_inv_def)
  have fetch: "\<exists>pos nxt. stream_FetchOffset srv (group_request srv grp) s = Ret (Inr pos, s)
         \<and> stream_Fetch srv (fetch_request srv maxr pos) s =
             Ret (Inr \<lparr>fres_Records = map wire_record (take (nat (fetch_limit maxr)) (drop m rs)), fres_NextOffset = nxt\<rparr>, s)"
    if "pending = None"
    using group_fetch_step [OF inv [unfolded that] assms(2,4), of srv maxr] unfolding m_def by blast
  show ?thesis using inv commit fetch by (auto simp: group_inv_def m_def split: option.splits)
qed

definition sample_stream :: StreamServer where
  "sample_stream = \<lparr>sm_Registry = NewRegistry \<lparr>ns_ID = lit ''ns'', ns_Profile = lit ''cache''\<rparr>\<rparr>"

lemma sample_stream_namespace: "ns_ID (registry_Spec (sm_Registry sample_stream)) = lit ''ns''"
  by (simp add: sample_stream_def NewRegistry_def registry_Spec_def)

text \<open>A group that reads the only record, stops before it commits, reads it again and commits.\<close>

theorem consumer_group_log_witness:
  "\<exists>s seen. group_run sample_stream (lit ''g'') (s :: unit node_state) [sample_record] None seen False
    \<and> seen = [wire_record sample_record, wire_record sample_record]
    \<and> group_done (lit ''g'') s = 1 \<and> subseq (map wire_record (take 1 [sample_record])) seen"
proof -
  let ?s = "(sample_state ())\<lparr>n_engine := engine_of [] [sample_record]\<rparr> :: unit node_state"
  let ?g = "lit ''g''" and ?rs = "[sample_record]" and ?w = "wire_record sample_record"
  have "well_formed ?rs" using well_formed_snoc [of "[]" sample_record] by (simp add: sample_record_def fits_def)
  then have sv: "serves ?s ?rs" using engine_inv_of by (simp add: serves_def replica_def)
  have kp: "keeps (n_offsets ?s) Map.empty"
    using log_of_opened [of "[]" "[]"] by (auto simp: keeps_def sample_state_def offsets_inv_def tracks_def)
  have ctx: "?g \<noteq> []" "\<forall>off. fits (offset_record ?g off)" "length ?rs < 2 ^ 63 - 1"
    by (simp_all add: lit_def fits_def offset_record_def encodeOffset_def)
  have run0: "group_run sample_stream ?g ?s ?rs None [] True" by (rule group_start [OF sv kp]) simp
  note law = consumer_group_log [OF _ ctx, where maxr = 0]
  have zero: "group_done ?g ?s = 0" by (simp add: group_done_def offsets_Fetch_def sample_state_def)
  have limit: "take (nat (fetch_limit 0)) ?rs = ?rs" by (simp add: fetch_limit_def defaultMaxRecords_def)
  from law [OF run0] obtain pos nxt where
    f: "stream_FetchOffset sample_stream (group_request sample_stream ?g) ?s = Ret (Inr pos, ?s)"
      "stream_Fetch sample_stream (fetch_request sample_stream 0 pos) ?s = Ret (Inr \<lparr>fres_Records = [?w], fres_NextOffset = nxt\<rparr>, ?s)"
    unfolding zero by (auto simp: limit)
  have run1: "group_run sample_stream ?g ?s ?rs None [?w] False"
    using group_stops [OF group_fetch [OF run0 f]] by simp
  have run2: "group_run sample_stream ?g ?s ?rs (Some nxt) [?w, ?w] False" using group_fetch [OF run1 f] by simp
  from law [OF run2] obtain s1 where
    s1: "stream_CommitOffset sample_stream (commit_request sample_stream ?g nxt) ?s = Ret (Inr nxt, s1)" "group_done ?g s1 = unat nxt - 1"
    by auto
  have run3: "group_run sample_stream ?g s1 ?rs None [?w, ?w] False" by (rule group_commit [OF run2 s1(1)])
  have "pos = \<lparr>ofres_Offset = 0, ofres_Found = False\<rparr>"
    using f(1) ctx(1) by (simp add: stream_FetchOffset_def group_request_def checkNamespace_iff sample_state_def offsets_Fetch_def)
  then have req: "freq_FromOffset (fetch_request sample_stream 0 pos) = 1" "freq_MaxRecords (fetch_request sample_stream 0 pos) = 0"
    "freq_NamespaceId (fetch_request sample_stream 0 pos) = ns_ID (registry_Spec (sm_Registry sample_stream))"
    by (simp_all add: fetch_request_def)
  have "fetched (fetch_request sample_stream 0 pos) ?rs = ?rs" by (simp add: fetched_def req limit)
  with stream_Fetch_from [OF sv req(3)] f(2) have "nxt = 2" by (simp add: req)
  then have one: "group_done ?g s1 = 1" using s1(2) by simp
  from law [OF run3] have "subseq (map wire_record (take 1 ?rs)) [?w, ?w]" unfolding one by (elim conjE)
  with run3 one show ?thesis by blast
qed

text \<open>
  C40. A fetch from an offset above 2 to the 63 panics: no client may be given an answer, since the
  position passes the bounds check of the log as a negative number.  The handler does not
  recover, so the request ends the process.
\<close>

theorem stream_Fetch_panics:
  assumes "freq_NamespaceId req = ns_ID (registry_Spec (sm_Registry srv))" and "2 ^ 63 < unat (freq_FromOffset req)"
    and "length (byteOffsets (elog (n_engine s))) \<le> 2 ^ 63"
  shows "stream_Fetch srv req s = Panic"
proof -
  have "freq_FromOffset req \<noteq> 0" using assms(2) by auto
  moreover have "ReadRange (freq_FromOffset req) (fetch_limit (freq_MaxRecords req)) (elog (n_engine s)) = Panic"
    by (rule ReadRange_panics [OF assms(2,3) fetch_limit_pos])
  ultimately show ?thesis using assms(1) by (simp add: stream_Fetch_def checkNamespace_iff engine_Fetch_def)
qed

theorem stream_Fetch_panics_witness:
  "stream_Fetch sample_stream \<lparr>freq_NamespaceId = lit ''ns'', freq_FromOffset = 2 ^ 63 + 1, freq_MaxRecords = 1\<rparr> (sample_state ()) = Panic"
  by (rule stream_Fetch_panics) (simp_all add: sample_stream_namespace sample_state_def engine_of_def opened_def)

end
