(* ===== verification/AdminServer.thy ===== *)
theory AdminServer
  imports Backup StreamServer
begin

text \<open>
  The administration service of \<^verbatim>\<open>internal/api/admin_server.go\<close>: cluster membership, backup and
  restore, export, deletion and usage of the namespace.
\<close>

section \<open>Messages\<close>

record 'r AdminServer =
  ad_Registry :: Registry
  ad_Node :: "'r Node option"
  ad_gob :: gob_registry

record admin_node =
  an_Id :: bytes
  an_RaftAddr :: bytes
  an_IsVoter :: bool

record Cluster =
  cl_Nodes :: "admin_node list"
  cl_LeaderId :: bytes
  cl_LeaderRaftAddr :: bytes

record BackupInfo =
  bi_NamespaceId :: bytes
  bi_RecoveryPoint :: u64
  bi_EntryCount :: "32 word"
  bi_CreatedAt :: bytes
  bi_Sha256Entries :: bytes

record ExportedEntry =
  ex_Key :: bytes
  ex_Value :: bytes
  ex_ExpiresAtUnixNano :: i64

record GetUsageResponse =
  us_NamespaceId :: bytes
  us_KeyCount :: i64
  us_ApproxBytes :: i64

section \<open>Times\<close>

text \<open>\<^verbatim>\<open>Format(time.RFC3339)\<close> of a time in UTC: the date in the proleptic Gregorian calendar.\<close>

definition digits :: "nat \<Rightarrow> int \<Rightarrow> bytes" where
  "digits width n = map (\<lambda>i. of_int (48 + n div 10 ^ (width - Suc i) mod 10)) [0..<width]"

definition civil :: "int \<Rightarrow> int \<times> int \<times> int" where
  "civil days =
     (let z = days + 719468;
          era = z div 146097;
          doe = z - era * 146097;
          yoe = (doe - doe div 1460 + doe div 36524 - doe div 146096) div 365;
          doy = doe - (365 * yoe + yoe div 4 - yoe div 100);
          mp = (5 * doy + 2) div 153;
          d = doy - (153 * mp + 2) div 5 + 1;
          m = (if mp < 10 then mp + 3 else mp - 9)
      in (yoe + era * 400 + (if m \<le> 2 then 1 else 0), m, d))"

definition RFC3339 :: "int \<Rightarrow> bytes" where
  "RFC3339 t =
     (let secs = t div second; s = secs mod 86400 in
      case civil (secs div 86400) of
        (y, m, d) \<Rightarrow>
          digits 4 y @ lit ''-'' @ digits 2 m @ lit ''-'' @ digits 2 d @ lit ''T''
          @ digits 2 (s div 3600) @ lit '':'' @ digits 2 (s div 60 mod 60) @ lit '':'' @ digits 2 (s mod 60) @ lit ''Z'')"

section \<open>Handlers\<close>

definition adminError :: "repl_error \<Rightarrow> codes" where
  "adminError err = Unavailable"

definition errNotReplicated :: codes where
  "errNotReplicated = FailedPrecondition"

definition currentCluster :: "'r Node \<Rightarrow> 'r \<Rightarrow> codes + Cluster" where
  "currentCluster n r =
     (case ListServers n r of
        Inl _ \<Rightarrow> Inl Internal
      | Inr servers \<Rightarrow>
          Inr \<lparr>cl_Nodes = map (\<lambda>m. \<lparr>an_Id = si_ID m, an_RaftAddr = si_Addr m, an_IsVoter = si_IsVoter m\<rparr>) (Members servers),
               cl_LeaderId = srv_LeaderID servers, cl_LeaderRaftAddr = srv_LeaderAddr servers\<rparr>)"

definition admin_AddNode :: "'r AdminServer \<Rightarrow> bytes \<Rightarrow> bytes \<Rightarrow> ('r node_state, Cluster) handler" where
  "admin_AddNode srv nid raftAddr s =
     (case ad_Node srv of
        None \<Rightarrow> Ret (Inl errNotReplicated, s)
      | Some n \<Rightarrow>
          if nid = [] \<or> raftAddr = [] then Ret (Inl InvalidArgument, s)
          else (case AddVoter n nid raftAddr (n_raft s) of
             (Some err, r1) \<Rightarrow> Ret (Inl (adminError (RaftErr err)), s\<lparr>n_raft := r1\<rparr>)
           | (None, r1) \<Rightarrow> Ret (currentCluster n r1, s\<lparr>n_raft := r1\<rparr>)))"

definition admin_RemoveNode :: "'r AdminServer \<Rightarrow> bytes \<Rightarrow> ('r node_state, Cluster) handler" where
  "admin_RemoveNode srv nid s =
     (case ad_Node srv of
        None \<Rightarrow> Ret (Inl errNotReplicated, s)
      | Some n \<Rightarrow>
          if nid = [] then Ret (Inl InvalidArgument, s)
          else (case RemoveServer n nid (n_raft s) of
             (Some err, r1) \<Rightarrow> Ret (Inl (adminError (RaftErr err)), s\<lparr>n_raft := r1\<rparr>)
           | (None, r1) \<Rightarrow> Ret (currentCluster n r1, s\<lparr>n_raft := r1\<rparr>)))"

definition admin_ListNodes :: "'r AdminServer \<Rightarrow> ('r node_state, Cluster) handler" where
  "admin_ListNodes srv s =
     (case ad_Node srv of
        None \<Rightarrow> Ret (Inl errNotReplicated, s)
      | Some n \<Rightarrow> Ret (currentCluster n (n_raft s), s))"

definition backupInfo :: "Meta \<Rightarrow> BackupInfo" where
  "backupInfo meta =
     \<lparr>bi_NamespaceId = bm_NamespaceID meta, bi_RecoveryPoint = RecoveryPoint meta,
      bi_EntryCount = of_int (EntryCount meta), bi_CreatedAt = RFC3339 (CreatedAt meta),
      bi_Sha256Entries = SHA256Entries meta\<rparr>"

text \<open>The order in which \<^verbatim>\<open>Snapshot\<close> meets the keys, the clock, and the file that is created are arguments.\<close>

definition admin_CreateBackup :: "'r AdminServer \<Rightarrow> (bytes \<times> int) list \<Rightarrow> int \<Rightarrow> osfile option \<Rightarrow> bytes
    \<Rightarrow> ('r node_state, BackupInfo) handler" where
  "admin_CreateBackup srv order now created pth s =
     (if pth = [] then Ret (Inl InvalidArgument, s)
      else
        (let spec = registry_Spec (ad_Registry srv);
             entries = Snapshot order (n_engine s) in
         case backup_WriteFile (ad_gob srv) now created pth
                \<lparr>FormatVersion = 0, bm_NamespaceID = ns_ID spec, RecoveryPoint = engine_LastCommitPosition (n_engine s),
                 EntryCount = 0, CreatedAt = zero_time, SHA256Entries = []\<rparr> entries (n_files s) of
           (Inl _, files1) \<Rightarrow> Ret (Inl Internal, s\<lparr>n_files := files1\<rparr>)
         | (Inr meta, files1) \<Rightarrow> Ret (Inr (backupInfo meta), s\<lparr>n_files := files1\<rparr>)))"

definition admin_RestoreBackup :: "'r AdminServer \<Rightarrow> bytes \<Rightarrow> ('r node_state, BackupInfo) handler" where
  "admin_RestoreBackup srv pth s =
     (if pth = [] then Ret (Inl InvalidArgument, s)
      else (case backup_ReadFile (ad_gob srv) pth (n_files s) of
         (Inl _, files1) \<Rightarrow> Ret (Inl InvalidArgument, s\<lparr>n_files := files1\<rparr>)
       | (Inr (meta, entries), files1) \<Rightarrow>
           (let s1 = s\<lparr>n_files := files1\<rparr> in
            case ad_Node srv of
              Some n \<Rightarrow>
                (case node_Propose n (zero_Command\<lparr>cmd_Op := OpLoadSnapshot, cmd_Entries := entries\<rparr>) s1 of
                   (Inl err, s2) \<Rightarrow> Ret (Inl (adminError err), s2)
                 | (Inr result, s2) \<Rightarrow>
                     Ret (if res_Err result \<noteq> None then Inl Internal else Inr (backupInfo meta), s2))
            | None \<Rightarrow>
                go_bind (engine_Reset (n_engine s1)) (\<lambda>(err, e1).
                  if err \<noteq> None then Ret (Inl Internal, s1\<lparr>n_engine := e1\<rparr>)
                  else (case put_entries entries e1 of
                     (Some _, e2) \<Rightarrow> Ret (Inl Internal, s1\<lparr>n_engine := e2\<rparr>)
                   | (None, e2) \<Rightarrow> Ret (Inr (backupInfo meta), s1\<lparr>n_engine := e2\<rparr>))))))"

definition admin_ExportNamespace :: "'r AdminServer \<Rightarrow> (bytes \<times> int) list \<Rightarrow> ('r node_state, ExportedEntry list) handler" where
  "admin_ExportNamespace srv order s =
     Ret (Inr (map (\<lambda>e. \<lparr>ex_Key = snap_Key e, ex_Value = snap_Value e, ex_ExpiresAtUnixNano = snap_ExpiresAtUnixNano e\<rparr>)
            (Snapshot order (n_engine s))), s)"

definition admin_DeleteNamespace :: "'r AdminServer \<Rightarrow> (bytes \<times> int) list \<Rightarrow> bytes \<Rightarrow> ('r node_state, 32 word) handler" where
  "admin_DeleteNamespace srv order confirm s =
     (let spec = registry_Spec (ad_Registry srv) in
      if confirm \<noteq> ns_ID spec then Ret (Inl InvalidArgument, s)
      else
        (let before = length (Snapshot order (n_engine s)) in
         case ad_Node srv of
           Some n \<Rightarrow>
             (case node_Propose n (zero_Command\<lparr>cmd_Op := OpWipeAll\<rparr>) s of
                (Inl err, s1) \<Rightarrow> Ret (Inl (adminError err), s1)
              | (Inr result, s1) \<Rightarrow>
                  Ret (if res_Err result \<noteq> None then Inl Internal else Inr (of_nat before), s1))
         | None \<Rightarrow>
             go_bind (engine_Reset (n_engine s)) (\<lambda>(err, e1).
               Ret (if err \<noteq> None then Inl Internal else Inr (of_nat before), s\<lparr>n_engine := e1\<rparr>))))"

definition admin_GetUsage :: "'r AdminServer \<Rightarrow> (bytes \<times> int) list \<Rightarrow> ('r node_state, GetUsageResponse) handler" where
  "admin_GetUsage srv order s =
     (let spec = registry_Spec (ad_Registry srv);
          entries = Snapshot order (n_engine s) in
      Ret (Inr \<lparr>us_NamespaceId = ns_ID spec, us_KeyCount = of_nat (length entries),
                us_ApproxBytes = foldl (\<lambda>a e. a + of_nat (length (snap_Key e) + length (snap_Value e))) 0 entries\<rparr>, s))"

section \<open>Restore without replication\<close>

lemma admin_RestoreBackup_loads:
  assumes "ad_Node srv = None" and "pth \<noteq> []" and "serves s rs"
    and "backup_ReadFile (ad_gob srv) pth (n_files s) = (Inr (meta, es), files1)" and "\<forall>e \<in> set es. entry_fits e"
  shows "\<exists>s1. admin_RestoreBackup srv pth s = Ret (Inr (backupInfo meta), s1) \<and> serves s1 (spec_entries es [])
    \<and> n_offsets s1 = n_offsets s"
proof -
  obtain e1 where e1: "engine_Reset (n_engine s) = Ret (None, e1)" "replica e1 []"
    using replica_Reset [OF serves_engine [OF assms(3)]] by blast
  obtain e2 where e2: "put_entries es e1 = (None, e2)" "replica e2 (spec_entries es [])"
    using put_entries_spec [OF e1(2) assms(5)] by blast
  have "admin_RestoreBackup srv pth s = Ret (Inr (backupInfo meta), s\<lparr>n_files := files1, n_engine := e2\<rparr>)"
    using assms(1,2,4) e1(1) e2(1) by (simp add: admin_RestoreBackup_def Let_def)
  with e2(2) show ?thesis by (simp add: serves_def)
qed

section \<open>Properties\<close>

text \<open>
  C8. Disaster recovery works: a backup taken of a node without raft, and restored later in the same
  process, or another one with the same gob type numbers, on a node in whatever state, brings
  back every value that was live: from the time of the backup on every key has the value it had
  on the first node, and keys written since then are gone.  The disks work, and the entries take
  less than two gigabytes.
\<close>

theorem backup_restore:
  fixes srv :: "'r AdminServer" and s :: "'r node_state"
  assumes "ad_Node srv = None" and "registry_ok (ad_gob srv)" and "pth \<noteq> []" and "n_files s pth = None"
    and "serves s rs" and "ranges_over order (n_engine s)" and "\<forall>(k, t) \<in> set order. t \<le> later"
    and "entries_size (Snapshot order (n_engine s)) < 2 ^ 31" and "length (ns_ID (registry_Spec (ad_Registry srv))) < 2 ^ 20"
    and "0 \<le> now" and "now < 2 ^ 63"
  shows "\<exists>info s1. admin_CreateBackup srv order now (Some fresh_file) pth s = Ret (Inr info, s1)
    \<and> n_engine s1 = n_engine s \<and> bi_RecoveryPoint info = of_nat (length rs)
    \<and> (\<forall>s2 rs2. serves s2 rs2 \<and> n_files s2 = n_files s1 \<longrightarrow>
         (\<exists>s3. admin_RestoreBackup srv pth s2 = Ret (Inr info, s3)
            \<and> (\<forall>key. map_option fst (engine_Get later key (n_engine s3)) =
                 map_option fst (engine_Get later key (n_engine s)))))"
proof -
  let ?es = "Snapshot order (n_engine s)"
  let ?meta = "\<lparr>FormatVersion = 0, bm_NamespaceID = ns_ID (registry_Spec (ad_Registry srv)),
     RecoveryPoint = engine_LastCommitPosition (n_engine s), EntryCount = 0, CreatedAt = zero_time, SHA256Entries = []\<rparr>"
  have "length (bm_NamespaceID ?meta) < 2 ^ 20" using assms(9) by simp
  from backup_WriteFile_healthy [where files = "n_files s" and pth = pth, OF assms(2,8) this assms(10,11,4)]
  obtain buf bs m where b: "encode_entries (ad_gob srv) ?es = Some buf"
    "m = ?meta\<lparr>FormatVersion := 1, EntryCount := int (length ?es), SHA256Entries := hex (Sum256 buf), CreatedAt := now\<rparr>"
    "backup_WriteFile (ad_gob srv) now (Some fresh_file) pth ?meta ?es (n_files s) =
      (Inr m, (n_files s)(pth \<mapsto> \<lparr>content = bs, durable = length bs, closed = True, faults = []\<rparr>))"
    "Option.bind (gob_Decode payload_type [] bs) gval_payload = Some (m, ?es)" .
  let ?files = "(n_files s)(pth \<mapsto> \<lparr>content = bs, durable = length bs, closed = True, faults = []\<rparr>)"
  have inv: "engine_inv (n_engine s) rs" using assms(5) by (simp add: serves_def replica_def)
  have create: "admin_CreateBackup srv order now (Some fresh_file) pth s = Ret (Inr (backupInfo m), s\<lparr>n_files := ?files\<rparr>)"
    using assms(3) b(3) by (simp add: admin_CreateBackup_def Let_def)
  have f: "?files pth = Some (disk bs)" by (simp add: disk_def)
  have "fst (backup_ReadFile (ad_gob srv) pth ?files) = Inr (m, ?es)"
    unfolding backup_ReadFile_disk [where files = ?files, OF f] using backup_Read_stream [OF b(4) _ b(1)] b(2) by simp
  then obtain files1 where rd: "backup_ReadFile (ad_gob srv) pth ?files = (Inr (m, ?es), files1)" by (metis prod.collapse)
  have fits: "\<forall>e \<in> set ?es. entry_fits e" using Snapshot_entry_fits [OF inv] by blast
  have restore: "\<exists>s3. admin_RestoreBackup srv pth s2 = Ret (Inr (backupInfo m), s3)
      \<and> (\<forall>key. map_option fst (engine_Get later key (n_engine s3)) = map_option fst (engine_Get later key (n_engine s)))"
    if "serves s2 rs2" and "n_files s2 = ?files" for s2 :: "'r node_state" and rs2
  proof -
    from admin_RestoreBackup_loads [OF assms(1,3) that(1) _ fits] rd that(2) obtain s3 where
      s3: "admin_RestoreBackup srv pth s2 = Ret (Inr (backupInfo m), s3)" "serves s3 (spec_entries ?es [])" by auto
    from Snapshot_view [OF inv assms(6,7) serves_engine [OF s3(2)]] s3(1) show ?thesis by blast
  qed
  have point: "bi_RecoveryPoint (backupInfo m) = of_nat (length rs)"
    using inv by (simp add: backupInfo_def b(2) engine_LastCommitPosition_def LastCommitPosition_def engine_inv_def tracks_def log_of_def)
  show ?thesis
  proof (rule exI [of _ "backupInfo m"], rule exI [of _ "s\<lparr>n_files := ?files\<rparr>"], intro conjI allI impI)
    fix s2 :: "'r node_state" and rs2 assume "serves s2 rs2 \<and> n_files s2 = n_files (s\<lparr>n_files := ?files\<rparr>)"
    then show "\<exists>s3. admin_RestoreBackup srv pth s2 = Ret (Inr (backupInfo m), s3)
      \<and> (\<forall>key. map_option fst (engine_Get later key (n_engine s3)) = map_option fst (engine_Get later key (n_engine s)))"
      using restore [of s2 rs2] by simp
  qed (simp_all add: create point)
qed

definition sample_admin :: "'r AdminServer" where
  "sample_admin = \<lparr>ad_Registry = NewRegistry \<lparr>ns_ID = lit ''ns'', ns_Profile = lit ''cache''\<rparr>, ad_Node = None, ad_gob = sample_registry\<rparr>"

lemma sample_admin_simps [simp]: "ad_Node sample_admin = None" "ad_gob sample_admin = sample_registry"
  "registry_Spec (ad_Registry sample_admin) = \<lparr>ns_ID = lit ''ns'', ns_Profile = lit ''cache''\<rparr>"
  by (simp_all add: sample_admin_def NewRegistry_def registry_Spec_def)

text \<open>A node with one key, backed up, and restored on a node that is empty.\<close>

theorem backup_restore_witness:
  "\<exists>info s1 s3. admin_CreateBackup sample_admin [([0x6b], 0)] 0 (Some fresh_file) (lit ''/b'')
        ((sample_state ())\<lparr>n_engine := engine_of [] [sample_record]\<rparr>) = Ret (Inr info, s1)
    \<and> admin_RestoreBackup sample_admin (lit ''/b'') (s1\<lparr>n_engine := engine_of [] []\<rparr>) = Ret (Inr info, s3)
    \<and> map_option fst (engine_Get 5 [0x6b] (n_engine s3)) = Some [0x76]"
proof -
  let ?s = "(sample_state ())\<lparr>n_engine := engine_of [] [sample_record]\<rparr>" and ?order = "[([0x6b] :: bytes, 0 :: int)]"
  have "well_formed [sample_record]"
    using well_formed_snoc [of "[]" sample_record] by (simp add: sample_record_def fits_def)
  then have serves: "serves ?s [sample_record]"
    using engine_inv_of by (simp add: serves_def replica_def)
  have index: "index (n_engine ?s) = [[0x6b] \<mapsto> \<lparr>ent_value = [0x76], ent_version = 1, ent_expiresAt = None\<rparr>]"
    by (simp add: engine_of_def sample_record_def put_entry_def expiry_time_def)
  have none: "n_files ?s (lit ''/b'') = None" "ranges_over ?order (n_engine ?s)" "entries_size (Snapshot ?order (n_engine ?s)) < 2 ^ 31"
    unfolding ranges_over_def Snapshot_def index by (simp_all add: sample_state_def entries_size_def expired_def)
  have get: "map_option fst (engine_Get 5 [0x6b] (n_engine ?s)) = Some [0x76]"
    unfolding engine_Get_def index by (simp add: expired_def)
  have "\<forall>(k, t) \<in> set ?order. t \<le> (5 :: int)" "length (ns_ID (registry_Spec (ad_Registry sample_admin))) < 2 ^ 20" by simp_all
  from backup_restore [of sample_admin, OF sample_admin_simps(1) _ _ none(1) serves none(2) this(1) none(3) this(2), of 0]
  obtain info s1 where s1: "admin_CreateBackup sample_admin ?order 0 (Some fresh_file) (lit ''/b'') ?s = Ret (Inr info, s1)"
    and restore: "\<forall>s2 rs2. serves (s2 :: unit node_state) rs2 \<and> n_files s2 = n_files s1 \<longrightarrow>
         (\<exists>s3. admin_RestoreBackup sample_admin (lit ''/b'') s2 = Ret (Inr info, s3)
            \<and> (\<forall>key. map_option fst (engine_Get 5 key (n_engine s3)) = map_option fst (engine_Get 5 key (n_engine ?s))))"
    by (simp only: sample_admin_simps) (elim meta_impE, rule sample_registry_ok, simp, simp, simp, elim exE conjE, rule that)
  have "serves (s1\<lparr>n_engine := engine_of [] []\<rparr>) []" by (simp add: serves_def replica_new)
  with restore [rule_format, of "s1\<lparr>n_engine := engine_of [] []\<rparr>" "[]"] obtain s3 where
    s3: "admin_RestoreBackup sample_admin (lit ''/b'') (s1\<lparr>n_engine := engine_of [] []\<rparr>) = Ret (Inr info, s3)"
    and "\<forall>key. map_option fst (engine_Get 5 key (n_engine s3)) = map_option fst (engine_Get 5 key (n_engine ?s))" by auto
  then have "map_option fst (engine_Get 5 [0x6b] (n_engine s3)) = Some [0x76]" using get by (metis (no_types))
  with s1 s3 show ?thesis by blast
qed

text \<open>
  C39. Deleting the namespace, or restoring a backup, starts the log again from position 1, but leaves the
  committed offsets of the consumer groups: a group that had read \<open>n\<close> records resumes at position
  \<open>n + 1\<close>, and gets nothing at all of the first \<open>n\<close> records that are written afterwards.
\<close>

theorem delete_namespace_skips:
  fixes srv :: "'r AdminServer" and s :: "'r node_state"
  assumes "ad_Node srv = None" and "serves s rs" and "length rs < 2 ^ 62"
    and "offsets_Fetch g (n_offsets s) = Some (of_nat (Suc (length rs)))"
    and "ns_ID (registry_Spec (ad_Registry srv)) = ns_ID (registry_Spec (sm_Registry str))" and "g \<noteq> []"
  shows "\<exists>n s1. admin_DeleteNamespace srv order (ns_ID (registry_Spec (ad_Registry srv))) s = Ret (Inr n, s1) \<and> serves s1 []
    \<and> (\<forall>(s2 :: 'r node_state) new. serves s2 new \<and> n_offsets s2 = n_offsets s1 \<and> length new \<le> length rs \<longrightarrow>
        (\<exists>off. stream_FetchOffset str \<lparr>ofreq_NamespaceId = ns_ID (registry_Spec (sm_Registry str)), ofreq_ConsumerGroup = g\<rparr> s2 =
             Ret (Inr \<lparr>ofres_Offset = off, ofres_Found = True\<rparr>, s2)
           \<and> stream_Fetch str \<lparr>freq_NamespaceId = ns_ID (registry_Spec (sm_Registry str)), freq_FromOffset = off, freq_MaxRecords = maxr\<rparr> s2 =
             Ret (Inr \<lparr>fres_Records = [], fres_NextOffset = off\<rparr>, s2)))"
proof -
  let ?off = "of_nat (Suc (length rs)) :: u64"
  obtain e1 where e1: "engine_Reset (n_engine s) = Ret (None, e1)" "replica e1 []"
    using replica_Reset [OF serves_engine [OF assms(2)]] by blast
  let ?s1 = "s\<lparr>n_engine := e1\<rparr>"
  have del: "admin_DeleteNamespace srv order (ns_ID (registry_Spec (ad_Registry srv))) s =
      Ret (Inr (of_nat (length (Snapshot order (n_engine s)))), ?s1)"
    using assms(1) e1(1) by (simp add: admin_DeleteNamespace_def Let_def)
  have u: "unat ?off = Suc (length rs)" using assms(3) by (simp del: of_nat_Suc)
  then have nz: "?off \<noteq> 0" by (metis nat.distinct(1) unsigned_0)
  have fetch: "stream_Fetch str \<lparr>freq_NamespaceId = ns_ID (registry_Spec (sm_Registry str)), freq_FromOffset = ?off, freq_MaxRecords = maxr\<rparr> s2 =
      Ret (Inr \<lparr>fres_Records = [], fres_NextOffset = ?off\<rparr>, s2)" if "serves s2 new" and "length new \<le> length rs" for s2 :: "'r node_state" and new
  proof -
    have "log_of (elog (n_engine s2)) new" using that(1) by (auto simp: serves_def replica_def engine_inv_def intro: tracks_log_of)
    moreover have "length new < 2 ^ 63" "length new < unat ?off \<and> unat ?off \<le> 2 ^ 63"
      using that(2) assms(3) unfolding u by simp_all
    ultimately have "ReadRange ?off (fetch_limit maxr) (elog (n_engine s2)) = Ret (([], None), elog (n_engine s2))"
      by (blast intro: ReadRange_outside)
    with nz show ?thesis by (simp add: stream_Fetch_def checkNamespace_iff engine_Fetch_def del: of_nat_Suc)
  qed
  have committed: "stream_FetchOffset str \<lparr>ofreq_NamespaceId = ns_ID (registry_Spec (sm_Registry str)), ofreq_ConsumerGroup = g\<rparr> s2 =
      Ret (Inr \<lparr>ofres_Offset = ?off, ofres_Found = True\<rparr>, s2)" if "n_offsets s2 = n_offsets ?s1" for s2 :: "'r node_state"
    using that assms(4,6) by (simp add: stream_FetchOffset_def checkNamespace_iff)
  show ?thesis
  proof (rule exI [of _ "of_nat (length (Snapshot order (n_engine s)))"], rule exI [of _ ?s1], intro conjI allI impI)
    show "serves ?s1 []" using e1(2) by (simp add: serves_def)
    fix s2 :: "'r node_state" and new assume "serves s2 new \<and> n_offsets s2 = n_offsets ?s1 \<and> length new \<le> length rs"
    with fetch [of s2 new] committed [of s2] show "\<exists>off.
        stream_FetchOffset str \<lparr>ofreq_NamespaceId = ns_ID (registry_Spec (sm_Registry str)), ofreq_ConsumerGroup = g\<rparr> s2 =
          Ret (Inr \<lparr>ofres_Offset = off, ofres_Found = True\<rparr>, s2)
        \<and> stream_Fetch str \<lparr>freq_NamespaceId = ns_ID (registry_Spec (sm_Registry str)), freq_FromOffset = off, freq_MaxRecords = maxr\<rparr> s2 =
          Ret (Inr \<lparr>fres_Records = [], fres_NextOffset = off\<rparr>, s2)" by (intro exI [of _ ?off]) blast
  qed (rule del)
qed

theorem delete_namespace_skips_witness:
  fixes s :: "unit node_state"
  defines "r \<equiv> at_end (put_record [0x6b] [0x76] 0 []) []"
  defines "s \<equiv> \<lparr>metrics = [], n_raft = (), n_engine = engine_of [] [r],
    n_offsets = \<lparr>olog = opened [] [], offsets = [[0x67] \<mapsto> 2]\<rparr>, n_files = Map.empty\<rparr>"
  shows "\<exists>n s1. admin_DeleteNamespace sample_admin [] (lit ''ns'') s = Ret (Inr n, s1)
    \<and> (\<exists>off. stream_FetchOffset sample_stream \<lparr>ofreq_NamespaceId = lit ''ns'', ofreq_ConsumerGroup = [0x67]\<rparr> (s1\<lparr>n_engine := engine_of [] [r]\<rparr>) =
          Ret (Inr \<lparr>ofres_Offset = off, ofres_Found = True\<rparr>, s1\<lparr>n_engine := engine_of [] [r]\<rparr>)
        \<and> stream_Fetch sample_stream \<lparr>freq_NamespaceId = lit ''ns'', freq_FromOffset = off, freq_MaxRecords = 10\<rparr> (s1\<lparr>n_engine := engine_of [] [r]\<rparr>) =
          Ret (Inr \<lparr>fres_Records = [], fres_NextOffset = off\<rparr>, s1\<lparr>n_engine := engine_of [] [r]\<rparr>))"
proof -
  have "well_formed [r]" by (simp add: r_def well_formed_def numbered_def fits_def put_record_def)
  then have rep: "replica (engine_of [] [r]) [r]" using engine_inv_of [of "[r]" "[]"] by (simp add: replica_def)
  then have s: "serves s [r]" by (simp add: serves_def s_def)
  have off: "offsets_Fetch [0x67] (n_offsets s) = Some (of_nat (Suc (length [r])))" by (simp add: s_def offsets_Fetch_def)
  have ns: "ns_ID (registry_Spec (ad_Registry (sample_admin :: unit AdminServer))) = ns_ID (registry_Spec (sm_Registry sample_stream))"
    by (simp add: sample_stream_namespace)
  from delete_namespace_skips [OF sample_admin_simps(1) s _ off ns, of "[]" 10] obtain n s1 where
    s1: "admin_DeleteNamespace sample_admin [] (lit ''ns'') s = Ret (Inr n, s1)"
    and skip: "\<forall>s2 new. serves (s2 :: unit node_state) new \<and> n_offsets s2 = n_offsets s1 \<and> length new \<le> length [r] \<longrightarrow>
        (\<exists>off. stream_FetchOffset sample_stream \<lparr>ofreq_NamespaceId = lit ''ns'', ofreq_ConsumerGroup = [0x67]\<rparr> s2 =
             Ret (Inr \<lparr>ofres_Offset = off, ofres_Found = True\<rparr>, s2)
           \<and> stream_Fetch sample_stream \<lparr>freq_NamespaceId = lit ''ns'', freq_FromOffset = off, freq_MaxRecords = 10\<rparr> s2 =
             Ret (Inr \<lparr>fres_Records = [], fres_NextOffset = off\<rparr>, s2))"
    by (simp only: sample_stream_namespace sample_admin_simps NamespaceSpec.simps) (elim meta_impE, simp, simp, elim exE conjE, rule that)
  have "serves (s1\<lparr>n_engine := engine_of [] [r]\<rparr>) [r]" using rep by (simp add: serves_def)
  with skip [rule_format, of "s1\<lparr>n_engine := engine_of [] [r]\<rparr>" "[r]"] s1 show ?thesis by auto
qed

end
