(* ===== verification/GoFlag.thy ===== *)
theory GoFlag
  imports GoText
begin

text \<open>
  Command lines as \<^verbatim>\<open>flag.FlagSet.Parse\<close> reads them: flags with one or two minus signs, values after an equals
  sign or in the next argument, boolean flags without one, up to the first argument that is no flag.
\<close>

datatype flag_error =
    BadFlagSyntax bytes
  | FlagNotDefined bytes
  | ErrHelp
  | InvalidBoolean bytes
  | NeedsArgument bytes

definition ParseBool :: "bytes \<Rightarrow> bool option" where
  "ParseBool s =
     (if s \<in> set (map lit [''1'', ''t'', ''T'', ''TRUE'', ''true'', ''True'']) then Some True
      else if s \<in> set (map lit [''0'', ''f'', ''F'', ''FALSE'', ''false'', ''False'']) then Some False
      else None)"

text \<open>The flags of a program: their names, and whether they are boolean.  Later settings come first.\<close>

type_synonym flag_table = "(bytes \<times> bool) list"
type_synonym flag_values = "(bytes \<times> bytes) list"

definition bool_text :: "bool \<Rightarrow> bytes" where
  "bool_text b = (if b then lit ''true'' else lit ''false'')"

text \<open>The name of a flag and the value after an equals sign, which is not looked for in the first byte.\<close>

definition flag_name :: "bytes \<Rightarrow> bytes" where
  "flag_name s = take 1 s @ takeWhile (\<lambda>b. b \<noteq> 61) (drop 1 s)"

definition flag_given :: "bytes \<Rightarrow> bytes option" where
  "flag_given s = (if 61 \<in> set (drop 1 s) then Some (drop 1 (dropWhile (\<lambda>b. b \<noteq> 61) (drop 1 s))) else None)"

fun flag_Parse :: "flag_table \<Rightarrow> flag_values \<Rightarrow> bytes list \<Rightarrow> flag_error + flag_values \<times> bytes list" where
  "flag_Parse tbl vals [] = Inr (vals, [])"
| "flag_Parse tbl vals (s # args) =
     (if length s < 2 \<or> hd s \<noteq> 45 then Inr (vals, s # args)
      else if s = lit ''--'' then Inr (vals, args)
      else
        (let body = drop (if s ! 1 = 45 then 2 else 1) s; name = flag_name body in
         if hd body = 45 \<or> hd body = 61 then Inl (BadFlagSyntax s)
         else
           (case map_of tbl name of
              None \<Rightarrow> Inl (if name = lit ''help'' \<or> name = lit ''h'' then ErrHelp else FlagNotDefined name)
            | Some True \<Rightarrow>
                (case flag_given body of
                   None \<Rightarrow> flag_Parse tbl ((name, bool_text True) # vals) args
                 | Some v \<Rightarrow>
                     (case ParseBool v of
                        None \<Rightarrow> Inl (InvalidBoolean v)
                      | Some b \<Rightarrow> flag_Parse tbl ((name, bool_text b) # vals) args))
            | Some False \<Rightarrow>
                (case flag_given body of
                   Some v \<Rightarrow> flag_Parse tbl ((name, v) # vals) args
                 | None \<Rightarrow>
                     (case args of
                        [] \<Rightarrow> Inl (NeedsArgument name)
                      | v # args1 \<Rightarrow> flag_Parse tbl ((name, v) # vals) args1)))))"

declare flag_Parse.simps(2) [simp del]

definition flag_value :: "bytes \<Rightarrow> bytes \<Rightarrow> flag_values \<Rightarrow> bytes" where
  "flag_value name dflt vals = (case map_of vals name of None \<Rightarrow> dflt | Some v \<Rightarrow> v)"

section \<open>Flags come through\<close>

definition plain_name :: "bytes \<Rightarrow> bool" where
  "plain_name n \<longleftrightarrow> n \<noteq> [] \<and> hd n \<noteq> 45 \<and> 61 \<notin> set n"

definition flag_arg :: "bytes \<times> bytes \<Rightarrow> bytes" where
  "flag_arg = (\<lambda>(n, v). lit ''--'' @ n @ lit ''='' @ v)"

lemma flag_body:
  assumes "plain_name n"
  shows "flag_name (n @ 61 # v) = n" and "flag_given (n @ 61 # v) = Some v"
proof -
  obtain c cs where n: "n = c # cs" using assms by (cases n) (auto simp: plain_name_def)
  with assms have "61 \<notin> set cs" by (simp add: plain_name_def)
  then have "takeWhile (\<lambda>b. b \<noteq> 61) (cs @ 61 # v) = cs" "dropWhile (\<lambda>b. b \<noteq> 61) (cs @ 61 # v) = 61 # v"
    by (induction cs) auto
  then show "flag_name (n @ 61 # v) = n" "flag_given (n @ 61 # v) = Some v" by (simp_all add: n flag_name_def flag_given_def)
qed

lemma flag_Parse_arg:
  assumes "plain_name n" and "map_of tbl n = Some False"
  shows "flag_Parse tbl vals (flag_arg (n, v) # args) = flag_Parse tbl ((n, v) # vals) args"
proof -
  have arg: "flag_arg (n, v) = 45 # 45 # n @ 61 # v" by (simp add: flag_arg_def lit_def)
  have "hd (n @ 61 # v) \<noteq> 45" "hd (n @ 61 # v) \<noteq> 61" using assms(1) by (cases n; auto simp: plain_name_def)+
  with assms flag_body [OF assms(1), of v] show ?thesis
    unfolding arg by (subst flag_Parse.simps(2)) (simp add: lit_def)
qed

lemma flag_Parse_bool:
  assumes "plain_name n" and "map_of tbl n = Some True"
  shows "flag_Parse tbl vals ((lit ''--'' @ n) # args) = flag_Parse tbl ((n, bool_text True) # vals) args"
proof -
  obtain c cs where n: "n = c # cs" using assms by (cases n) (auto simp: plain_name_def)
  with assms have c: "c \<noteq> 45" "c \<noteq> 61" "61 \<notin> set cs" by (auto simp: plain_name_def)
  then have "takeWhile (\<lambda>b. b \<noteq> 61) cs = cs" by (auto simp: takeWhile_eq_all_conv)
  then have "flag_name n = n" "flag_given n = None" using c by (simp_all add: n flag_name_def flag_given_def)
  with assms(2) c show ?thesis by (subst flag_Parse.simps(2)) (simp add: n lit_def)
qed

lemma flag_Parse_args:
  "\<forall>(n, v) \<in> set kvs. plain_name n \<and> map_of tbl n = Some False \<Longrightarrow>
    flag_Parse tbl vals (map flag_arg kvs @ rest) = flag_Parse tbl (rev kvs @ vals) rest"
  by (induction kvs arbitrary: vals) (auto simp: flag_Parse_arg)

lemma flag_Parse_stop: "s = [] \<or> hd s \<noteq> 45 \<Longrightarrow> flag_Parse tbl vals (s # rest) = Inr (vals, s # rest)"
  by (subst flag_Parse.simps(2)) (auto simp: lit_def)

lemma flag_value_rev:
  assumes "distinct (map fst kvs)"
  shows "flag_value n d (rev kvs @ vals) = (case map_of kvs n of Some v \<Rightarrow> v | None \<Rightarrow> flag_value n d vals)"
proof -
  have "distinct (map fst (rev kvs))" using assms by (simp add: rev_map [symmetric])
  then have "map_of (rev kvs) = map_of kvs" using assms by (intro map_of_inject_set [THEN iffD2]) simp_all
  then show ?thesis by (simp add: flag_value_def map_add_def split: option.split)
qed

end
