(* ===== verification/NodeMain.thy ===== *)
theory NodeMain
  imports AdminServer GoFlag
begin

text \<open>
  The program \<^verbatim>\<open>cmd/uddp-node/main.go\<close>: its command line, how it puts the parts of a node together, and
  the node that serves requests afterwards.
\<close>

section \<open>Command line\<close>

definition orNone :: "bytes \<Rightarrow> bytes" where
  "orNone s = (if s = [] then lit ''none'' else s)"

fun parse_entries :: "bytes list \<Rightarrow> bytes + Peer list" where
  "parse_entries [] = Inr []"
| "parse_entries (entry # entries) =
     (case SplitN2 61 entry of
        [nid, addr] \<Rightarrow>
          if nid = [] \<or> addr = [] then Inl entry
          else map_sum id ((#) \<lparr>peer_ID = nid, peer_Addr = addr\<rparr>) (parse_entries entries)
      | _ \<Rightarrow> Inl entry)"

definition parsePeers :: "bytes \<Rightarrow> bytes + Peer list" where
  "parsePeers s = (if s = [] then Inr [] else parse_entries (Split 44 s))"

record nodeConfig =
  c_addr :: bytes
  httpAddr :: bytes
  dataDir :: bytes
  namespaceID :: bytes
  profile :: bytes
  tlsCert :: bytes
  tlsKey :: bytes
  authToken :: bytes
  raftID :: bytes
  raftAddr :: bytes
  raftPeers :: "Peer list"
  raftBootstrap :: bool
  raftTLSCert :: bytes
  raftTLSKey :: bytes
  raftTLSCA :: bytes
  redisAddr :: bytes

definition node_flags :: flag_table where
  "node_flags =
     map (\<lambda>n. (lit n, n = ''raft-bootstrap''))
       [''addr'', ''http-addr'', ''data-dir'', ''namespace'', ''profile'', ''tls-cert'', ''tls-key'', ''auth-token'',
        ''raft-id'', ''raft-addr'', ''raft-peers'', ''raft-bootstrap'', ''raft-tls-cert'', ''raft-tls-key'',
        ''raft-tls-ca'', ''redis-addr'']"

datatype main_error = ExitUsage flag_error | InvalidPeer bytes

text \<open>\<open>env_token\<close> is the environment variable \<^verbatim>\<open>UDDP_AUTH_TOKEN\<close>, empty if it is not set.\<close>

definition node_main :: "bytes \<Rightarrow> bytes list \<Rightarrow> main_error + nodeConfig" where
  "node_main env_token args =
     (case flag_Parse node_flags [] args of
        Inl err \<Rightarrow> Inl (ExitUsage err)
      | Inr (vals, _) \<Rightarrow>
          (let str = (\<lambda>n d. flag_value (lit n) (lit d) vals);
               token = str ''auth-token'' '''' in
           case parsePeers (str ''raft-peers'' '''') of
             Inl entry \<Rightarrow> Inl (InvalidPeer entry)
           | Inr peers \<Rightarrow>
               Inr \<lparr>c_addr = str ''addr'' ''127.0.0.1:7070'', httpAddr = str ''http-addr'' ''127.0.0.1:7071'',
                    dataDir = str ''data-dir'' ''./data'', namespaceID = str ''namespace'' ''default'',
                    profile = str ''profile'' ''cache'', tlsCert = str ''tls-cert'' '''', tlsKey = str ''tls-key'' '''',
                    authToken = (if token = [] then env_token else token),
                    raftID = str ''raft-id'' '''', raftAddr = str ''raft-addr'' '''', raftPeers = peers,
                    raftBootstrap = (str ''raft-bootstrap'' ''false'' = lit ''true''),
                    raftTLSCert = str ''raft-tls-cert'' '''', raftTLSKey = str ''raft-tls-key'' '''',
                    raftTLSCA = str ''raft-tls-ca'' '''', redisAddr = str ''redis-addr'' ''''\<rparr>))"

section \<open>Starting\<close>

datatype run_error =
    RaftFlagsRequired
  | NamespaceErr catalog_error
  | CreateDirFailed
  | EngineErr wal_error
  | OffsetsErr wal_error
  | RaftTLSTogether
  | StartReplication open_error
  | ListenFailed
  | TLSTogether
  | LoadTLSKeypair

text \<open>The machine a node starts on; \<open>mc_noRaft\<close> is the state of raft on a node without it.\<close>

record ('r, 'c, 'p) machine =
  mc_open :: "('r, 'c, 'p) open_env"
  mc_Listen :: "bytes \<Rightarrow> bool"
  mc_gob :: gob_registry
  mc_noRaft :: 'r

type_synonym files = "bytes \<rightharpoonup> osfile"

definition file_found :: "bytes \<Rightarrow> files \<Rightarrow> osfile" where
  "file_found pth files = (case files pth of None \<Rightarrow> fresh_file | Some f \<Rightarrow> f)"

definition start_replication :: "('r, 'c, 'p) machine \<Rightarrow> nodeConfig \<Rightarrow> run_error + 'r Node option \<times> 'r" where
  "start_replication mc cfg =
     (if raftPeers cfg = [] then Inr (None, mc_noRaft mc)
      else
        (let raftTLSFlagsSet = (raftTLSCert cfg \<noteq> [] \<or> raftTLSKey cfg \<noteq> [] \<or> raftTLSCA cfg \<noteq> []) in
         if raftTLSFlagsSet \<and> (raftTLSCert cfg = [] \<or> raftTLSKey cfg = [] \<or> raftTLSCA cfg = []) then Inl RaftTLSTogether
         else
           (let raftTLS = (if raftTLSFlagsSet
                  then Some \<lparr>CertFile = raftTLSCert cfg, KeyFile = raftTLSKey cfg, PeerCAFile = raftTLSCA cfg\<rparr> else None) in
            case node_Open (mc_open mc) (mc_gob mc)
                   \<lparr>cfg_ID = raftID cfg, BindAddr = raftAddr cfg, DataDir = path_Join [dataDir cfg, lit ''raft''],
                    Bootstrap = raftBootstrap cfg, Peers = raftPeers cfg, ApplyTimeout = 0, cfg_TLS = raftTLS\<rparr> of
              Inl err \<Rightarrow> Inl (StartReplication err)
            | Inr (n, r) \<Rightarrow> Inr (Some n, r))))"

definition server_creds :: "('r, 'c, 'p) machine \<Rightarrow> nodeConfig \<Rightarrow> run_error + 'c option" where
  "server_creds mc cfg =
     (if tlsCert cfg \<noteq> [] \<or> tlsKey cfg \<noteq> [] then
        if tlsCert cfg = [] \<or> tlsKey cfg = [] then Inl TLSTogether
        else (case LoadX509KeyPair (tls (mc_open mc)) (tlsCert cfg) (tlsKey cfg) of
                None \<Rightarrow> Inl LoadTLSKeypair
              | Some cert \<Rightarrow> Inr (Some cert))
      else Inr None)"

text \<open>A node that serves: its three services, the token it asks for and the certificate it shows.\<close>

record ('r, 'c) serving =
  sv_State :: "'r StateServer"
  sv_Stream :: StreamServer
  sv_Admin :: "'r AdminServer"
  sv_token :: bytes
  sv_creds :: "'c option"
  sv_redis :: bytes
  sv_walPath :: bytes
  sv_offsetsPath :: bytes

text \<open>The deferred calls close the logs when \<^verbatim>\<open>run\<close> returns, the last one opened first.\<close>

definition close_engine :: "bytes \<Rightarrow> engine \<Rightarrow> files \<Rightarrow> files" where
  "close_engine pth e files = files(pth \<mapsto> fd (elog (snd (engine_Close e))))"

definition close_offsets :: "bytes \<Rightarrow> OffsetStore \<Rightarrow> files \<Rightarrow> files" where
  "close_offsets pth s files = files(pth \<mapsto> fd (olog (snd (offsets_Close s))))"

text \<open>The rest of \<^verbatim>\<open>run\<close> once both logs are open.\<close>

definition node_listen :: "('r, 'c, 'p) machine \<Rightarrow> nodeConfig \<Rightarrow> Registry \<Rightarrow> bytes \<Rightarrow> bytes \<Rightarrow> engine \<Rightarrow> OffsetStore \<Rightarrow> files
    \<Rightarrow> run_error \<times> files + ('r, 'c) serving \<times> 'r node_state" where
  "node_listen mc cfg registry walPath offsetsPath eng offs files =
     (let closed_files = close_engine walPath eng (close_offsets offsetsPath offs files) in
      case start_replication mc cfg of
        Inl err \<Rightarrow> Inl (err, closed_files)
      | Inr (replNode, r) \<Rightarrow>
          if \<not> mc_Listen mc (c_addr cfg) then Inl (ListenFailed, closed_files)
          else (case server_creds mc cfg of
             Inl err \<Rightarrow> Inl (err, closed_files)
           | Inr creds \<Rightarrow>
               Inr (\<lparr>sv_State = \<lparr>st_Registry = registry, st_Metrics = True, st_Replication = replNode\<rparr>,
                     sv_Stream = \<lparr>sm_Registry = registry\<rparr>,
                     sv_Admin = \<lparr>ad_Registry = registry, ad_Node = replNode, ad_gob = mc_gob mc\<rparr>,
                     sv_token = authToken cfg, sv_creds = creds, sv_redis = redisAddr cfg,
                     sv_walPath = walPath, sv_offsetsPath = offsetsPath\<rparr>,
                    \<lparr>metrics = [], n_raft = r, n_engine = eng, n_offsets = offs, n_files = files\<rparr>)))"

definition node_run :: "('r, 'c, 'p) machine \<Rightarrow> nodeConfig \<Rightarrow> files
    \<Rightarrow> (run_error \<times> files + ('r, 'c) serving \<times> 'r node_state) go" where
  "node_run mc cfg files =
     (let replicationEnabled = (raftPeers cfg \<noteq> []) in
      if replicationEnabled \<and> (raftID cfg = [] \<or> raftAddr cfg = []) then Ret (Inl (RaftFlagsRequired, files))
      else (case NewNamespaceSpec (namespaceID cfg) (profile cfg) replicationEnabled of
         Inl err \<Rightarrow> Ret (Inl (NamespaceErr err, files))
       | Inr spec \<Rightarrow>
           if \<not> MkdirAll (mc_open mc) (dataDir cfg) then Ret (Inl (CreateDirFailed, files))
           else
             (let walPath = path_Join [dataDir cfg, lit ''partition-0.wal''];
                  offsetsPath = path_Join [dataDir cfg, lit ''consumer-offsets.wal''] in
              go_bind (engine_Open walPath (file_found walPath files)) (\<lambda>opened_eng.
                case opened_eng of
                  Inl (err, f) \<Rightarrow> Ret (Inl (EngineErr err, files(walPath \<mapsto> f)))
                | Inr eng \<Rightarrow>
                    go_bind (offsets_Open offsetsPath (file_found offsetsPath files)) (\<lambda>opened_offs.
                      case opened_offs of
                        Inl (err, f) \<Rightarrow> Ret (Inl (OffsetsErr err, close_engine walPath eng (files(offsetsPath \<mapsto> f))))
                      | Inr offs \<Rightarrow> Ret (node_listen mc cfg (NewRegistry spec) walPath offsetsPath eng offs files))))))"

text \<open>A signal stops the servers; then raft, the offsets and the engine are shut down.\<close>

definition node_stop :: "('r, 'c) serving \<Rightarrow> 'r node_state \<Rightarrow> files \<times> 'r" where
  "node_stop sv s =
     (close_engine (sv_walPath sv) (n_engine s) (close_offsets (sv_offsetsPath sv) (n_offsets s) (n_files s)),
      case st_Replication (sv_State sv) of None \<Rightarrow> n_raft s | Some n \<Rightarrow> snd (node_Shutdown n (n_raft s)))"

section \<open>Serving\<close>

text \<open>The requests of the three services; they carry the clock readings and the other choices of the run time.\<close>

datatype rpc_request =
    RpcState state_request
  | RpcFetch FetchRequest
  | RpcCommitOffset CommitOffsetRequest
  | RpcFetchOffset FetchOffsetRequest
  | RpcAddNode bytes bytes
  | RpcRemoveNode bytes
  | RpcListNodes
  | RpcCreateBackup "(bytes \<times> int) list" int "osfile option" bytes
  | RpcRestoreBackup bytes
  | RpcExportNamespace "(bytes \<times> int) list"
  | RpcDeleteNamespace "(bytes \<times> int) list" bytes
  | RpcGetUsage "(bytes \<times> int) list"

datatype rpc_response =
    AnsState state_response
  | AnsFetch FetchResponse
  | AnsCommitOffset u64
  | AnsFetchOffset FetchOffsetResponse
  | AnsCluster Cluster
  | AnsBackup BackupInfo
  | AnsExport "ExportedEntry list"
  | AnsDeleted "32 word"
  | AnsUsage GetUsageResponse

fun full_method :: "rpc_request \<Rightarrow> bytes" where
  "full_method (RpcState (ReqGet _ _)) = lit ''/uddp.native.v1.StateService/Get''"
| "full_method (RpcState (ReqPut _ _)) = lit ''/uddp.native.v1.StateService/Put''"
| "full_method (RpcState (ReqDelete _)) = lit ''/uddp.native.v1.StateService/Delete''"
| "full_method (RpcState (ReqCompareAndSet _ _ _)) = lit ''/uddp.native.v1.StateService/CompareAndSet''"
| "full_method (RpcFetch _) = lit ''/uddp.native.v1.StreamService/Fetch''"
| "full_method (RpcCommitOffset _) = lit ''/uddp.native.v1.StreamService/CommitOffset''"
| "full_method (RpcFetchOffset _) = lit ''/uddp.native.v1.StreamService/FetchOffset''"
| "full_method (RpcAddNode _ _) = lit ''/uddp.admin.v1.AdminService/AddNode''"
| "full_method (RpcRemoveNode _) = lit ''/uddp.admin.v1.AdminService/RemoveNode''"
| "full_method RpcListNodes = lit ''/uddp.admin.v1.AdminService/ListNodes''"
| "full_method (RpcCreateBackup _ _ _ _) = lit ''/uddp.admin.v1.AdminService/CreateBackup''"
| "full_method (RpcRestoreBackup _) = lit ''/uddp.admin.v1.AdminService/RestoreBackup''"
| "full_method (RpcExportNamespace _) = lit ''/uddp.admin.v1.AdminService/ExportNamespace''"
| "full_method (RpcDeleteNamespace _ _) = lit ''/uddp.admin.v1.AdminService/DeleteNamespace''"
| "full_method (RpcGetUsage _) = lit ''/uddp.admin.v1.AdminService/GetUsage''"

fun node_handle :: "('r, 'c) serving \<Rightarrow> rpc_request \<Rightarrow> ('r node_state, rpc_response) handler" where
  "node_handle sv (RpcState req) s = wrap AnsState (state_handle (sv_State sv) req s)"
| "node_handle sv (RpcFetch req) s = wrap AnsFetch (stream_Fetch (sv_Stream sv) req s)"
| "node_handle sv (RpcCommitOffset req) s = wrap AnsCommitOffset (stream_CommitOffset (sv_Stream sv) req s)"
| "node_handle sv (RpcFetchOffset req) s = wrap AnsFetchOffset (stream_FetchOffset (sv_Stream sv) req s)"
| "node_handle sv (RpcAddNode nid addr) s = wrap AnsCluster (admin_AddNode (sv_Admin sv) nid addr s)"
| "node_handle sv (RpcRemoveNode nid) s = wrap AnsCluster (admin_RemoveNode (sv_Admin sv) nid s)"
| "node_handle sv RpcListNodes s = wrap AnsCluster (admin_ListNodes (sv_Admin sv) s)"
| "node_handle sv (RpcCreateBackup order now created pth) s = wrap AnsBackup (admin_CreateBackup (sv_Admin sv) order now created pth s)"
| "node_handle sv (RpcRestoreBackup pth) s = wrap AnsBackup (admin_RestoreBackup (sv_Admin sv) pth s)"
| "node_handle sv (RpcExportNamespace order) s = wrap AnsExport (admin_ExportNamespace (sv_Admin sv) order s)"
| "node_handle sv (RpcDeleteNamespace order confirm) s = wrap AnsDeleted (admin_DeleteNamespace (sv_Admin sv) order confirm s)"
| "node_handle sv (RpcGetUsage order) s = wrap AnsUsage (admin_GetUsage (sv_Admin sv) order s)"

text \<open>A call: the metadata the client sent, the time the handler took, and the request.\<close>

type_synonym rpc_call = "(bytes \<Rightarrow> bytes list) option \<times> int \<times> rpc_request"

definition node_serve :: "('r, 'c) serving \<Rightarrow> rpc_call \<Rightarrow> ('r node_state, rpc_response) handler" where
  "node_serve sv = (\<lambda>(md, elapsed, req) s. intercepted (sv_token sv) (full_method req) md elapsed (node_handle sv req) s)"

end
