(* ===== verification/NodeSpec.thy ===== *)
theory NodeSpec
  imports NodeMain
begin

text \<open>
  What the node as a whole promises: the command line gives the peers it spells out, the start refuses what
  it cannot honour, and a node that is started, crashes and is started again any number of times
  answers like one that never stopped.
\<close>

section \<open>Peers\<close>

definition peer_entry :: "Peer \<Rightarrow> bytes" where
  "peer_entry p = peer_ID p @ lit ''='' @ peer_Addr p"

definition peer_ok :: "Peer \<Rightarrow> bool" where
  "peer_ok p \<longleftrightarrow> peer_ID p \<noteq> [] \<and> peer_Addr p \<noteq> [] \<and> 44 \<notin> set (peer_ID p) \<and> 61 \<notin> set (peer_ID p) \<and> 44 \<notin> set (peer_Addr p)"

lemma parse_entries_peers: "\<forall>p \<in> set ps. peer_ok p \<Longrightarrow> parse_entries (map peer_entry ps) = Inr ps"
proof (induction ps)
  case (Cons p ps)
  have "SplitN2 61 (peer_entry p) = [peer_ID p, peer_Addr p]"
    using Cons.prems SplitN2_pair [of 61 "peer_ID p" "peer_Addr p"] by (simp add: peer_entry_def peer_ok_def lit_def)
  with Cons show ?case by (simp add: peer_ok_def)
qed simp

lemma parsePeers_peers:
  assumes "\<forall>p \<in> set ps. peer_ok p"
  shows "parsePeers (Join_with 44 (map peer_entry ps)) = Inr ps"
proof (cases ps)
  case (Cons p qs)
  have "peer_entry p \<noteq> []" by (simp add: peer_entry_def lit_def)
  then have "Join_with 44 (map peer_entry ps) \<noteq> []" by (cases qs) (simp_all add: Cons)
  moreover have "Split 44 (Join_with 44 (map peer_entry ps)) = map peer_entry ps"
    using assms by (intro Split_Join) (auto simp: Cons peer_entry_def peer_ok_def lit_def)
  ultimately show ?thesis using parse_entries_peers [OF assms] by (simp add: parsePeers_def)
qed (simp add: parsePeers_def)

section \<open>The files of the logs\<close>

lemma Split_snoc: "sep \<notin> set n \<Longrightarrow> Split sep (s @ sep # n) = Split sep s @ [n]"
proof (induction s)
  case Nil
  then show ?case by (simp add: Split_plain)
next
  case (Cons b bs)
  obtain p ps where "Split sep bs = p # ps" using Split_nonempty [of sep bs] by (cases "Split sep bs") auto
  with Cons show ?case by simp
qed

lemma Join_with_snoc: "Join_with sep (ps @ [n]) = (if ps = [] then n else Join_with sep ps @ sep # n)"
proof (induction ps)
  case (Cons p ps)
  then show ?case by (cases ps) simp_all
qed simp

lemma path_Clean_ends:
  assumes "47 \<notin> set n" and "n \<notin> {[], lit ''.'', lit ''..''}"
  shows "\<exists>p. path_Clean (d @ 47 # n) = p @ n" and "path_Clean n = n"
proof -
  let ?out = "\<lambda>rooted. fold (clean_element rooted) (Split 47 d) []"
  have "clean_element rooted n out = out @ [n]" for rooted out using assms(2) by (auto simp: clean_element_def)
  then have "path_Clean (d @ 47 # n) = (let rooted = hd (d @ [47]) = 47 in (if rooted then [47] else []) @ Join_with 47 (?out rooted @ [n]))"
    using assms by (auto simp: path_Clean_def Split_snoc [OF assms(1)] Join_with_snoc Let_def hd_append)
  then show "\<exists>p. path_Clean (d @ 47 # n) = p @ n"
    by (auto simp: Let_def Join_with_snoc intro: exI [of _ "_ # _ @ [47]"] exI [of _ "_ @ [47]"])
  from assms show "path_Clean n = n" by (cases n) (auto simp: path_Clean_def Split_plain clean_element_def)
qed

lemma path_Join_ends:
  assumes "47 \<notin> set n" and "n \<notin> {[], lit ''.'', lit ''..''}"
  shows "\<exists>p. path_Join [d, n] = p @ n"
  using path_Clean_ends [OF assms] assms(2) by (cases "d = []") (auto simp: path_Join.simps)

definition walPath_of :: "nodeConfig \<Rightarrow> bytes" where
  "walPath_of cfg = path_Join [dataDir cfg, lit ''partition-0.wal'']"

definition offsetsPath_of :: "nodeConfig \<Rightarrow> bytes" where
  "offsetsPath_of cfg = path_Join [dataDir cfg, lit ''consumer-offsets.wal'']"

lemma log_paths_differ: "walPath_of cfg \<noteq> offsetsPath_of cfg"
proof
  assume eq: "walPath_of cfg = offsetsPath_of cfg"
  from path_Join_ends [of "lit ''partition-0.wal''" "dataDir cfg"] obtain p where
    p: "walPath_of cfg = p @ lit ''partition-0.wal''" by (auto simp: walPath_of_def lit_def)
  from path_Join_ends [of "lit ''consumer-offsets.wal''" "dataDir cfg"] obtain q where
    q: "offsetsPath_of cfg = q @ lit ''consumer-offsets.wal''" by (auto simp: offsetsPath_of_def lit_def)
  from eq p q have "rev (p @ lit ''partition-0.wal'') = rev (q @ lit ''consumer-offsets.wal'')" by simp
  then show False by (simp add: lit_def)
qed

text \<open>What the disk holds when a node starts: nothing yet, or what a crash of an earlier one left.\<close>

definition engine_disk :: "osfile option \<Rightarrow> Record list \<Rightarrow> bool" where
  "engine_disk f rs \<longleftrightarrow> f = None \<and> rs = []
     \<or> (\<exists>e j. replica e rs \<and> f = Some (crash (durable (fd (elog e)) + j) (fd (elog e))))"

definition offsets_disk :: "osfile option \<Rightarrow> (bytes \<rightharpoonup> u64) \<Rightarrow> bool" where
  "offsets_disk f os \<longleftrightarrow> f = None \<and> os = Map.empty
     \<or> (\<exists>s j. keeps s os \<and> f = Some (crash (durable (fd (olog s)) + j) (fd (olog s))))"

lemma engine_disk_opens:
  assumes "engine_disk (files pth) rs"
  shows "\<exists>e. engine_Open pth (file_found pth files) = Ret (Inr e) \<and> replica e rs"
  using assms unfolding engine_disk_def
proof (elim disjE exE conjE)
  assume "files pth = None" and "rs = []"
  moreover have "engine_Open pth fresh_file = Ret (Inr (engine_of pth []))"
    by (simp add: engine_Open_def wal_Open_empty fresh_file_def engine_of_def)
  ultimately show ?thesis using replica_new by (simp add: file_found_def)
next
  fix e j
  assume "replica e rs" and "files pth = Some (crash (durable (fd (elog e)) + j) (fd (elog e)))"
  with replica_opened [of e rs "durable (fd (elog e)) + j" pth] show ?thesis by (simp add: file_found_def)
qed

lemma offsets_disk_opens:
  assumes "offsets_disk (files pth) os"
  shows "\<exists>s. offsets_Open pth (file_found pth files) = Ret (Inr s) \<and> keeps s os"
proof -
  have new: "keeps \<lparr>olog = opened pth rs, offsets = fold offset_apply rs Map.empty\<rparr> (fold offset_apply rs Map.empty)"
    if "well_formed rs" "\<forall>r \<in> set rs. offset_valid r" for rs
    using offsets_log.tracks_opened [OF that(1), of pth] that log_of_opened [OF that(1), of pth] by (auto simp: keeps_def offsets_inv_def)
  from assms show ?thesis unfolding offsets_disk_def
  proof (elim disjE exE conjE)
    assume "files pth = None" and "os = Map.empty"
    moreover have "offsets_Open pth fresh_file = Ret (Inr \<lparr>olog = opened pth [], offsets = Map.empty\<rparr>)"
      by (simp add: offsets_Open_def wal_Open_empty fresh_file_def)
    ultimately show ?thesis using new [of "[]"] by (simp add: file_found_def)
  next
    fix s j
    assume s: "keeps s os" and f: "files pth = Some (crash (durable (fd (olog s)) + j) (fd (olog s)))"
    then obtain rs where tr: "tracks offset_apply offset_valid Map.empty (olog s) (offsets s) rs" by (auto simp: keeps_def offsets_inv_def)
    from offsets_log.reopen [OF tr, of "durable (fd (olog s)) + j" pth] f
    have "offsets_Open pth (file_found pth files) = Ret (Inr \<lparr>olog = opened pth rs, offsets = offsets s\<rparr>)"
      by (simp add: offsets_Open_def file_found_def)
    moreover have "well_formed rs" "\<forall>r \<in> set rs. offset_valid r" "offsets s = fold offset_apply rs Map.empty" "offsets s = os"
      using tr s by (simp_all add: tracks_def log_of_def keeps_def)
    ultimately show ?thesis using new [of rs] by simp
  qed
qed

section \<open>Starting\<close>

text \<open>A node without replication, with a profile it may declare, on a machine where it can start.\<close>

definition node_ok :: "('r, 'c, 'p) machine \<Rightarrow> nodeConfig \<Rightarrow> bool" where
  "node_ok mc cfg \<longleftrightarrow> raftPeers cfg = [] \<and> namespaceID cfg \<noteq> [] \<and> profile cfg = lit ''cache''
     \<and> MkdirAll (mc_open mc) (dataDir cfg) \<and> mc_Listen mc (c_addr cfg) \<and> (\<exists>creds. server_creds mc cfg = Inr creds)"

definition spec_of :: "nodeConfig \<Rightarrow> NamespaceSpec" where
  "spec_of cfg = \<lparr>ns_ID = namespaceID cfg, ns_Profile = profile cfg\<rparr>"

text \<open>
  What the services answer from: the records that the engine has committed, and the offsets of the consumer
  groups.  A node that is up has them, and a disk from which it can start has them.
\<close>

type_synonym data = "Record list \<times> (bytes \<rightharpoonup> u64)"

definition up :: "'r node_state \<Rightarrow> data \<Rightarrow> bool" where
  "up s = (\<lambda>(rs, os). serves s rs \<and> keeps (n_offsets s) os)"

definition disk_ok :: "nodeConfig \<Rightarrow> files \<Rightarrow> data \<Rightarrow> bool" where
  "disk_ok cfg files = (\<lambda>(rs, os). engine_disk (files (walPath_of cfg)) rs \<and> offsets_disk (files (offsetsPath_of cfg)) os)"

definition runs :: "nodeConfig \<Rightarrow> ('r, 'c) serving \<Rightarrow> bool" where
  "runs cfg sv \<longleftrightarrow> sv_token sv = authToken cfg \<and> registry_Spec (st_Registry (sv_State sv)) = spec_of cfg
     \<and> registry_Spec (sm_Registry (sv_Stream sv)) = spec_of cfg
     \<and> st_Replication (sv_State sv) = None \<and> sv_walPath sv = walPath_of cfg \<and> sv_offsetsPath sv = offsetsPath_of cfg"

lemma node_run_starts:
  assumes "node_ok mc cfg" and "disk_ok cfg files d"
  shows "\<exists>sv s. node_run mc cfg files = Ret (Inr (sv, s)) \<and> runs cfg sv \<and> up s d"
proof -
  obtain rs os where d: "d = (rs, os)" by (cases d)
  from engine_disk_opens [of files "walPath_of cfg" rs] assms(2) obtain e where
    e: "engine_Open (walPath_of cfg) (file_found (walPath_of cfg) files) = Ret (Inr e)" "replica e rs" by (auto simp: d disk_ok_def)
  from offsets_disk_opens [of files "offsetsPath_of cfg" os] assms(2) obtain ost where
    ost: "offsets_Open (offsetsPath_of cfg) (file_found (offsetsPath_of cfg) files) = Ret (Inr ost)" "keeps ost os"
    by (auto simp: d disk_ok_def)
  from assms(1) obtain creds where creds: "server_creds mc cfg = Inr creds" by (auto simp: node_ok_def)
  have spec: "NewNamespaceSpec (namespaceID cfg) (profile cfg) False = Inr (spec_of cfg)"
    using assms(1) NewNamespaceSpec_cache [of "namespaceID cfg" False] by (simp add: node_ok_def spec_of_def)
  show ?thesis
    using assms(1) e ost creds spec
    by (simp add: node_run_def node_listen_def node_ok_def start_replication_def walPath_of_def [symmetric] offsetsPath_of_def [symmetric]
        runs_def up_def d serves_def NewRegistry_def registry_Spec_def Let_def)
qed

lemma node_run_serving:
  assumes "node_run mc cfg files = Ret (Inr (sv, s))"
  obtains spec eng offs where "NewNamespaceSpec (namespaceID cfg) (profile cfg) (raftPeers cfg \<noteq> []) = Inr spec"
    and "node_listen mc cfg (NewRegistry spec) (walPath_of cfg) (offsetsPath_of cfg) eng offs files = Inr (sv, s)"
  using assms
  by (auto simp: node_run_def walPath_of_def offsetsPath_of_def Let_def elim!: go_bind_RetE split: if_split_asm sum.split_asm prod.split_asm)

section \<open>Serving\<close>

text \<open>The requests of the key-value and the streaming service.\<close>

datatype data_request =
    DataState state_request
  | DataFetch FetchRequest
  | DataCommitOffset CommitOffsetRequest
  | DataFetchOffset FetchOffsetRequest

fun data_rpc :: "data_request \<Rightarrow> rpc_request" where
  "data_rpc (DataState req) = RpcState req"
| "data_rpc (DataFetch req) = RpcFetch req"
| "data_rpc (DataCommitOffset req) = RpcCommitOffset req"
| "data_rpc (DataFetchOffset req) = RpcFetchOffset req"

text \<open>
  The specification of both: a fetch reads a segment of the committed records, and the offset of a group is
  the last one committed for it and never regresses.
\<close>

definition in_namespace :: "NamespaceSpec \<Rightarrow> bytes \<Rightarrow> bool \<Rightarrow> data \<Rightarrow> rpc_response rpc \<times> data \<Rightarrow> rpc_response rpc \<times> data" where
  "in_namespace spec ns valid d res =
     (if ns \<noteq> ns_ID spec then (Inl NotFound, d) else if \<not> valid then (Inl InvalidArgument, d) else res)"

fun spec_data :: "NamespaceSpec \<Rightarrow> data_request \<Rightarrow> data \<Rightarrow> rpc_response rpc \<times> data" where
  "spec_data spec (DataState req) (rs, os) =
     (map_sum id AnsState (fst (spec_request spec req rs)), snd (spec_request spec req rs), os)"
| "spec_data spec (DataFetch req) (rs, os) =
     in_namespace spec (freq_NamespaceId req) (freq_FromOffset req \<noteq> 0) (rs, os)
       (Inr (AnsFetch \<lparr>fres_Records = map wire_record (fetched req rs),
                       fres_NextOffset = freq_FromOffset req + of_nat (length (fetched req rs))\<rparr>), rs, os)"
| "spec_data spec (DataCommitOffset req) (rs, os) =
     in_namespace spec (oreq_NamespaceId req) (oreq_ConsumerGroup req \<noteq> []) (rs, os)
       (if regresses os (oreq_ConsumerGroup req) (oreq_Offset req) then (Inl FailedPrecondition, rs, os)
        else (Inr (AnsCommitOffset (oreq_Offset req)), rs, os(oreq_ConsumerGroup req \<mapsto> oreq_Offset req)))"
| "spec_data spec (DataFetchOffset req) (rs, os) =
     in_namespace spec (ofreq_NamespaceId req) (ofreq_ConsumerGroup req \<noteq> []) (rs, os)
       (Inr (AnsFetchOffset (case os (ofreq_ConsumerGroup req) of
          None \<Rightarrow> \<lparr>ofres_Offset = 0, ofres_Found = False\<rparr>
        | Some off \<Rightarrow> \<lparr>ofres_Offset = off, ofres_Found = True\<rparr>)), rs, os)"

text \<open>A call as a client may send it, with or without the token.\<close>

type_synonym data_call = "(bytes \<Rightarrow> bytes list) option \<times> int \<times> data_request"

definition call_of :: "data_call \<Rightarrow> rpc_call" where
  "call_of = (\<lambda>(md, elapsed, req). (md, elapsed, data_rpc req))"

definition spec_call :: "bytes \<Rightarrow> NamespaceSpec \<Rightarrow> data_call \<Rightarrow> data \<Rightarrow> rpc_response rpc \<times> data" where
  "spec_call token spec = (\<lambda>(md, elapsed, req) d.
     if token \<noteq> [] \<and> \<not> presents token md then (Inl Unauthenticated, d) else spec_data spec req d)"

text \<open>What has to fit: records a frame of the log, and the position of a fetch a signed number.\<close>

fun data_fits :: "data_request \<Rightarrow> bool" where
  "data_fits (DataState req) = request_fits req"
| "data_fits (DataFetch req) = (unat (freq_FromOffset req) \<le> 2 ^ 63)"
| "data_fits (DataCommitOffset req) = fits (offset_record (oreq_ConsumerGroup req) (oreq_Offset req))"
| "data_fits (DataFetchOffset req) = True"

definition call_fits :: "data_call \<Rightarrow> bool" where
  "call_fits = (\<lambda>(md, elapsed, req). data_fits req)"

lemma intercepted_runs:
  assumes "h s = Ret (res, s1)" and "token = [] \<or> presents token md"
  shows "\<exists>ms. intercepted token m md elapsed h s = Ret (res, s1\<lparr>metrics := ms\<rparr>)"
proof (cases "token = []")
  case True
  with assms(1) show ?thesis by (auto simp: intercepted_def metrics_interceptor_def Let_def)
next
  case False
  with assms authenticated_runs [of token md h s res s1 m elapsed] show ?thesis by blast
qed

lemma intercepted_refuses:
  assumes "token \<noteq> []" and "\<not> presents token md" and "\<not> health_method m"
  shows "\<exists>ms. intercepted token m md elapsed h s = Ret (Inl Unauthenticated, s\<lparr>metrics := ms\<rparr>)"
  using assms by (auto simp: intercepted_def metrics_interceptor_def auth_interceptor_presents)

lemma full_method_guarded: "\<not> health_method (full_method req)"
proof (cases req)
  case (RpcState r)
  then show ?thesis by (cases r) (simp_all add: health_method_def lit_def)
qed (simp_all add: health_method_def lit_def)

lemma state_handle_offsets:
  assumes "state_handle srv req s = Ret (res, s1)" and "st_Replication srv = None"
  shows "n_offsets s1 = n_offsets s"
proof -
  have resp: "n_offsets s3 = n_offsets s2" if "response srv out ep s2 = (m, s3)" for out ep s2 m s3
    using response_answer [OF that] by simp
  show ?thesis
    using assms resp
    by (cases req)
      (fastforce simp: wrap_def go_bind_eq_Ret state_Get_def state_Put_def state_Delete_def state_CompareAndSet_def
        split: option.splits if_splits prod.splits sum.splits)+
qed

lemma data_handle_spec:
  assumes "up s d" and "runs cfg sv" and "data_fits req"
  shows "\<exists>s1. node_handle sv (data_rpc req) s = Ret (fst (spec_data (spec_of cfg) req d), s1) \<and> up s1 (snd (spec_data (spec_of cfg) req d))"
proof -
  obtain rs os where d: "d = (rs, os)" by (cases d)
  from assms(1) have s: "serves s rs" "keeps (n_offsets s) os" by (simp_all add: d up_def)
  note sv = assms(2) [unfolded runs_def]
  show ?thesis
  proof (cases req)
    case (DataState r)
    from state_handle_spec [OF s(1) _ , of "sv_State sv" r] assms(3) sv obtain s1 where
      h: "state_handle (sv_State sv) r s = Ret (fst (spec_request (spec_of cfg) r rs), s1)"
      and s1: "serves s1 (snd (spec_request (spec_of cfg) r rs))" by (auto simp: DataState)
    from state_handle_offsets [OF h] sv have "n_offsets s1 = n_offsets s" by simp
    with h s1 s(2) show ?thesis by (simp add: d DataState up_def)
  next
    case (DataFetch r)
    with s assms(3) sv stream_Fetch_from [OF s(1), of r "sv_Stream sv"] show ?thesis
      by (auto simp: d up_def in_namespace_def stream_Fetch_def checkNamespace_iff)
  next
    case (DataCommitOffset r)
    with assms(3) offsets_Commit_keeps [OF s(2), of "oreq_ConsumerGroup r" "oreq_Offset r"] s sv show ?thesis
      by (cases "regresses os (oreq_ConsumerGroup r) (oreq_Offset r)")
        (auto simp: d up_def serves_def in_namespace_def stream_CommitOffset_def checkNamespace_iff)
  next
    case (DataFetchOffset r)
    with s sv show ?thesis
      by (auto simp: d up_def in_namespace_def stream_FetchOffset_def checkNamespace_iff offsets_Fetch_def keeps_def split: option.split)
  qed
qed

lemma node_serve_spec:
  assumes "up s d" and "runs cfg sv" and "call_fits c"
  shows "\<exists>s1. node_serve sv (call_of c) s = Ret (fst (spec_call (authToken cfg) (spec_of cfg) c d), s1)
    \<and> up s1 (snd (spec_call (authToken cfg) (spec_of cfg) c d))"
proof -
  obtain md elapsed req where c: "c = (md, elapsed, req)" by (cases c)
  have token: "sv_token sv = authToken cfg" using assms(2) by (simp add: runs_def)
  have metrics: "up (s1\<lparr>metrics := ms\<rparr>) d1 = up s1 d1" for s1 :: "'a node_state" and ms d1 by (simp add: up_def serves_def split: prod.split)
  show ?thesis
  proof (cases "authToken cfg \<noteq> [] \<and> \<not> presents (authToken cfg) md")
    case True
    with intercepted_refuses [OF _ _ full_method_guarded, of "authToken cfg" md "data_rpc req" elapsed "node_handle sv (data_rpc req)" s]
    obtain ms where "node_serve sv (call_of c) s = Ret (Inl Unauthenticated, s\<lparr>metrics := ms\<rparr>)"
      by (auto simp: c node_serve_def call_of_def token)
    with True assms(1) show ?thesis by (simp add: c spec_call_def metrics)
  next
    case False
    from data_handle_spec [OF assms(1,2), of req] assms(3) obtain s1 where
      h: "node_handle sv (data_rpc req) s = Ret (fst (spec_data (spec_of cfg) req d), s1)" "up s1 (snd (spec_data (spec_of cfg) req d))"
      by (auto simp: c call_fits_def)
    from intercepted_runs [of "node_handle sv (data_rpc req)", OF h(1), of "authToken cfg" md "full_method (data_rpc req)" elapsed] False
    obtain ms where "node_serve sv (call_of c) s = Ret (fst (spec_data (spec_of cfg) req d), s1\<lparr>metrics := ms\<rparr>)"
      by (auto simp: c node_serve_def call_of_def token)
    with False h(2) show ?thesis by (auto simp: c spec_call_def metrics)
  qed
qed

interpretation session: refinement "\<lambda>c. node_serve sv (call_of c)" "spec_call (authToken cfg) (spec_of cfg)" up
    "\<lambda>c. call_fits c \<and> runs cfg sv"
  by unfold_locales (auto intro: node_serve_spec)

section \<open>Lifetimes\<close>

text \<open>One lifetime: the node starts, serves some calls, and crashes; so much of each log as was durable survives, or more.\<close>

type_synonym life = "data_call list \<times> nat \<times> nat"

definition lifetime :: "('r, 'c, 'p) machine \<Rightarrow> nodeConfig \<Rightarrow> life \<Rightarrow> files
    \<Rightarrow> ((run_error + rpc_response rpc list) \<times> files) go" where
  "lifetime mc cfg = (\<lambda>(calls, j1, j2) files.
     go_bind (node_run mc cfg files) (\<lambda>started.
       case started of
         Inl (err, files1) \<Rightarrow> Ret (Inl err, files1)
       | Inr (sv, s) \<Rightarrow>
           go_bind (run_go (\<lambda>c. node_serve sv (call_of c)) calls s) (\<lambda>(answers, s1).
             let wf = fd (elog (n_engine s1)); off = fd (olog (n_offsets s1)) in
             Ret (Inr answers, (n_files s1)(sv_walPath sv \<mapsto> crash (durable wf + j1) wf,
               sv_offsetsPath sv \<mapsto> crash (durable off + j2) off)))))"

definition spec_lifetime :: "nodeConfig \<Rightarrow> life \<Rightarrow> data \<Rightarrow> (run_error + rpc_response rpc list) \<times> data" where
  "spec_lifetime cfg = (\<lambda>(calls, j1, j2) d. apfst Inr (run_spec (spec_call (authToken cfg) (spec_of cfg)) calls d))"

lemma lifetime_spec:
  assumes "node_ok mc cfg" and "disk_ok cfg files rs" and "\<forall>c \<in> set calls. call_fits c"
  shows "\<exists>files1. lifetime mc cfg (calls, j1, j2) files = Ret (fst (spec_lifetime cfg (calls, j1, j2) rs), files1)
    \<and> disk_ok cfg files1 (snd (spec_lifetime cfg (calls, j1, j2) rs))"
proof -
  let ?final = "run_spec (spec_call (authToken cfg) (spec_of cfg)) calls rs"
  from node_run_starts [OF assms(1,2)] obtain sv s where
    start: "node_run mc cfg files = Ret (Inr (sv, s))" and sv: "runs cfg sv" and s: "up s rs" by blast
  from session.run [OF s, of calls cfg sv] assms(3) sv obtain s1 where
    run: "run_go (\<lambda>c. node_serve sv (call_of c)) calls s = Ret (fst ?final, s1)" and s1: "up s1 (snd ?final)" by auto
  define wf off where "wf = fd (elog (n_engine s1))" and "off = fd (olog (n_offsets s1))"
  let ?files = "(n_files s1)(walPath_of cfg \<mapsto> crash (durable wf + j1) wf, offsetsPath_of cfg \<mapsto> crash (durable off + j2) off)"
  have life: "lifetime mc cfg (calls, j1, j2) files = Ret (Inr (fst ?final), ?files)"
    using start run sv by (simp add: lifetime_def runs_def wf_def off_def Let_def)
  have "?files (walPath_of cfg) = Some (crash (durable wf + j1) wf)" "?files (offsetsPath_of cfg) = Some (crash (durable off + j2) off)"
    using log_paths_differ [of cfg] by simp_all
  then have "disk_ok cfg ?files (snd ?final)"
    using s1 unfolding disk_ok_def engine_disk_def offsets_disk_def up_def serves_def wf_def off_def by auto
  with life show ?thesis by (simp add: spec_lifetime_def)
qed

interpretation lifetimes: refinement "lifetime mc cfg" "spec_lifetime cfg" "disk_ok cfg"
    "\<lambda>(calls, j1, j2). (\<forall>c \<in> set calls. call_fits c) \<and> node_ok mc cfg"
  by unfold_locales (auto intro: lifetime_spec)

lemma spec_lifetimes:
  "\<exists>answers. fst (run_spec (spec_lifetime cfg) lives rs) = map Inr answers \<and> map length answers = map (length \<circ> fst) lives
    \<and> concat answers = fst (run_spec (spec_call (authToken cfg) (spec_of cfg)) (concat (map fst lives)) rs)"
proof (induction lives arbitrary: rs)
  case Nil
  then show ?case by simp
next
  case (Cons life lives)
  obtain calls j1 j2 where life: "life = (calls, j1, j2)" by (cases life)
  obtain as rs1 where r: "run_spec (spec_call (authToken cfg) (spec_of cfg)) calls rs = (as, rs1)" by (rule prod.exhaust)
  from Cons [of rs1] obtain answers where
    "fst (run_spec (spec_lifetime cfg) lives rs1) = map Inr answers" "map length answers = map (length \<circ> fst) lives"
    "concat answers = fst (run_spec (spec_call (authToken cfg) (spec_of cfg)) (concat (map fst lives)) rs1)" by blast
  moreover obtain bs rs2 where "run_spec (spec_lifetime cfg) lives rs1 = (bs, rs2)" by (rule prod.exhaust)
  moreover have "length as = length calls" using length_run_spec [of "spec_call (authToken cfg) (spec_of cfg)" calls rs] by (simp add: r)
  moreover have "spec_lifetime cfg life rs = (Inr as, rs1)" by (simp add: life spec_lifetime_def r)
  ultimately show ?case by (intro exI [of _ "as # answers"]) (simp add: life r run_spec_append)
qed

section \<open>Properties\<close>

text \<open>
  C4. Crashes between calls do not show: over any number of lifetimes of a node without raft peers and with the profile \<^verbatim>\<open>cache\<close>, each
  begun by \<^verbatim>\<open>run\<close> on what the last one left on the disk, with any calls of the key-value and the streaming service one after
  another, authenticated or not, well-formed or not, and ended by a crash after the last of them returned, every start succeeds,
  no call panics, and the answers of all lifetimes together, changes and offsets of consumer groups included, are those that
  the specification gives to all the calls in a row.  No system call fails, every record fits a frame, and no fetch
  starts above position \<open>2 ^ 63\<close>.
\<close>

theorem node_lifetimes:
  assumes "node_ok mc cfg" and "\<forall>(calls, j1, j2) \<in> set lives. \<forall>c \<in> set calls. call_fits c"
  shows "\<exists>answers files1. run_go (lifetime mc cfg) lives Map.empty = Ret (map Inr answers, files1)
    \<and> map length answers = map (length \<circ> fst) lives
    \<and> concat answers = fst (run_spec (spec_call (authToken cfg) (spec_of cfg)) (concat (map fst lives)) ([], Map.empty))"
proof -
  have "disk_ok cfg Map.empty ([], Map.empty)" by (simp add: disk_ok_def engine_disk_def offsets_disk_def)
  from lifetimes.run [OF this, of lives mc] assms obtain files1 where
    "run_go (lifetime mc cfg) lives Map.empty = Ret (fst (run_spec (spec_lifetime cfg) lives ([], Map.empty)), files1)" by auto
  with spec_lifetimes [of cfg lives "([], Map.empty)"] show ?thesis by metis
qed

definition sample_nodeConfig :: nodeConfig where
  "sample_nodeConfig =
     \<lparr>c_addr = lit ''127.0.0.1:7070'', httpAddr = lit ''127.0.0.1:7071'', dataDir = lit ''./data'', namespaceID = lit ''ns'',
      profile = lit ''cache'', tlsCert = [], tlsKey = [], authToken = lit ''secret'', raftID = [], raftAddr = [],
      raftPeers = [], raftBootstrap = False, raftTLSCert = [], raftTLSKey = [], raftTLSCA = [], redisAddr = []\<rparr>"

definition sample_machine :: "(nat, nat, nat) machine" where
  "sample_machine = \<lparr>mc_open = sample_env, mc_Listen = (\<lambda>_. True), mc_gob = sample_registry, mc_noRaft = 0\<rparr>"

definition sample_md :: "(bytes \<Rightarrow> bytes list) option" where
  "sample_md = Some (\<lambda>_. [lit ''Bearer secret''])"

lemma sample_node_ok: "node_ok sample_machine sample_nodeConfig"
  by (simp add: node_ok_def sample_machine_def sample_nodeConfig_def sample_env_def server_creds_def lit_def)

lemma sample_nodeConfig_simps [simp]:
  "authToken sample_nodeConfig = lit ''secret''" "spec_of sample_nodeConfig = \<lparr>ns_ID = lit ''ns'', ns_Profile = lit ''cache''\<rparr>"
  "raftPeers sample_nodeConfig = []"
  by (simp_all add: sample_nodeConfig_def spec_of_def)

lemma presents_None [simp]: "\<not> presents token None"
  by (simp add: presents_def)

lemma sample_presents: "presents (lit ''secret'') sample_md"
  by (simp add: sample_md_def presents_def bearerPrefix_def lit_def)

definition sample_life1 :: "data_call list" where
  "sample_life1 = [(sample_md, 5, DataState (ReqPut 0 sample_put)), (None, 5, DataState (ReqGet 0 sample_get)),
     (sample_md, 5, DataCommitOffset \<lparr>oreq_NamespaceId = lit ''ns'', oreq_ConsumerGroup = [0x67], oreq_Offset = 2\<rparr>)]"

definition sample_life2 :: "data_call list" where
  "sample_life2 = [(sample_md, 5, DataState (ReqGet 9 sample_get)),
     (sample_md, 5, DataFetchOffset \<lparr>ofreq_NamespaceId = lit ''ns'', ofreq_ConsumerGroup = [0x67]\<rparr>),
     (sample_md, 5, DataFetch \<lparr>freq_NamespaceId = lit ''ns'', freq_FromOffset = 1, freq_MaxRecords = 0\<rparr>)]"

lemma sample_lives_answers:
  "\<exists>m. fst (run_spec (spec_call (lit ''secret'') \<lparr>ns_ID = lit ''ns'', ns_Profile = lit ''cache''\<rparr>) (sample_life1 @ sample_life2) ([], Map.empty)) =
      [Inr (AnsState (ResMutation m)), Inl Unauthenticated, Inr (AnsCommitOffset 2),
       Inr (AnsState (ResGet \<lparr>gres_Value = [0x76], gres_Version = 1, gres_Found = True\<rparr>)),
       Inr (AnsFetchOffset \<lparr>ofres_Offset = 2, ofres_Found = True\<rparr>),
       Inr (AnsFetch \<lparr>fres_Records = [\<lparr>wc_Offset = 1, wc_Kind = CHANGE_KIND_PUT, wc_Key = [0x6b], wc_Value = [0x76]\<rparr>], fres_NextOffset = 2\<rparr>)]"
  using sample_presents presents_None
  by (simp add: sample_life1_def sample_life2_def spec_call_def spec_request_def sample_put_def sample_get_def spec_once_def spec_replayed_def
      spec_commit_def put_outcome_def spec_get_def tables_of_def put_record_def put_entry_def ttl_expiry_def expired_def expiry_time_def
      in_namespace_def regresses_def fetched_def fetch_limit_def defaultMaxRecords_def wire_of_def change_of_def toChangeKind_def)

theorem node_lifetimes_witness:
  "\<exists>m answers files1. run_go (lifetime sample_machine sample_nodeConfig) [(sample_life1, 0, 3), (sample_life2, 1, 0)] Map.empty =
      Ret (map Inr answers, files1)
    \<and> concat answers = [Inr (AnsState (ResMutation m)), Inl Unauthenticated, Inr (AnsCommitOffset 2),
       Inr (AnsState (ResGet \<lparr>gres_Value = [0x76], gres_Version = 1, gres_Found = True\<rparr>)),
       Inr (AnsFetchOffset \<lparr>ofres_Offset = 2, ofres_Found = True\<rparr>),
       Inr (AnsFetch \<lparr>fres_Records = [\<lparr>wc_Offset = 1, wc_Kind = CHANGE_KIND_PUT, wc_Key = [0x6b], wc_Value = [0x76]\<rparr>], fres_NextOffset = 2\<rparr>)]"
proof -
  let ?lives = "[(sample_life1, 0, 3), (sample_life2, 1, 0)] :: life list"
  have fits: "\<forall>(calls, j1, j2) \<in> set ?lives. \<forall>c \<in> set calls. call_fits c"
    by (simp add: sample_life1_def sample_life2_def call_fits_def sample_put_def fits_def put_record_def offset_record_def encodeOffset_def)
  have "concat (map fst ?lives) = sample_life1 @ sample_life2" by simp
  with node_lifetimes [OF sample_node_ok fits] sample_lives_answers show ?thesis unfolding sample_nodeConfig_simps by metis
qed

text \<open>
  C22. A node serves only what it can stand for: if \<^verbatim>\<open>run\<close> gets as far as serving, then the profile it
  declares in its answers is \<^verbatim>\<open>cache\<close>, or \<^verbatim>\<open>durable\<close> with replication behind both the key-value and the
  administration service, replication is on exactly if peers were given, the token of the configuration is the one
  it asks for, and if a certificate or a key was given it has loaded the pair of them.
\<close>

theorem node_run_honest:
  assumes "node_run mc cfg files = Ret (Inr (sv, s))"
  shows "(ns_Profile (registry_Spec (st_Registry (sv_State sv))) = lit ''cache''
        \<or> ns_Profile (registry_Spec (st_Registry (sv_State sv))) = lit ''durable'' \<and> st_Replication (sv_State sv) \<noteq> None)
    \<and> ns_ID (registry_Spec (st_Registry (sv_State sv))) = namespaceID cfg \<and> namespaceID cfg \<noteq> []
    \<and> (st_Replication (sv_State sv) \<noteq> None \<longleftrightarrow> raftPeers cfg \<noteq> []) \<and> ad_Node (sv_Admin sv) = st_Replication (sv_State sv)
    \<and> sv_token sv = authToken cfg
    \<and> (tlsCert cfg \<noteq> [] \<or> tlsKey cfg \<noteq> [] \<longrightarrow>
        (\<exists>cert. sv_creds sv = Some cert \<and> LoadX509KeyPair (tls (mc_open mc)) (tlsCert cfg) (tlsKey cfg) = Some cert))"
proof -
  from node_run_serving [OF assms] obtain spec eng offs where
    spec: "NewNamespaceSpec (namespaceID cfg) (profile cfg) (raftPeers cfg \<noteq> []) = Inr spec"
    and "node_listen mc cfg (NewRegistry spec) (walPath_of cfg) (offsetsPath_of cfg) eng offs files = Inr (sv, s)" .
  then obtain repl r creds where
    repl: "start_replication mc cfg = Inr (repl, r)" and creds: "server_creds mc cfg = Inr creds"
    and sv: "st_Registry (sv_State sv) = NewRegistry spec" "st_Replication (sv_State sv) = repl" "ad_Node (sv_Admin sv) = repl"
      "sv_token sv = authToken cfg" "sv_creds sv = creds"
    by (auto simp: node_listen_def Let_def split: if_split_asm sum.split_asm prod.split_asm)
  have "repl \<noteq> None \<longleftrightarrow> raftPeers cfg \<noteq> []"
    using repl by (auto simp: start_replication_def Let_def split: if_splits sum.splits)
  moreover have "tlsCert cfg \<noteq> [] \<or> tlsKey cfg \<noteq> [] \<longrightarrow>
      (\<exists>cert. creds = Some cert \<and> LoadX509KeyPair (tls (mc_open mc)) (tlsCert cfg) (tlsKey cfg) = Some cert)"
    using creds by (cases "LoadX509KeyPair (tls (mc_open mc)) (tlsCert cfg) (tlsKey cfg)") (auto simp: server_creds_def split: if_splits)
  moreover have "spec = spec_of cfg" "namespaceID cfg \<noteq> []" "profile cfg = lit ''cache'' \<or> profile cfg = lit ''durable'' \<and> raftPeers cfg \<noteq> []"
    using spec by (auto simp: NewNamespaceSpec_def Let_def alwaysSupportedProfiles_def spec_of_def split: if_splits)
  ultimately show ?thesis by (auto simp: sv NewRegistry_def registry_Spec_def spec_of_def)
qed

lemma sample_node_runs: "\<exists>sv s. node_run sample_machine sample_nodeConfig Map.empty = Ret (Inr (sv, s)) \<and> runs sample_nodeConfig sv \<and> up s ([], Map.empty)"
  by (rule node_run_starts [OF sample_node_ok]) (simp add: disk_ok_def engine_disk_def offsets_disk_def)

theorem node_run_honest_witness:
  "\<exists>sv s. node_run sample_machine sample_nodeConfig Map.empty = Ret (Inr (sv, s))
    \<and> sv_token sv = lit ''secret'' \<and> st_Replication (sv_State sv) = None"
proof -
  from sample_node_runs obtain sv s where run: "node_run sample_machine sample_nodeConfig Map.empty = Ret (Inr (sv, s))" by blast
  from node_run_honest [OF run] run show ?thesis by (intro exI [of _ sv] exI [of _ s]) simp
qed

text \<open>
  C21. No method of the three services of a node with a token is served without it: whichever of the
  fifteen methods a client calls, if its metadata does not present the token of the configuration the call is
  refused, counted in the metrics, and leaves engine, offsets, raft and files as they were.  The health
  checks of gRPC, which the interceptor exempts, are not among these methods.
\<close>

theorem node_requires_token:
  assumes "node_run mc cfg files = Ret (Inr (sv, s0))" and "authToken cfg \<noteq> []" and "\<not> presents (authToken cfg) md"
  shows "node_serve sv (md, elapsed, req) s =
    Ret (Inl Unauthenticated,
      s\<lparr>metrics := metrics s @ [IncRequests (full_method req) Unauthenticated, ObserveDuration (full_method req) elapsed]\<rparr>)"
proof -
  from node_run_serving [OF assms(1)] obtain spec eng offs where
    "node_listen mc cfg (NewRegistry spec) (walPath_of cfg) (offsetsPath_of cfg) eng offs files = Inr (sv, s0)" .
  then have "sv_token sv = authToken cfg"
    by (auto simp: node_listen_def Let_def split: if_split_asm sum.split_asm prod.split_asm)
  with assms(2,3) show ?thesis
    by (simp add: node_serve_def intercepted_def metrics_interceptor_def auth_interceptor_presents [OF full_method_guarded])
qed

theorem node_requires_token_witness:
  "\<exists>sv s ms. node_run sample_machine sample_nodeConfig Map.empty = Ret (Inr (sv, s))
    \<and> node_serve sv (Some (\<lambda>_. [lit ''Bearer wrong'']), 5, RpcDeleteNamespace [] (lit ''ns'')) s = Ret (Inl Unauthenticated, s\<lparr>metrics := ms\<rparr>)"
proof -
  from sample_node_runs obtain sv s where run: "node_run sample_machine sample_nodeConfig Map.empty = Ret (Inr (sv, s))" by blast
  have "authToken sample_nodeConfig \<noteq> []" "\<not> presents (authToken sample_nodeConfig) (Some (\<lambda>_. [lit ''Bearer wrong'']))"
    by (simp_all add: sample_nodeConfig_def presents_def bearerPrefix_def lit_def)
  from node_requires_token [OF run this] run show ?thesis by blast
qed

section \<open>The command line of a configuration\<close>

definition string_flags :: "nodeConfig \<Rightarrow> (bytes \<times> bytes) list" where
  "string_flags cfg = map (apfst lit)
     [(''addr'', c_addr cfg), (''http-addr'', httpAddr cfg), (''data-dir'', dataDir cfg), (''namespace'', namespaceID cfg),
      (''profile'', profile cfg), (''tls-cert'', tlsCert cfg), (''tls-key'', tlsKey cfg), (''auth-token'', authToken cfg),
      (''raft-id'', raftID cfg), (''raft-addr'', raftAddr cfg), (''raft-peers'', Join_with 44 (map peer_entry (raftPeers cfg))),
      (''raft-tls-cert'', raftTLSCert cfg), (''raft-tls-key'', raftTLSKey cfg), (''raft-tls-ca'', raftTLSCA cfg),
      (''redis-addr'', redisAddr cfg)]"

lemma distinct_string_flags: "distinct (map fst (string_flags cfg))"
  by (simp add: string_flags_def)

lemma string_flags_lookup:
  "map_of (string_flags cfg) (lit ''addr'') = Some (c_addr cfg)" "map_of (string_flags cfg) (lit ''http-addr'') = Some (httpAddr cfg)"
  "map_of (string_flags cfg) (lit ''data-dir'') = Some (dataDir cfg)" "map_of (string_flags cfg) (lit ''namespace'') = Some (namespaceID cfg)"
  "map_of (string_flags cfg) (lit ''profile'') = Some (profile cfg)" "map_of (string_flags cfg) (lit ''tls-cert'') = Some (tlsCert cfg)"
  "map_of (string_flags cfg) (lit ''tls-key'') = Some (tlsKey cfg)" "map_of (string_flags cfg) (lit ''auth-token'') = Some (authToken cfg)"
  "map_of (string_flags cfg) (lit ''raft-id'') = Some (raftID cfg)" "map_of (string_flags cfg) (lit ''raft-addr'') = Some (raftAddr cfg)"
  "map_of (string_flags cfg) (lit ''raft-peers'') = Some (Join_with 44 (map peer_entry (raftPeers cfg)))"
  "map_of (string_flags cfg) (lit ''raft-tls-cert'') = Some (raftTLSCert cfg)" "map_of (string_flags cfg) (lit ''raft-tls-key'') = Some (raftTLSKey cfg)"
  "map_of (string_flags cfg) (lit ''raft-tls-ca'') = Some (raftTLSCA cfg)" "map_of (string_flags cfg) (lit ''redis-addr'') = Some (redisAddr cfg)"
  "map_of (string_flags cfg) (lit ''raft-bootstrap'') = None"
  by (simp_all add: string_flags_def)

definition command_line :: "nodeConfig \<Rightarrow> bytes list" where
  "command_line cfg = (if raftBootstrap cfg then [lit ''--'' @ lit ''raft-bootstrap''] else []) @ map flag_arg (string_flags cfg)"

text \<open>
  C35. A configuration can be given on the command line: the flags that spell out a configuration, the peers as
  pairs separated by commas, are parsed into exactly that configuration; only an empty token is
  taken from the environment.
\<close>

theorem node_main_roundtrip:
  assumes "\<forall>p \<in> set (raftPeers cfg). peer_ok p"
  shows "node_main env_token (command_line cfg) = Inr (cfg\<lparr>authToken := if authToken cfg = [] then env_token else authToken cfg\<rparr>)"
proof -
  let ?boot = "if raftBootstrap cfg then [(lit ''raft-bootstrap'', bool_text True)] else []"
  have parse: "flag_Parse node_flags [] (command_line cfg) = flag_Parse node_flags ?boot (map flag_arg (string_flags cfg))"
    using flag_Parse_bool [of "lit ''raft-bootstrap''" node_flags "[]"] by (simp add: command_line_def node_flags_def) (simp add: plain_name_def lit_def)
  have "\<forall>(n, v) \<in> set (string_flags cfg). plain_name n \<and> map_of node_flags n = Some False"
    by (simp add: string_flags_def node_flags_def) (simp add: plain_name_def lit_def)
  from flag_Parse_args [OF this, of ?boot "[]"]
  have vals: "flag_Parse node_flags [] (command_line cfg) = Inr (rev (string_flags cfg) @ ?boot, [])" by (simp add: parse)
  have boot: "flag_value (lit ''raft-bootstrap'') (lit ''false'') ?boot = bool_text (raftBootstrap cfg)"
    by (simp add: flag_value_def bool_text_def)
  have "bool_text b = lit ''true'' \<longleftrightarrow> b" for b by (simp add: bool_text_def)
  then show ?thesis
    unfolding node_main_def vals Let_def
    by (simp add: flag_value_rev [OF distinct_string_flags] string_flags_lookup boot parsePeers_peers [OF assms] del: lit_eq_iff)
qed

theorem node_main_roundtrip_witness:
  "node_main (lit ''fromenv'') (command_line (sample_nodeConfig\<lparr>authToken := [], raftPeers :=
        [\<lparr>peer_ID = lit ''n1'', peer_Addr = lit ''h:1''\<rparr>, \<lparr>peer_ID = lit ''n2'', peer_Addr = lit ''h:2''\<rparr>]\<rparr>)) =
    Inr (sample_nodeConfig\<lparr>authToken := lit ''fromenv'', raftPeers :=
        [\<lparr>peer_ID = lit ''n1'', peer_Addr = lit ''h:1''\<rparr>, \<lparr>peer_ID = lit ''n2'', peer_Addr = lit ''h:2''\<rparr>]\<rparr>)"
proof -
  let ?peers = "[\<lparr>peer_ID = lit ''n1'', peer_Addr = lit ''h:1''\<rparr>, \<lparr>peer_ID = lit ''n2'', peer_Addr = lit ''h:2''\<rparr>]"
  have "\<forall>p \<in> set ?peers. peer_ok p" by (simp add: peer_ok_def lit_def)
  then have "\<forall>p \<in> set (raftPeers (sample_nodeConfig\<lparr>authToken := [], raftPeers := ?peers\<rparr>)). peer_ok p" by simp
  from node_main_roundtrip [OF this, of "lit ''fromenv''"] show ?thesis by simp
qed

end
