(* ===== verification/Ctl.thy ===== *)
theory Ctl
  imports NodeSpec
begin

text \<open>
  The command line client \<^verbatim>\<open>cmd/uddpctl/main.go\<close>: its flags, the credentials it dials with, and for
  each subcommand the request it sends and what it prints of the answer.  The gRPC connection is a parameter.
\<close>

section \<open>Credentials\<close>

datatype 'p credentials = Insecure | TLSCredentials bool "'p option"

datatype cred_error = ReadCA bytes | NoValidCertificates bytes

definition dialCredentials :: "('c, 'p) tls_env \<Rightarrow> bool \<Rightarrow> bytes \<Rightarrow> bool \<Rightarrow> cred_error + 'p credentials" where
  "dialCredentials env useTLS caPath insecureSkipVerify =
     (if \<not> useTLS \<and> caPath = [] \<and> \<not> insecureSkipVerify then Inr Insecure
      else if caPath = [] then Inr (TLSCredentials insecureSkipVerify None)
      else (case ReadFile env caPath of
         None \<Rightarrow> Inl (ReadCA caPath)
       | Some pem \<Rightarrow>
           (case AppendCertsFromPEM env pem of
              None \<Rightarrow> Inl (NoValidCertificates caPath)
            | Some pool \<Rightarrow> Inr (TLSCredentials insecureSkipVerify (Some pool)))))"

section \<open>Subcommands\<close>

datatype ctl_error =
    CtlFlags flag_error
  | UsageError
  | UsageOf string
  | InvalidNumber bytes
  | CredentialsErr cred_error
  | DialFailed
  | RpcFailed codes

text \<open>What the server chooses while it handles a request: its clock, the order of its map, a file it may create.\<close>

record choices =
  ch_now :: int
  ch_order :: "(bytes \<times> int) list"
  ch_created :: "osfile option"
  ch_elapsed :: int

text \<open>A subcommand gives the request to send and what to print of the response.\<close>

type_synonym subcommand = "ctl_error + rpc_request \<times> (rpc_response \<Rightarrow> bytes)"

definition decimal :: "u64 \<Rightarrow> bytes" where
  "decimal n = itoa (unat n)"

definition ctl_get :: "bytes \<Rightarrow> choices \<Rightarrow> bytes list \<Rightarrow> subcommand" where
  "ctl_get ns ch rest =
     (if length rest \<noteq> 1 then Inl (UsageOf ''get'')
      else Inr (RpcState (ReqGet (ch_now ch) \<lparr>greq_NamespaceId = ns, greq_Key = rest ! 0\<rparr>),
        \<lambda>ans. case ans of
          AnsState (ResGet resp) \<Rightarrow>
            if \<not> gres_Found resp then lit ''(not found)'' @ [10]
            else gres_Value resp @ [9] @ lit ''(version='' @ decimal (gres_Version resp) @ lit '')'' @ [10]
        | _ \<Rightarrow> []))"

definition ctl_put :: "bytes \<Rightarrow> choices \<Rightarrow> bytes list \<Rightarrow> subcommand" where
  "ctl_put ns ch rest =
     (if length rest \<noteq> 2 then Inl (UsageOf ''put'')
      else Inr (RpcState (ReqPut (ch_now ch) \<lparr>preq_NamespaceId = ns, preq_Key = rest ! 0, preq_Value = rest ! 1,
                  preq_TtlSeconds = 0, preq_IdempotencyKey = []\<rparr>),
        \<lambda>ans. case ans of
          AnsState (ResMutation resp) \<Rightarrow>
            lit ''committed at position '' @ decimal (mres_CommitPosition resp)
            @ lit '' (profile='' @ mres_DurabilityProfile resp @ lit '')'' @ [10]
        | _ \<Rightarrow> []))"

definition ctl_delete :: "bytes \<Rightarrow> choices \<Rightarrow> bytes list \<Rightarrow> subcommand" where
  "ctl_delete ns ch rest =
     (if length rest \<noteq> 1 then Inl (UsageOf ''delete'')
      else Inr (RpcState (ReqDelete \<lparr>dreq_NamespaceId = ns, dreq_Key = rest ! 0, dreq_IdempotencyKey = []\<rparr>),
        \<lambda>ans. case ans of
          AnsState (ResMutation resp) \<Rightarrow> lit ''committed at position '' @ decimal (mres_CommitPosition resp) @ [10]
        | _ \<Rightarrow> []))"

fun kind_text :: "ChangeKind \<Rightarrow> bytes" where
  "kind_text CHANGE_KIND_UNSPECIFIED = lit ''CHANGE_KIND_UNSPECIFIED''"
| "kind_text CHANGE_KIND_PUT = lit ''CHANGE_KIND_PUT''"
| "kind_text CHANGE_KIND_DELETE = lit ''CHANGE_KIND_DELETE''"

definition print_change :: "wire_change \<Rightarrow> bytes" where
  "print_change r = decimal (wc_Offset r) @ [9] @ kind_text (wc_Kind r) @ [9] @ wc_Key r @ lit ''='' @ wc_Value r @ [10]"

definition ctl_fetch :: "bytes \<Rightarrow> bytes list \<Rightarrow> subcommand" where
  "ctl_fetch ns rest =
     (if length rest < 1 \<or> 2 < length rest then Inl (UsageOf ''fetch'')
      else (case ParseUint (rest ! 0) of
         None \<Rightarrow> Inl (InvalidNumber (rest ! 0))
       | Some offset \<Rightarrow>
           (case (if length rest = 2 then map_option of_int (ParseInt_bits 32 (rest ! 1)) else Some 100) of
              None \<Rightarrow> Inl (InvalidNumber (rest ! 1))
            | Some maxRecords \<Rightarrow>
                Inr (RpcFetch \<lparr>freq_NamespaceId = ns, freq_FromOffset = offset, freq_MaxRecords = maxRecords\<rparr>,
                  \<lambda>ans. case ans of
                    AnsFetch resp \<Rightarrow>
                      concat (map print_change (fres_Records resp))
                      @ lit ''next_offset='' @ decimal (fres_NextOffset resp) @ [10]
                  | _ \<Rightarrow> []))))"

definition ctl_commit_offset :: "bytes \<Rightarrow> bytes list \<Rightarrow> subcommand" where
  "ctl_commit_offset ns rest =
     (if length rest \<noteq> 2 then Inl (UsageOf ''commit-offset'')
      else (case ParseUint (rest ! 1) of
         None \<Rightarrow> Inl (InvalidNumber (rest ! 1))
       | Some offset \<Rightarrow>
           Inr (RpcCommitOffset \<lparr>oreq_NamespaceId = ns, oreq_ConsumerGroup = rest ! 0, oreq_Offset = offset\<rparr>,
             \<lambda>ans. case ans of
               AnsCommitOffset committed \<Rightarrow> lit ''committed_offset='' @ decimal committed @ [10]
             | _ \<Rightarrow> [])))"

definition ctl_offset :: "bytes \<Rightarrow> bytes list \<Rightarrow> subcommand" where
  "ctl_offset ns rest =
     (if length rest \<noteq> 1 then Inl (UsageOf ''offset'')
      else Inr (RpcFetchOffset \<lparr>ofreq_NamespaceId = ns, ofreq_ConsumerGroup = rest ! 0\<rparr>,
        \<lambda>ans. case ans of
          AnsFetchOffset resp \<Rightarrow>
            if \<not> ofres_Found resp then lit ''(no committed offset)'' @ [10]
            else lit ''offset='' @ decimal (ofres_Offset resp) @ [10]
        | _ \<Rightarrow> []))"

definition printCluster :: "Cluster \<Rightarrow> bytes" where
  "printCluster c =
     lit ''leader: '' @ cl_LeaderId c @ lit '' ('' @ cl_LeaderRaftAddr c @ lit '')'' @ [10]
     @ concat (map (\<lambda>n. lit ''  '' @ an_Id n @ [9] @ an_RaftAddr n @ (if an_IsVoter n then lit '' voter'' else []) @ [10]) (cl_Nodes c))"

definition print_cluster_of :: "rpc_response \<Rightarrow> bytes" where
  "print_cluster_of ans = (case ans of AnsCluster c \<Rightarrow> printCluster c | _ \<Rightarrow> [])"

definition ctl_add_node :: "bytes list \<Rightarrow> subcommand" where
  "ctl_add_node rest =
     (if length rest \<noteq> 2 then Inl (UsageOf ''add-node'') else Inr (RpcAddNode (rest ! 0) (rest ! 1), print_cluster_of))"

definition ctl_remove_node :: "bytes list \<Rightarrow> subcommand" where
  "ctl_remove_node rest =
     (if length rest \<noteq> 1 then Inl (UsageOf ''remove-node'') else Inr (RpcRemoveNode (rest ! 0), print_cluster_of))"

definition ctl_list_nodes :: "bytes list \<Rightarrow> subcommand" where
  "ctl_list_nodes rest =
     (if length rest \<noteq> 0 then Inl (UsageOf ''list-nodes'') else Inr (RpcListNodes, print_cluster_of))"

definition printBackupInfo :: "BackupInfo \<Rightarrow> bytes" where
  "printBackupInfo b =
     lit ''namespace='' @ bi_NamespaceId b @ lit '' recovery_point='' @ decimal (bi_RecoveryPoint b)
     @ lit '' entries='' @ format_int (sint (bi_EntryCount b)) @ lit '' created_at='' @ bi_CreatedAt b
     @ lit '' sha256='' @ bi_Sha256Entries b @ [10]"

definition print_backup_of :: "rpc_response \<Rightarrow> bytes" where
  "print_backup_of ans = (case ans of AnsBackup b \<Rightarrow> printBackupInfo b | _ \<Rightarrow> [])"

definition ctl_backup :: "choices \<Rightarrow> bytes list \<Rightarrow> subcommand" where
  "ctl_backup ch rest =
     (if length rest \<noteq> 1 then Inl (UsageOf ''backup'')
      else Inr (RpcCreateBackup (ch_order ch) (ch_now ch) (ch_created ch) (rest ! 0), print_backup_of))"

definition ctl_restore :: "bytes list \<Rightarrow> subcommand" where
  "ctl_restore rest =
     (if length rest \<noteq> 1 then Inl (UsageOf ''restore'') else Inr (RpcRestoreBackup (rest ! 0), print_backup_of))"

definition ctl_export :: "choices \<Rightarrow> bytes list \<Rightarrow> subcommand" where
  "ctl_export ch rest =
     (if length rest \<noteq> 0 then Inl (UsageOf ''export'')
      else Inr (RpcExportNamespace (ch_order ch),
        \<lambda>ans. case ans of
          AnsExport entries \<Rightarrow> concat (map (\<lambda>e. ex_Key e @ lit ''='' @ ex_Value e @ [10]) entries)
        | _ \<Rightarrow> []))"

definition ctl_delete_namespace :: "choices \<Rightarrow> bytes list \<Rightarrow> subcommand" where
  "ctl_delete_namespace ch rest =
     (if length rest \<noteq> 1 then Inl (UsageOf ''delete-namespace'')
      else Inr (RpcDeleteNamespace (ch_order ch) (rest ! 0),
        \<lambda>ans. case ans of
          AnsDeleted n \<Rightarrow> lit ''deleted '' @ format_int (sint n) @ lit '' entries'' @ [10]
        | _ \<Rightarrow> []))"

definition ctl_usage :: "choices \<Rightarrow> bytes list \<Rightarrow> subcommand" where
  "ctl_usage ch rest =
     (if length rest \<noteq> 0 then Inl (UsageOf ''usage'')
      else Inr (RpcGetUsage (ch_order ch),
        \<lambda>ans. case ans of
          AnsUsage u \<Rightarrow>
            lit ''namespace='' @ us_NamespaceId u @ lit '' key_count='' @ format_int (sint (us_KeyCount u))
            @ lit '' approx_bytes='' @ format_int (sint (us_ApproxBytes u)) @ [10]
        | _ \<Rightarrow> []))"

definition ctl_command :: "bytes \<Rightarrow> choices \<Rightarrow> bytes \<Rightarrow> bytes list \<Rightarrow> subcommand" where
  "ctl_command ns ch cmd rest =
     (if cmd = lit ''get'' then ctl_get ns ch rest
      else if cmd = lit ''put'' then ctl_put ns ch rest
      else if cmd = lit ''delete'' then ctl_delete ns ch rest
      else if cmd = lit ''fetch'' then ctl_fetch ns rest
      else if cmd = lit ''commit-offset'' then ctl_commit_offset ns rest
      else if cmd = lit ''offset'' then ctl_offset ns rest
      else if cmd = lit ''add-node'' then ctl_add_node rest
      else if cmd = lit ''remove-node'' then ctl_remove_node rest
      else if cmd = lit ''list-nodes'' then ctl_list_nodes rest
      else if cmd = lit ''backup'' then ctl_backup ch rest
      else if cmd = lit ''restore'' then ctl_restore rest
      else if cmd = lit ''export'' then ctl_export ch rest
      else if cmd = lit ''delete-namespace'' then ctl_delete_namespace ch rest
      else if cmd = lit ''usage'' then ctl_usage ch rest
      else Inl UsageError)"

section \<open>Running\<close>

definition ctl_flags :: flag_table where
  "ctl_flags = map (\<lambda>n. (lit n, n = ''tls'' \<or> n = ''insecure-skip-verify''))
     [''addr'', ''namespace'', ''tls'', ''tls-ca'', ''insecure-skip-verify'', ''token'']"

text \<open>
  The machine of the client: its files, whether the address can be dialled, its environment variable
  \<^verbatim>\<open>UDDP_TOKEN\<close>, and the connection, which carries a call to the server and the answer back.
\<close>

record ('s, 'c, 'p) client =
  cli_tls :: "('c, 'p) tls_env"
  cli_NewClient :: "bytes \<Rightarrow> 'p credentials \<Rightarrow> bool"
  cli_token :: bytes
  cli_invoke :: "'p credentials \<Rightarrow> rpc_call \<Rightarrow> 's \<Rightarrow> (rpc_response rpc \<times> 's) go"

definition outgoing :: "bytes \<Rightarrow> (bytes \<Rightarrow> bytes list) option" where
  "outgoing token = Some (\<lambda>k. if token \<noteq> [] \<and> k = lit ''authorization'' then [lit ''Bearer '' @ token] else [])"

definition ctl_run :: "('s, 'c, 'p) client \<Rightarrow> choices \<Rightarrow> bytes list \<Rightarrow> 's \<Rightarrow> ((ctl_error + bytes) \<times> 's) go" where
  "ctl_run cli ch args s =
     (case flag_Parse ctl_flags [] args of
        Inl err \<Rightarrow> Ret (Inl (CtlFlags err), s)
      | Inr (_, []) \<Rightarrow> Ret (Inl UsageError, s)
      | Inr (vals, cmd # rest) \<Rightarrow>
          (let given = flag_value (lit ''token'') [] vals;
               token = (if given = [] then cli_token cli else given);
               addr = flag_value (lit ''addr'') (lit ''127.0.0.1:7070'') vals;
               is_set = (\<lambda>n. flag_value (lit n) (lit ''false'') vals = lit ''true'') in
           case dialCredentials (cli_tls cli) (is_set ''tls'') (flag_value (lit ''tls-ca'') [] vals) (is_set ''insecure-skip-verify'') of
             Inl err \<Rightarrow> Ret (Inl (CredentialsErr err), s)
           | Inr creds \<Rightarrow>
               if \<not> cli_NewClient cli addr creds then Ret (Inl DialFailed, s)
               else (case ctl_command (flag_value (lit ''namespace'') (lit ''default'') vals) ch cmd rest of
                  Inl err \<Rightarrow> Ret (Inl err, s)
                | Inr (req, print) \<Rightarrow>
                    go_bind (cli_invoke cli creds (outgoing token, ch_elapsed ch, req) s) (\<lambda>(res, s1).
                      Ret (map_sum RpcFailed print res, s1)))))"

end
