(* ===== verification/CtlSpec.thy ===== *)
theory CtlSpec
  imports Ctl
begin

text \<open>
  The client and a node together: what the subcommands of \<^verbatim>\<open>uddpctl\<close> print when they talk to a node that
  runs, and that the client never falls back to plain text.
\<close>

section \<open>A client of a node\<close>

definition login :: "nodeConfig \<Rightarrow> bytes list" where
  "login cfg = map flag_arg [(lit ''token'', authToken cfg), (lit ''namespace'', namespaceID cfg)]"

definition talks_to :: "('r node_state, 'c, 'p) client \<Rightarrow> ('r, 'd) serving \<Rightarrow> bool" where
  "talks_to cli sv \<longleftrightarrow> (\<forall>addr creds. cli_NewClient cli addr creds) \<and> (\<forall>creds. cli_invoke cli creds = node_serve sv)"

lemma presents_outgoing: "token \<noteq> [] \<Longrightarrow> presents token (outgoing token)"
  by (simp add: presents_def outgoing_def metadataKey_def bearerPrefix_def)

lemma flag_Parse_login:
  assumes "cmd = [] \<or> hd cmd \<noteq> 45"
  shows "flag_Parse ctl_flags [] (login cfg @ cmd # rest) =
    Inr ([(lit ''namespace'', namespaceID cfg), (lit ''token'', authToken cfg)], cmd # rest)"
proof -
  have "\<forall>(n, v) \<in> set [(lit ''token'', authToken cfg), (lit ''namespace'', namespaceID cfg)]. plain_name n \<and> map_of ctl_flags n = Some False"
    by (simp add: ctl_flags_def) (simp add: plain_name_def lit_def)
  from flag_Parse_args [OF this, of "[]" "cmd # rest"] flag_Parse_stop [OF assms] show ?thesis by (simp add: login_def)
qed

text \<open>A subcommand of the key-value service prints the specified answer.\<close>

lemma ctl_run_state:
  assumes "runs cfg sv" and "up s (rs, os)" and "talks_to cli sv" and "authToken cfg \<noteq> []" and "cmd = [] \<or> hd cmd \<noteq> 45"
    and cmd: "ctl_command (namespaceID cfg) ch cmd rest = Inr (RpcState req, print)" and "request_fits req"
  shows "\<exists>s1. ctl_run cli ch (login cfg @ cmd # rest) s =
      Ret (map_sum RpcFailed (print \<circ> AnsState) (fst (spec_request (spec_of cfg) req rs)), s1)
    \<and> up s1 (snd (spec_request (spec_of cfg) req rs), os)"
proof -
  let ?c = "(outgoing (authToken cfg), ch_elapsed ch, DataState req)"
  have "call_fits ?c" using assms(7) by (simp add: call_fits_def)
  from node_serve_spec [OF assms(2,1) this] presents_outgoing [OF assms(4)] obtain s1 where
    s1: "node_serve sv (outgoing (authToken cfg), ch_elapsed ch, RpcState req) s =
        Ret (map_sum id AnsState (fst (spec_request (spec_of cfg) req rs)), s1)" "up s1 (snd (spec_request (spec_of cfg) req rs), os)"
    by (auto simp: call_of_def spec_call_def)
  have "ctl_run cli ch (login cfg @ cmd # rest) s =
      Ret (map_sum RpcFailed (print \<circ> AnsState) (fst (spec_request (spec_of cfg) req rs)), s1)"
    using assms(3,4) s1(1) cmd flag_Parse_login [OF assms(5), of cfg rest]
    by (simp add: ctl_run_def flag_value_def dialCredentials_def talks_to_def sum.map_comp)
  with s1(2) show ?thesis by blast
qed

lemma decimal_position: "n < 2 ^ 64 \<Longrightarrow> decimal (of_nat n) = itoa n"
  by (simp add: decimal_def unat_of_nat_64)

text \<open>
  C24. What is put with the command line client is what it gets: against a node that runs with a token, \<^verbatim>\<open>uddpctl put\<close>
  with that token and namespace prints the next commit position and the profile of the node, and a
  \<^verbatim>\<open>uddpctl get\<close> after it prints exactly the value with that position as its version.
\<close>

theorem ctl_put_get:
  assumes "runs cfg sv" and "up s (rs, os)" and "talks_to cli sv" and "authToken cfg \<noteq> []"
    and "key \<noteq> []" and "37 + length key + length val < 2 ^ 32" and "length rs < 2 ^ 64 - 1"
  shows "\<exists>s1 s2. ctl_run cli ch1 (login cfg @ [lit ''put'', key, val]) s =
      Ret (Inr (lit ''committed at position '' @ itoa (Suc (length rs)) @ lit '' (profile='' @ profile cfg @ lit '')'' @ [10]), s1)
    \<and> ctl_run cli ch2 (login cfg @ [lit ''get'', key]) s1 =
      Ret (Inr (val @ [9] @ lit ''(version='' @ itoa (Suc (length rs)) @ lit '')'' @ [10]), s2)"
proof -
  let ?put = "ReqPut (ch_now ch1) \<lparr>preq_NamespaceId = namespaceID cfg, preq_Key = key, preq_Value = val, preq_TtlSeconds = 0, preq_IdempotencyKey = []\<rparr>"
  let ?get = "ReqGet (ch_now ch2) \<lparr>greq_NamespaceId = namespaceID cfg, greq_Key = key\<rparr>"
  let ?rs = "rs @ [at_end (put_record key val 0 []) rs]"
  let ?n = "of_nat (Suc (length rs)) :: u64"
  have pos: "decimal ?n = itoa (Suc (length rs))" using assms(7) by (intro decimal_position) simp
  have put: "spec_request (spec_of cfg) ?put rs = (Inr (ResMutation (answer (spec_of cfg) 0 (put_outcome ?n))), ?rs)"
    using assms(5) by (simp add: spec_request_def spec_of_def spec_once_def spec_replayed_def spec_commit_def ttl_expiry_def del: of_nat_Suc)
  have get: "spec_request (spec_of cfg) ?get ?rs = (Inr (ResGet \<lparr>gres_Value = val, gres_Version = ?n, gres_Found = True\<rparr>), ?rs)"
    using assms(5)
    by (cases "tables_of rs")
      (simp add: spec_request_def spec_of_def spec_get_def tables_of_def put_record_def put_entry_def expiry_time_def expired_def del: of_nat_Suc)
  have fit: "request_fits ?put" using assms(6) by (simp add: fits_def put_record_def)
  have hd: "lit ''put'' = [] \<or> hd (lit ''put'') \<noteq> 45" "lit ''get'' = [] \<or> hd (lit ''get'') \<noteq> 45" by (simp_all add: lit_def)
  obtain p1 where p1: "ctl_command (namespaceID cfg) ch1 (lit ''put'') [key, val] = Inr (RpcState ?put, p1)"
    "p1 (AnsState (ResMutation (answer (spec_of cfg) 0 (put_outcome ?n)))) =
      lit ''committed at position '' @ itoa (Suc (length rs)) @ lit '' (profile='' @ profile cfg @ lit '')'' @ [10]"
    by (simp add: ctl_command_def ctl_put_def answer_def put_outcome_def spec_of_def pos del: of_nat_Suc)
  from ctl_run_state [OF assms(1-4) hd(1) p1(1) fit] obtain s1 where
    1: "ctl_run cli ch1 (login cfg @ [lit ''put'', key, val]) s =
        Ret (Inr (lit ''committed at position '' @ itoa (Suc (length rs)) @ lit '' (profile='' @ profile cfg @ lit '')'' @ [10]), s1)"
      and s1: "up s1 (?rs, os)"
    unfolding put fst_conv snd_conv map_sum.simps comp_def p1(2) by blast
  obtain p2 where p2: "ctl_command (namespaceID cfg) ch2 (lit ''get'') [key] = Inr (RpcState ?get, p2)"
    "p2 (AnsState (ResGet \<lparr>gres_Value = val, gres_Version = ?n, gres_Found = True\<rparr>)) =
      val @ [9] @ lit ''(version='' @ itoa (Suc (length rs)) @ lit '')'' @ [10]"
    by (simp add: ctl_command_def ctl_get_def pos del: of_nat_Suc)
  have "request_fits ?get" by simp
  from ctl_run_state [OF assms(1) s1 assms(3,4) hd(2) p2(1) this] obtain s2 where
    "ctl_run cli ch2 (login cfg @ [lit ''get'', key]) s1 =
        Ret (Inr (val @ [9] @ lit ''(version='' @ itoa (Suc (length rs)) @ lit '')'' @ [10]), s2)"
    unfolding get fst_conv snd_conv map_sum.simps comp_def p2(2) by blast
  with 1 show ?thesis by blast
qed

definition sample_client :: "('r, 'c) serving \<Rightarrow> ('r node_state, nat, nat) client" where
  "sample_client sv = \<lparr>cli_tls = tls sample_env, cli_NewClient = (\<lambda>_ _. True), cli_token = [], cli_invoke = (\<lambda>_. node_serve sv)\<rparr>"

definition sample_choices :: choices where
  "sample_choices = \<lparr>ch_now = 0, ch_order = [], ch_created = None, ch_elapsed = 5\<rparr>"

theorem ctl_put_get_witness:
  "\<exists>sv s s1 s2. node_run sample_machine sample_nodeConfig Map.empty = Ret (Inr (sv, s))
    \<and> ctl_run (sample_client sv) sample_choices (login sample_nodeConfig @ [lit ''put'', [0x6b], [0x76]]) s =
      Ret (Inr (lit ''committed at position 1 (profile=cache)'' @ [10]), s1)
    \<and> ctl_run (sample_client sv) sample_choices (login sample_nodeConfig @ [lit ''get'', [0x6b]]) s1 =
      Ret (Inr ([0x76, 9] @ lit ''(version=1)'' @ [10]), s2)"
proof -
  from sample_node_runs obtain sv s where
    run: "node_run sample_machine sample_nodeConfig Map.empty = Ret (Inr (sv, s))" and sv: "runs sample_nodeConfig sv" and s: "up s ([], Map.empty)" by blast
  have cli: "talks_to (sample_client sv) sv" by (simp add: talks_to_def sample_client_def)
  have "authToken sample_nodeConfig \<noteq> []" "[0x6b] \<noteq> ([] :: bytes)" "37 + length [0x6b :: byte] + length [0x76 :: byte] < 2 ^ 32"
    "length ([] :: Record list) < 2 ^ 64 - 1" by simp_all
  from ctl_put_get [OF sv s cli this, of sample_choices sample_choices] obtain s1 s2 where
    1: "ctl_run (sample_client sv) sample_choices (login sample_nodeConfig @ [lit ''put'', [0x6b], [0x76]]) s =
      Ret (Inr (lit ''committed at position '' @ itoa 1 @ lit '' (profile='' @ profile sample_nodeConfig @ lit '')'' @ [10]), s1)"
    and 2: "ctl_run (sample_client sv) sample_choices (login sample_nodeConfig @ [lit ''get'', [0x6b]]) s1 =
      Ret (Inr ([0x76] @ [9] @ lit ''(version='' @ itoa 1 @ lit '')'' @ [10]), s2)"
    unfolding list.size One_nat_def by blast
  have printed: "lit ''committed at position '' @ itoa 1 @ lit '' (profile='' @ profile sample_nodeConfig @ lit '')'' @ [10] =
      lit ''committed at position 1 (profile=cache)'' @ [10]"
    "[0x76] @ [9] @ lit ''(version='' @ itoa 1 @ lit '')'' @ [10] = [0x76, 9] @ lit ''(version=1)'' @ [10]"
    by (simp_all add: itoa.simps sample_nodeConfig_def lit_def)
  show ?thesis using run 1 [unfolded printed] 2 [unfolded printed] by blast
qed

section \<open>Transport security\<close>

text \<open>
  With any of the flags for TLS the client dials with TLS or not at all, it verifies the server unless
  told not to, and a CA file is the only source of trusted roots when one is given.
\<close>

lemma dialCredentials_secure:
  assumes "dialCredentials env useTLS caPath insecureSkipVerify = Inr creds"
    and "useTLS \<or> caPath \<noteq> [] \<or> insecureSkipVerify"
  shows "\<exists>roots. creds = TLSCredentials insecureSkipVerify roots
    \<and> (if caPath = [] then roots = None
        else \<exists>pem. ReadFile env caPath = Some pem \<and> roots = AppendCertsFromPEM env pem \<and> roots \<noteq> None)"
  using assms by (auto simp: dialCredentials_def split: if_splits option.splits)

end
