(* ===== verification/BenchRun.thy ===== *)
theory BenchRun
  imports BenchSpec CtlSpec
begin

text \<open>
  A run of the benchmark, \<^verbatim>\<open>internal/benchmark/runner.go\<close>, as a step relation: the workers, the main goroutine with
  its two timers, and the environment that lets time pass and may cancel the context interleave freely.
  How long a request takes and whether it fails is up to the executor.  Then the executor of
  \<^verbatim>\<open>cmd/uddp-bench/main.go\<close>, which sends the requests to a node.
\<close>

section \<open>The run\<close>

record RunConfig =
  rc_Workload :: WorkloadConfig
  rc_Concurrency :: int
  rc_Warmup :: int
  rc_Duration :: int

record Result =
  res_Config :: RunConfig
  res_Measured :: i64
  res_Stats :: "int \<rightharpoonup> OpStats"

text \<open>
  Where a worker stands in its loop: before the \<^verbatim>\<open>select\<close>, past it, inside \<^verbatim>\<open>Execute\<close> since some time, or
  returned.
\<close>

datatype worker = Ready Generator | Chosen Generator | Executing Generator Request int | Done

text \<open>
  Where the main goroutine stands: waiting for the warm-up timer started at some time; past it, with
  \<^verbatim>\<open>measuredStart\<close>; waiting for the duration timer; past it, with the measured time; waiting for the workers; returned.
\<close>

datatype phase =
    Warming int
  | Starting int
  | Measuring int int
  | Closing int
  | Joining int
  | Finished Result

record bench_state =
  bs_workers :: "worker list"
  bs_rec :: Recorder
  bs_stop :: bool
  bs_cancelled :: bool
  bs_now :: int
  bs_phase :: phase

text \<open>What a step does to the recorder; the environment's steps are told apart from the program's.\<close>

datatype event = Env | Silent | WarmsUp | Records int i64 bool

fun apply_event :: "Recorder \<Rightarrow> event \<Rightarrow> Recorder" where
  "apply_event r WarmsUp = SetWarmedUp r"
| "apply_event r (Records op d failed) = rec_Record op d failed r"
| "apply_event r _ = r"

fun start_workers :: "(int \<Rightarrow> source) \<Rightarrow> WorkloadConfig \<Rightarrow> int list \<Rightarrow> worker list go" where
  "start_workers NewSource cfg [] = Ret []"
| "start_workers NewSource cfg (seed # seeds) =
     go_bind (NewGenerator NewSource cfg seed) (\<lambda>g.
     go_bind (start_workers NewSource cfg seeds) (\<lambda>ws. Ret (Ready g # ws)))"

definition bench_init :: "(int \<Rightarrow> source) \<Rightarrow> RunConfig \<Rightarrow> int \<Rightarrow> bench_state go" where
  "bench_init NewSource cfg now =
     go_bind (start_workers NewSource (rc_Workload cfg) (map (\<lambda>i. int i + 1) [0..<nat (rc_Concurrency cfg)])) (\<lambda>ws.
       Ret \<lparr>bs_workers = ws, bs_rec = NewRecorder, bs_stop = False, bs_cancelled = False, bs_now = now, bs_phase = Warming now\<rparr>)"

definition set_worker :: "nat \<Rightarrow> worker \<Rightarrow> bench_state \<Rightarrow> bench_state" where
  "set_worker i w s = s\<lparr>bs_workers := (bs_workers s)[i := w]\<rparr>"

inductive worker_step :: "bench_state \<Rightarrow> nat \<Rightarrow> event \<Rightarrow> bench_state \<Rightarrow> bool" for s i where
  worker_stops: "bs_workers s ! i = Ready g \<Longrightarrow> bs_stop s \<or> bs_cancelled s \<Longrightarrow> worker_step s i Silent (set_worker i Done s)"
| worker_goes: "bs_workers s ! i = Ready g \<Longrightarrow> \<not> bs_stop s \<Longrightarrow> \<not> bs_cancelled s \<Longrightarrow> worker_step s i Silent (set_worker i (Chosen g) s)"
| worker_begins: "bs_workers s ! i = Chosen g \<Longrightarrow> gen_Next g = Some (req, g1)
    \<Longrightarrow> worker_step s i Silent (set_worker i (Executing g1 req (bs_now s)) s)"
| worker_records: "bs_workers s ! i = Executing g req start \<Longrightarrow> d = of_int (bs_now s - start)
    \<Longrightarrow> worker_step s i (Records (rq_Op req) d failed) (set_worker i (Ready g) (s\<lparr>bs_rec := rec_Record (rq_Op req) d failed (bs_rec s)\<rparr>))"

inductive main_step :: "RunConfig \<Rightarrow> bench_state \<Rightarrow> event \<Rightarrow> bench_state \<Rightarrow> bool" for cfg s where
  warmup_over: "bs_phase s = Warming t \<Longrightarrow> t + rc_Warmup cfg \<le> bs_now s \<Longrightarrow> main_step cfg s Silent (s\<lparr>bs_phase := Starting (bs_now s)\<rparr>)"
| warmup_cancelled: "bs_phase s = Warming t \<Longrightarrow> bs_cancelled s \<Longrightarrow> main_step cfg s Silent (s\<lparr>bs_stop := True, bs_phase := Joining 0\<rparr>)"
| measuring: "bs_phase s = Starting t
    \<Longrightarrow> main_step cfg s WarmsUp (s\<lparr>bs_rec := SetWarmedUp (bs_rec s), bs_phase := Measuring t (bs_now s)\<rparr>)"
| duration_over: "bs_phase s = Measuring t t1 \<Longrightarrow> t1 + rc_Duration cfg \<le> bs_now s \<or> bs_cancelled s
    \<Longrightarrow> main_step cfg s Silent (s\<lparr>bs_phase := Closing (bs_now s - t)\<rparr>)"
| closes: "bs_phase s = Closing m \<Longrightarrow> main_step cfg s Silent (s\<lparr>bs_stop := True, bs_phase := Joining m\<rparr>)"
| returns_result: "bs_phase s = Joining m \<Longrightarrow> set (bs_workers s) \<subseteq> {Done} \<Longrightarrow> ops_order (bs_rec s) ops \<Longrightarrow> rec_Compute (bs_rec s) ops = Ret stats
    \<Longrightarrow> main_step cfg s Silent (s\<lparr>bs_phase := Finished \<lparr>res_Config = cfg, res_Measured = of_int m, res_Stats = stats\<rparr>\<rparr>)"

inductive bench_step :: "RunConfig \<Rightarrow> bench_state \<Rightarrow> event \<Rightarrow> bench_state \<Rightarrow> bool" for cfg s where
  step_worker: "i < length (bs_workers s) \<Longrightarrow> worker_step s i e s1 \<Longrightarrow> bench_step cfg s e s1"
| step_main: "main_step cfg s e s1 \<Longrightarrow> bench_step cfg s e s1"
| step_tick: "0 \<le> d \<Longrightarrow> bench_step cfg s Env (s\<lparr>bs_now := bs_now s + d\<rparr>)"
| step_cancel: "bench_step cfg s Env (s\<lparr>bs_cancelled := True\<rparr>)"

inductive bench_steps :: "RunConfig \<Rightarrow> bench_state \<Rightarrow> event list \<Rightarrow> bench_state \<Rightarrow> bool" for cfg s where
  steps_none: "bench_steps cfg s [] s"
| steps_more: "bench_steps cfg s es s1 \<Longrightarrow> bench_step cfg s1 e s2 \<Longrightarrow> bench_steps cfg s (es @ [e]) s2"

inductive_cases worker_stepE: "worker_step s i e s1"
inductive_cases main_stepE: "main_step cfg s e s1"
inductive_cases bench_stepE: "bench_step cfg s e s1"

section \<open>What is counted\<close>

text \<open>The completed requests of a run that were recorded after the warm-up.\<close>

fun measured_events :: "event list \<Rightarrow> event list" where
  "measured_events [] = []"
| "measured_events (WarmsUp # es) = es"
| "measured_events (_ # es) = measured_events es"

definition latencies :: "event list \<Rightarrow> int \<Rightarrow> i64 list" where
  "latencies es op = concat (map (\<lambda>e. case e of Records op1 d failed \<Rightarrow> if op1 = op \<and> \<not> failed then [d] else [] | _ \<Rightarrow> []) es)"

definition failures :: "event list \<Rightarrow> int \<Rightarrow> nat" where
  "failures es op = length (filter (\<lambda>e. \<exists>d. e = Records op d True) es)"

definition recorder_of :: "event list \<Rightarrow> Recorder" where
  "recorder_of es = foldl apply_event NewRecorder es"

lemma latencies_simps:
  "latencies [] op = []"
  "latencies (e # es) op = latencies [e] op @ latencies es op"
  "latencies [Records op1 d failed] op = (if op1 = op \<and> \<not> failed then [d] else [])"
  "latencies [Env] op = []" "latencies [Silent] op = []" "latencies [WarmsUp] op = []"
  by (simp_all add: latencies_def)

lemma failures_simps:
  "failures [] op = 0"
  "failures (e # es) op = failures [e] op + failures es op"
  "failures [Records op1 d failed] op = (if op1 = op \<and> failed then 1 else 0)"
  "failures [Env] op = 0" "failures [Silent] op = 0" "failures [WarmsUp] op = 0"
  by (simp_all add: failures_def)

lemma apply_event_warm:
  assumes "rec_warmedUp r"
  shows "rec_warmedUp (apply_event r e)"
    "samples_of (apply_event r e) op = samples_of r op @ latencies [e] op"
    "errors_of (apply_event r e) op = errors_of r op + failures [e] op"
    "dom (rec_samples (apply_event r e)) = dom (rec_samples r) \<union> {op. latencies [e] op \<noteq> []}"
    "dom (rec_errors (apply_event r e)) = dom (rec_errors r) \<union> {op. failures [e] op \<noteq> 0}"
  using assms by (cases e; auto simp: SetWarmedUp_def rec_Record_def samples_of_def errors_of_def latencies_simps(3-) failures_simps(3-))+

lemma recorder_warm:
  assumes "rec_warmedUp r"
  shows "samples_of (foldl apply_event r es) op = samples_of r op @ latencies es op
    \<and> errors_of (foldl apply_event r es) op = errors_of r op + failures es op
    \<and> dom (rec_samples (foldl apply_event r es)) = dom (rec_samples r) \<union> {op. latencies es op \<noteq> []}
    \<and> dom (rec_errors (foldl apply_event r es)) = dom (rec_errors r) \<union> {op. failures es op \<noteq> 0}"
  using assms
proof (induction es arbitrary: r)
  case (Cons e es)
  from Cons.IH [OF apply_event_warm(1) [OF Cons.prems]] show ?case
    unfolding foldl_Cons latencies_simps(2) [of e es] failures_simps(2) [of e es] apply_event_warm(2-) [OF Cons.prems] by auto
qed (simp add: latencies_simps failures_simps)

lemma recorder_cold: "\<not> rec_warmedUp r \<Longrightarrow> WarmsUp \<notin> set es \<Longrightarrow> foldl apply_event r es = r"
proof (induction es)
  case (Cons e es)
  then show ?case by (cases e) (auto simp: rec_Record_def)
qed simp

lemma recorder_of_measured:
  "samples_of (recorder_of es) op = latencies (measured_events es) op"
  "errors_of (recorder_of es) op = failures (measured_events es) op"
  "dom (rec_samples (recorder_of es)) = {op. latencies (measured_events es) op \<noteq> []}"
  "dom (rec_errors (recorder_of es)) = {op. failures (measured_events es) op \<noteq> 0}"
proof -
  have warm: "rec_warmedUp (SetWarmedUp NewRecorder)" by (simp add: SetWarmedUp_def)
  have start: "samples_of (SetWarmedUp NewRecorder) op = []" "errors_of (SetWarmedUp NewRecorder) op = 0"
    "rec_samples (SetWarmedUp NewRecorder) = Map.empty" "rec_errors (SetWarmedUp NewRecorder) = Map.empty"
    "samples_of NewRecorder op = []" "errors_of NewRecorder op = 0" "rec_samples NewRecorder = Map.empty" "rec_errors NewRecorder = Map.empty" for op
    by (simp_all add: SetWarmedUp_def NewRecorder_def samples_of_def errors_of_def)
  have cold: "rec_Record op1 d failed NewRecorder = NewRecorder" for op1 d failed by (simp add: rec_Record_def NewRecorder_def)
  have "samples_of (recorder_of es) op = latencies (measured_events es) op
    \<and> errors_of (recorder_of es) op = failures (measured_events es) op
    \<and> dom (rec_samples (recorder_of es)) = {op. latencies (measured_events es) op \<noteq> []}
    \<and> dom (rec_errors (recorder_of es)) = {op. failures (measured_events es) op \<noteq> 0}" for op
    unfolding recorder_of_def
  proof (induction es rule: measured_events.induct)
    case (2 es)
    show ?case using recorder_warm [OF warm, of es op] by (simp add: start)
  qed (simp_all add: start cold latencies_simps(1) failures_simps(1))
  then show "samples_of (recorder_of es) op = latencies (measured_events es) op"
    "errors_of (recorder_of es) op = failures (measured_events es) op"
    "dom (rec_samples (recorder_of es)) = {op. latencies (measured_events es) op \<noteq> []}"
    "dom (rec_errors (recorder_of es)) = {op. failures (measured_events es) op \<noteq> 0}" by blast+
qed

lemma op_stats_counts: "op_stats xs e = Ret st \<Longrightarrow> st_Count st = length xs \<and> st_Errors st = e"
  using op_stats_returns [OF _ refl, of xs e] op_stats_empty [of e] by (cases "xs = []") auto

section \<open>The invariant of a run\<close>

text \<open>The run started at \<open>t0\<close>; the clock does not go back.\<close>

fun phase_inv :: "RunConfig \<Rightarrow> int \<Rightarrow> bench_state \<Rightarrow> phase \<Rightarrow> bool" where
  "phase_inv cfg t0 s (Warming t) \<longleftrightarrow> \<not> bs_stop s \<and> t0 \<le> bs_now s"
| "phase_inv cfg t0 s (Starting t) \<longleftrightarrow> \<not> bs_stop s \<and> t0 \<le> t \<and> t \<le> bs_now s"
| "phase_inv cfg t0 s (Measuring t t1) \<longleftrightarrow> \<not> bs_stop s \<and> t0 \<le> t \<and> t \<le> t1 \<and> t1 \<le> bs_now s"
| "phase_inv cfg t0 s (Closing m) \<longleftrightarrow> \<not> bs_stop s \<and> 0 \<le> m \<and> m \<le> bs_now s - t0 \<and> (rc_Duration cfg \<le> m \<or> bs_cancelled s)"
| "phase_inv cfg t0 s (Joining m) \<longleftrightarrow> bs_stop s \<and> 0 \<le> m \<and> m \<le> bs_now s - t0 \<and> (rc_Duration cfg \<le> m \<or> bs_cancelled s)"
| "phase_inv cfg t0 s (Finished res) \<longleftrightarrow> bs_stop s \<and> set (bs_workers s) \<subseteq> {Done} \<and> res_Config res = cfg
     \<and> (\<exists>m ops. res_Measured res = of_int m \<and> 0 \<le> m \<and> m \<le> bs_now s - t0 \<and> (rc_Duration cfg \<le> m \<or> bs_cancelled s)
          \<and> ops_order (bs_rec s) ops \<and> rec_Compute (bs_rec s) ops = Ret (res_Stats res))"

fun worker_inv :: "(int \<Rightarrow> source) \<Rightarrow> WorkloadConfig \<Rightarrow> worker \<Rightarrow> bool" where
  "worker_inv src wl (Ready g) \<longleftrightarrow> gen_source g \<in> range src \<and> gen_cfg g = wl"
| "worker_inv src wl (Chosen g) \<longleftrightarrow> gen_source g \<in> range src \<and> gen_cfg g = wl"
| "worker_inv src wl (Executing g req t) \<longleftrightarrow> gen_source g \<in> range src \<and> gen_cfg g = wl"
| "worker_inv src wl Done \<longleftrightarrow> True"

definition bench_inv :: "(int \<Rightarrow> source) \<Rightarrow> RunConfig \<Rightarrow> int \<Rightarrow> event list \<Rightarrow> bench_state \<Rightarrow> bool" where
  "bench_inv src cfg t0 es s \<longleftrightarrow>
     bs_rec s = recorder_of es \<and> phase_inv cfg t0 s (bs_phase s) \<and> list_all (worker_inv src (rc_Workload cfg)) (bs_workers s)"

lemma recorder_of_snoc: "recorder_of (es @ [e]) = apply_event (recorder_of es) e"
  by (simp add: recorder_of_def)

lemma set_worker_simps [simp]:
  "bs_workers (set_worker i w s) = (bs_workers s)[i := w]" "bs_rec (set_worker i w s) = bs_rec s"
  "bs_stop (set_worker i w s) = bs_stop s" "bs_cancelled (set_worker i w s) = bs_cancelled s"
  "bs_now (set_worker i w s) = bs_now s" "bs_phase (set_worker i w s) = bs_phase s"
  by (simp_all add: set_worker_def)

lemma list_all_update: "list_all P xs \<Longrightarrow> P x \<Longrightarrow> list_all P (xs[i := x])"
  by (auto simp: list_all_iff dest!: set_update_subset_insert [THEN subsetD])

lemma gen_Next_keeps: "gen_Next g = Some (req, g1) \<Longrightarrow> gen_source g1 = gen_source g \<and> gen_cfg g1 = gen_cfg g"
  by (auto simp: gen_Next_def split: option.splits)

lemma start_workers_inv: "start_workers src wl seeds = Ret ws \<Longrightarrow> list_all (worker_inv src wl) ws \<and> length ws = length seeds"
proof (induction seeds arbitrary: ws)
  case (Cons seed seeds)
  from Cons.prems obtain g ws1 where "NewGenerator src wl seed = Ret g" "start_workers src wl seeds = Ret ws1" "ws = Ready g # ws1"
    by (auto elim!: go_bind_RetE)
  with Cons.IH [of ws1] show ?case by (auto simp: NewGenerator_def split: if_splits)
qed simp

lemma bench_init_inv: "bench_init src cfg t = Ret s \<Longrightarrow> bench_inv src cfg t [] s \<and> length (bs_workers s) = nat (rc_Concurrency cfg)"
  by (auto simp: bench_init_def bench_inv_def recorder_of_def elim!: go_bind_RetE dest!: start_workers_inv)

lemma worker_step_inv:
  assumes "bench_inv src cfg t0 es s" and "i < length (bs_workers s)" and "worker_step s i e s1"
  shows "bench_inv src cfg t0 (es @ [e]) s1"
proof -
  have w: "worker_inv src (rc_Workload cfg) (bs_workers s ! i)" using assms(1,2) by (simp add: bench_inv_def list_all_length)
  have busy: "phase_inv cfg t0 s1 (bs_phase s1)" if "bs_workers s ! i \<noteq> Done" "bs_phase s1 = bs_phase s" "bs_stop s1 = bs_stop s"
    "bs_cancelled s1 = bs_cancelled s" "bs_now s1 = bs_now s"
    using assms(1) that nth_mem [OF assms(2)] by (cases "bs_phase s") (auto simp: bench_inv_def)
  from assms(3) show ?thesis
    by cases (use assms(1) w busy in \<open>auto simp: bench_inv_def recorder_of_snoc dest: gen_Next_keeps intro!: list_all_update\<close>)
qed

lemma main_step_inv:
  assumes "bench_inv src cfg t0 es s" and "main_step cfg s e s1"
  shows "bench_inv src cfg t0 (es @ [e]) s1"
  using assms(2) by cases (use assms(1) in \<open>auto simp: bench_inv_def recorder_of_snoc\<close>)

lemma phase_inv_env:
  assumes "phase_inv cfg t0 s p" and "0 \<le> d" and "bs_cancelled s \<longrightarrow> c"
  shows "phase_inv cfg t0 (s\<lparr>bs_now := bs_now s + d, bs_cancelled := c\<rparr>) p"
proof (cases p)
  case (Finished res)
  with assms(1) obtain m ops where "res_Measured res = of_int m" "0 \<le> m" "m \<le> bs_now s - t0" "rc_Duration cfg \<le> m \<or> bs_cancelled s"
    "ops_order (bs_rec s) ops" "rec_Compute (bs_rec s) ops = Ret (res_Stats res)" by auto
  with assms Finished show ?thesis by (auto intro!: exI [of _ m])
qed (use assms in auto)

lemma bench_step_inv:
  assumes "bench_inv src cfg t0 es s" and "bench_step cfg s e s1"
  shows "bench_inv src cfg t0 (es @ [e]) s1"
  using assms(2)
proof cases
  case (step_tick d)
  with assms(1) phase_inv_env [of cfg t0 s "bs_phase s" d "bs_cancelled s"] show ?thesis
    by (simp add: bench_inv_def recorder_of_snoc)
next
  case step_cancel
  with assms(1) phase_inv_env [of cfg t0 s "bs_phase s" 0 True] show ?thesis by (simp add: bench_inv_def recorder_of_snoc)
qed (use assms(1) in \<open>blast intro: worker_step_inv main_step_inv\<close>)+

lemma bench_steps_inv:
  assumes "bench_steps cfg s0 es s" and "bench_inv src cfg t0 [] s0"
  shows "bench_inv src cfg t0 es s"
  using assms by (induction rule: bench_steps.induct) (auto intro: bench_step_inv)

text \<open>
  C26. The benchmark reports what happened: in every interleaving of any number of workers, however long the requests take
  and whichever of them fail, the result that \<^verbatim>\<open>Run\<close> returns counts for each operation exactly the requests that succeeded and
  those that failed among the ones recorded after the warm-up, and none recorded before; for a run of less than \<open>2 ^ 63\<close>
  nanoseconds the measured time is not negative, is no longer than the run, and is at least the configured duration
  unless the context was cancelled.
\<close>

theorem bench_Run_counts:
  assumes "bench_init src cfg t = Ret s0" and "bench_steps cfg s0 es s" and "bs_phase s = Finished res"
  shows "res_Config res = cfg
    \<and> (bs_now s - t < 2 ^ 63 \<longrightarrow> 0 \<le> sint (res_Measured res) \<and> sint (res_Measured res) \<le> bs_now s - t
         \<and> (rc_Duration cfg \<le> sint (res_Measured res) \<or> bs_cancelled s))
    \<and> (\<forall>op. map_option (\<lambda>st. (st_Count st, st_Errors st)) (res_Stats res op) =
         (let n = length (latencies (measured_events es) op); k = failures (measured_events es) op in
          if n = 0 \<and> k = 0 then None else Some (n, k)))"
proof -
  have "bench_inv src cfg t es s" using assms(1,2) bench_init_inv bench_steps_inv by blast
  then obtain m ops where inv: "bs_rec s = recorder_of es" "res_Config res = cfg" "res_Measured res = of_int m"
    "0 \<le> m" "m \<le> bs_now s - t" "rc_Duration cfg \<le> m \<or> bs_cancelled s" "ops_order (recorder_of es) ops" "rec_Compute (recorder_of es) ops = Ret (res_Stats res)"
    using assms(3) by (auto simp: bench_inv_def)
  obtain st where st: "rec_Compute (recorder_of es) ops = Ret (\<lambda>op. if op \<in> set ops then Some (st op) else None)"
    "\<And>op. op_stats (samples_of (recorder_of es) op) (errors_of (recorder_of es) op) = Ret (st op)"
    by (rule rec_Compute_lookup [of "recorder_of es" ops]) (rule that)
  have stats: "res_Stats res = (\<lambda>op. if op \<in> set ops then Some (st op) else None)" using inv(8) st(1) by simp
  have "set ops = {op. latencies (measured_events es) op \<noteq> []} \<union> {op. failures (measured_events es) op \<noteq> 0}"
    using inv(7) by (simp add: ops_order_def recorder_of_measured)
  moreover have "sint (res_Measured res) = m" if "bs_now s - t < 2 ^ 63"
    using inv(3-5) that sint_of_nat_64 [of "nat m"] by (simp add: nat_less_iff)
  ultimately show ?thesis
    using inv(2-6) op_stats_counts [OF st(2)] by (auto simp: stats recorder_of_measured Let_def)
qed

section \<open>The end of a run\<close>

text \<open>What a worker still does after \<^verbatim>\<open>stop\<close> is closed: steps, and requests it completes.\<close>

fun worker_rest :: "worker \<Rightarrow> nat" where
  "worker_rest (Ready g) = 1"
| "worker_rest (Chosen g) = 3"
| "worker_rest (Executing g req t) = 2"
| "worker_rest Done = 0"

fun in_flight :: "worker \<Rightarrow> nat" where
  "in_flight (Chosen g) = 1"
| "in_flight (Executing g req t) = 1"
| "in_flight _ = 0"

definition steps_left :: "bench_state \<Rightarrow> nat" where
  "steps_left s = sum_list (map worker_rest (bs_workers s)) + (case bs_phase s of Finished _ \<Rightarrow> 0 | _ \<Rightarrow> 1)"

definition requests_left :: "bench_state \<Rightarrow> nat" where
  "requests_left s = sum_list (map in_flight (bs_workers s))"

definition stopping :: "bench_state \<Rightarrow> bool" where
  "stopping s \<longleftrightarrow> bs_stop s \<and> ((\<exists>m. bs_phase s = Joining m) \<or> (\<exists>res. bs_phase s = Finished res))"

fun is_record :: "event \<Rightarrow> bool" where
  "is_record (Records op d failed) \<longleftrightarrow> True"
| "is_record _ \<longleftrightarrow> False"

lemma sum_list_map_update:
  "i < length xs \<Longrightarrow> sum_list (map f (xs[i := x])) + f (xs ! i) = sum_list (map f xs) + (f x :: nat)"
proof (induction xs arbitrary: i)
  case (Cons y xs)
  then show ?case by (cases i) auto
qed simp

lemma stopping_step:
  assumes "stopping s" and "bench_step cfg s e s1"
  shows "stopping s1 \<and> steps_left s1 + of_bool (e \<noteq> Env) \<le> steps_left s \<and> requests_left s1 + of_bool (is_record e) \<le> requests_left s"
  using assms(2)
proof cases
  case (step_worker i)
  have moved: "steps_left (set_worker i w s) + worker_rest (bs_workers s ! i) = steps_left s + worker_rest w"
    "requests_left (set_worker i w s) + in_flight (bs_workers s ! i) = requests_left s + in_flight w" for w
    using sum_list_map_update [OF step_worker(1), of worker_rest w] sum_list_map_update [OF step_worker(1), of in_flight w]
    by (simp_all add: steps_left_def requests_left_def)
  have recorded: "steps_left (set_worker i w (s\<lparr>bs_rec := r\<rparr>)) = steps_left (set_worker i w s)"
    "requests_left (set_worker i w (s\<lparr>bs_rec := r\<rparr>)) = requests_left (set_worker i w s)"
    "stopping (set_worker i w (s\<lparr>bs_rec := r\<rparr>))" "stopping (set_worker i w s)" for w r
    using assms(1) by (simp_all add: steps_left_def requests_left_def stopping_def)
  from step_worker(2) show ?thesis
  proof cases
    case (worker_stops g)
    with moved [of Done] recorded show ?thesis by simp
  next
    case (worker_goes g)
    with assms(1) show ?thesis by (simp add: stopping_def)
  next
    case (worker_begins g req g1)
    with moved [of "Executing g1 req (bs_now s)"] recorded show ?thesis by simp
  next
    case (worker_records g req start d failed)
    with moved [of "Ready g"] recorded show ?thesis by simp
  qed
next
  case step_main
  then show ?thesis by cases (use assms(1) in \<open>auto simp: stopping_def steps_left_def requests_left_def\<close>)
qed (use assms(1) in \<open>auto simp: stopping_def steps_left_def requests_left_def\<close>)

lemma stopping_steps:
  assumes "bench_steps cfg s es s1" and "stopping s"
  shows "stopping s1 \<and> steps_left s1 + length (filter (\<lambda>e. e \<noteq> Env) es) \<le> steps_left s
    \<and> requests_left s1 + length (filter is_record es) \<le> requests_left s"
  using assms
proof (induction rule: bench_steps.induct)
  case (steps_more es s1 e s2)
  then show ?case using stopping_step [of s1 cfg e s2] by (auto simp: of_bool_def split: if_splits)
qed simp

lemma steps_left_le: "steps_left s \<le> 3 * length (bs_workers s) + 1" "requests_left s \<le> length (bs_workers s)"
proof -
  have "sum_list (map worker_rest ws) \<le> 3 * length ws \<and> sum_list (map in_flight ws) \<le> length ws" for ws
  proof (induction ws)
    case (Cons w ws)
    then show ?case by (cases w) auto
  qed simp
  from this [of "bs_workers s"] show "steps_left s \<le> 3 * length (bs_workers s) + 1" "requests_left s \<le> length (bs_workers s)"
    by (auto simp: steps_left_def requests_left_def split: phase.split)
qed

lemma bench_inv_stopping: "bench_inv src cfg t0 es s \<Longrightarrow> bs_stop s \<Longrightarrow> stopping s"
  by (cases "bs_phase s") (auto simp: bench_inv_def stopping_def)

lemma finite_recorder: "finite (dom (rec_samples (recorder_of es))) \<and> finite (dom (rec_errors (recorder_of es)))"
proof (induction es rule: rev_induct)
  case Nil
  show ?case by (simp add: recorder_of_def NewRecorder_def)
next
  case (snoc e es)
  then show ?case by (cases e) (auto simp: recorder_of_snoc SetWarmedUp_def rec_Record_def)
qed

lemma finite_order: "\<exists>ops stats. ops_order (recorder_of es) ops \<and> rec_Compute (recorder_of es) ops = Ret stats"
proof -
  have "finite (dom (rec_samples (recorder_of es)) \<union> dom (rec_errors (recorder_of es)))" using finite_recorder [of es] by simp
  from finite_distinct_list [OF this] obtain ops where "ops_order (recorder_of es) ops" by (auto simp: ops_order_def)
  then show ?thesis by (metis rec_Compute_lookup)
qed

lemma bench_progress:
  assumes "bench_inv src cfg t0 es s" and "stopping s" and "\<And>seed. fair (src seed) \<and> Int63_range (src seed)"
    and "KeyCardinality (rc_Workload cfg) < 2 ^ 63" and "\<And>res. bs_phase s \<noteq> Finished res"
  shows "\<exists>e s1. e \<noteq> Env \<and> bench_step cfg s e s1"
proof (cases "set (bs_workers s) \<subseteq> {Done}")
  case True
  from finite_order [of es] obtain ops stats where "ops_order (bs_rec s) ops" "rec_Compute (bs_rec s) ops = Ret stats"
    using assms(1) by (auto simp: bench_inv_def)
  with True assms(2,5) show ?thesis by (auto simp: stopping_def intro: step_main returns_result)
next
  case False
  then obtain w where "w \<in> set (bs_workers s)" "w \<noteq> Done" by blast
  then obtain i where i: "i < length (bs_workers s)" "bs_workers s ! i \<noteq> Done" by (auto simp: in_set_conv_nth)
  have inv: "worker_inv src (rc_Workload cfg) (bs_workers s ! i)" using assms(1) i(1) by (simp add: bench_inv_def list_all_length)
  have "\<exists>e s1. e \<noteq> Env \<and> worker_step s i e s1"
  proof (cases "bs_workers s ! i")
    case (Ready g)
    with assms(2) worker_stops show ?thesis by (metis event.distinct(1) stopping_def)
  next
    case (Chosen g)
    with inv assms(3,4) gen_Next_spec [of g] obtain req g1 where "gen_Next g = Some (req, g1)" by auto
    with Chosen worker_begins show ?thesis by (metis event.distinct(1))
  next
    case (Executing g req start)
    with worker_records show ?thesis by (metis event.distinct(5))
  qed (use i(2) in simp)
  with i(1) step_worker show ?thesis by metis
qed

text \<open>
  C36. A run of the benchmark ends: once \<^verbatim>\<open>stop\<close> is closed, the workers and the main goroutine take at most three steps per worker
  and one more, whatever the schedule, and at most one request per worker is still recorded; as long as \<^verbatim>\<open>Run\<close> has not
  returned, some step is possible, so that it returns.  This holds for every source of random numbers on which drawing ends.
\<close>

theorem bench_Run_ends:
  assumes "bench_init src cfg t = Ret s0" and "bench_steps cfg s0 es s" and "bs_stop s"
    and "\<And>seed. fair (src seed) \<and> Int63_range (src seed)" and "KeyCardinality (rc_Workload cfg) < 2 ^ 63"
    and "bench_steps cfg s es1 s1"
  shows "length (filter (\<lambda>e. e \<noteq> Env) es1) \<le> 3 * length (bs_workers s) + 1
    \<and> length (filter is_record es1) \<le> length (bs_workers s)
    \<and> ((\<exists>res. bs_phase s1 = Finished res) \<or> (\<exists>e s2. e \<noteq> Env \<and> bench_step cfg s1 e s2))"
proof -
  have inv: "bench_inv src cfg t es s" using assms(1,2) bench_init_inv bench_steps_inv by blast
  have stop: "stopping s" using bench_inv_stopping [OF inv assms(3)] .
  have bound: "length (filter (\<lambda>e. e \<noteq> Env) es1) \<le> 3 * length (bs_workers s) + 1" "length (filter is_record es1) \<le> length (bs_workers s)"
    using stopping_steps [OF assms(6) stop] steps_left_le [of s] by auto
  have "bench_inv src cfg t (es @ es1) s1" using assms(6) inv
    by (induction rule: bench_steps.induct) (auto intro: bench_step_inv simp flip: append_assoc)
  from bench_progress [OF this _ assms(4,5)] stopping_steps [OF assms(6) stop] bound show ?thesis by blast
qed

section \<open>A sample run\<close>

text \<open>One worker completes one read; then the time is over, \<^verbatim>\<open>stop\<close> is closed, and the run returns.\<close>

definition sample_run :: RunConfig where
  "sample_run = \<lparr>rc_Workload = sample_workload, rc_Concurrency = 1, rc_Warmup = 0, rc_Duration = 0\<rparr>"

definition sample_bench :: "worker \<Rightarrow> Recorder \<Rightarrow> bool \<Rightarrow> int \<Rightarrow> phase \<Rightarrow> bench_state" where
  "sample_bench w r stop now ph = \<lparr>bs_workers = [w], bs_rec = r, bs_stop = stop, bs_cancelled = False, bs_now = now, bs_phase = ph\<rparr>"

lemma steps_front: "bench_steps cfg s1 es s2 \<Longrightarrow> bench_step cfg s e s1 \<Longrightarrow> bench_steps cfg s (e # es) s2"
proof (induction rule: bench_steps.induct)
  case steps_none
  then show ?case using bench_steps.steps_more [OF bench_steps.steps_none, of cfg s e s1] by simp
next
  case (steps_more es s2 e1 s3)
  then show ?case using bench_steps.steps_more [of cfg s "e # es" s2 e1 s3] by simp
qed

lemma steps_trans: "bench_steps cfg s1 es1 s2 \<Longrightarrow> bench_steps cfg s es s1 \<Longrightarrow> bench_steps cfg s (es @ es1) s2"
  by (induction rule: bench_steps.induct) (auto intro: bench_steps.steps_more simp flip: append_assoc)

lemma sample_worker_step:
  "worker_step (sample_bench w r stop now ph) 0 e s1 \<Longrightarrow> s2 = s1 \<Longrightarrow> bench_step cfg (sample_bench w r stop now ph) e s2"
  by (rule step_worker [of 0]) (simp_all add: sample_bench_def)

lemma sample_steps:
  defines "r \<equiv> SetWarmedUp NewRecorder" and "r1 \<equiv> rec_Record bench_OpGet 7 False (SetWarmedUp NewRecorder)"
  obtains g g1 stats where "bench_init (\<lambda>_ _. 5) sample_run 0 = Ret (sample_bench (Ready g) NewRecorder False 0 (Warming 0))"
    and "bench_steps sample_run (sample_bench (Ready g) NewRecorder False 0 (Warming 0))
      [Silent, WarmsUp, Silent, Silent, Env, Records bench_OpGet 7 False, Silent, Silent] (sample_bench (Ready g1) r1 True 7 (Joining 7))"
    and "bench_steps sample_run (sample_bench (Ready g1) r1 True 7 (Joining 7)) [Silent, Silent]
      (sample_bench Done r1 True 7 (Finished \<lparr>res_Config = sample_run, res_Measured = 7, res_Stats = stats\<rparr>))"
proof -
  define g where "g = \<lparr>gen_cfg = sample_workload, gen_source = (\<lambda>_. 5), gen_drawn = 0, gen_value = Read_bytes (\<lambda>_. 5) 2\<rparr>"
  have init: "bench_init (\<lambda>_ _. 5) sample_run 0 = Ret (sample_bench (Ready g) NewRecorder False 0 (Warming 0))"
    by (simp add: bench_init_def sample_run_def sample_bench_def NewGenerator_def sample_workload_def make_ok_def maxAlloc_def g_def)
  have "fair (gen_source g)" "Int63_range (gen_source g)" "KeyCardinality (gen_cfg g) < 2 ^ 63" "1 \<le> ReadRatio (gen_cfg g)"
    by (simp_all add: g_def sample_workload_def sample_source)
  from gen_Next_spec [OF this(1-3)] this(4) obtain req g1 where req: "gen_Next g = Some (req, g1)" "rq_Op req = bench_OpGet" by blast
  let ?B = sample_bench
  have 1: "bench_step sample_run (?B (Ready g) NewRecorder False 0 (Warming 0)) Silent (?B (Ready g) NewRecorder False 0 (Starting 0))"
    using warmup_over [of "?B (Ready g) NewRecorder False 0 (Warming 0)" 0 sample_run] by (intro step_main) (simp add: sample_bench_def sample_run_def)
  have 2: "bench_step sample_run (?B (Ready g) NewRecorder False 0 (Starting 0)) WarmsUp (?B (Ready g) r False 0 (Measuring 0 0))"
    using measuring [of "?B (Ready g) NewRecorder False 0 (Starting 0)" 0 sample_run] by (intro step_main) (simp add: sample_bench_def r_def)
  have 3: "bench_step sample_run (?B (Ready g) r False 0 (Measuring 0 0)) Silent (?B (Chosen g) r False 0 (Measuring 0 0))"
    by (rule sample_worker_step [OF worker_goes [of _ _ g]]) (simp_all add: sample_bench_def set_worker_def)
  have 4: "bench_step sample_run (?B (Chosen g) r False 0 (Measuring 0 0)) Silent (?B (Executing g1 req 0) r False 0 (Measuring 0 0))"
    by (rule sample_worker_step [OF worker_begins [OF _ req(1)]]) (simp_all add: sample_bench_def set_worker_def)
  have 5: "bench_step sample_run (?B (Executing g1 req 0) r False 0 (Measuring 0 0)) Env (?B (Executing g1 req 0) r False 7 (Measuring 0 0))"
    using step_tick [of 7 sample_run "?B (Executing g1 req 0) r False 0 (Measuring 0 0)"] by (simp add: sample_bench_def)
  have 6: "bench_step sample_run (?B (Executing g1 req 0) r False 7 (Measuring 0 0)) (Records bench_OpGet 7 False) (?B (Ready g1) r1 False 7 (Measuring 0 0))"
    unfolding req(2) [symmetric]
    by (rule sample_worker_step [OF worker_records [of _ _ g1 req 0]]) (simp_all add: sample_bench_def set_worker_def r1_def r_def req(2))
  have 7: "bench_step sample_run (?B (Ready g1) r1 False 7 (Measuring 0 0)) Silent (?B (Ready g1) r1 False 7 (Closing 7))"
    using duration_over [of "?B (Ready g1) r1 False 7 (Measuring 0 0)" 0 0 sample_run] by (intro step_main) (simp add: sample_bench_def sample_run_def)
  have 8: "bench_step sample_run (?B (Ready g1) r1 False 7 (Closing 7)) Silent (?B (Ready g1) r1 True 7 (Joining 7))"
    using closes [of "?B (Ready g1) r1 False 7 (Closing 7)" 7 sample_run] by (intro step_main) (simp add: sample_bench_def)
  have 9: "bench_step sample_run (?B (Ready g1) r1 True 7 (Joining 7)) Silent (?B Done r1 True 7 (Joining 7))"
    by (rule sample_worker_step [OF worker_stops [of _ _ g1]]) (simp_all add: sample_bench_def set_worker_def)
  have "r1 = recorder_of [WarmsUp, Records bench_OpGet 7 False]" by (simp add: recorder_of_def r1_def)
  with finite_order obtain ops stats where ops: "ops_order r1 ops" "rec_Compute r1 ops = Ret stats" by metis
  have 10: "bench_step sample_run (?B Done r1 True 7 (Joining 7)) Silent
      (?B Done r1 True 7 (Finished \<lparr>res_Config = sample_run, res_Measured = 7, res_Stats = stats\<rparr>))"
    using returns_result [of "?B Done r1 True 7 (Joining 7)" 7 ops stats sample_run] ops by (intro step_main) (simp add: sample_bench_def)
  show ?thesis
    using that [OF init steps_front [OF steps_front [OF steps_front [OF steps_front [OF steps_front [OF steps_front
      [OF steps_front [OF steps_front [OF steps_none 8] 7] 6] 5] 4] 3] 2] 1] steps_front [OF steps_front [OF steps_none 10] 9]] .
qed

theorem bench_Run_counts_witness:
  "\<exists>s0 es s res. bench_init (\<lambda>_ _. 5) sample_run 0 = Ret s0 \<and> bench_steps sample_run s0 es s \<and> bs_phase s = Finished res
    \<and> map_option (\<lambda>st. (st_Count st, st_Errors st)) (res_Stats res bench_OpGet) = Some (1, 0)
    \<and> rc_Duration sample_run \<le> sint (res_Measured res)"
proof -
  obtain g g1 stats where s: "bench_init (\<lambda>_ _. 5) sample_run 0 = Ret (sample_bench (Ready g) NewRecorder False 0 (Warming 0))"
    "bench_steps sample_run (sample_bench (Ready g) NewRecorder False 0 (Warming 0))
      [Silent, WarmsUp, Silent, Silent, Env, Records bench_OpGet 7 False, Silent, Silent]
      (sample_bench (Ready g1) (rec_Record bench_OpGet 7 False (SetWarmedUp NewRecorder)) True 7 (Joining 7))"
    "bench_steps sample_run (sample_bench (Ready g1) (rec_Record bench_OpGet 7 False (SetWarmedUp NewRecorder)) True 7 (Joining 7)) [Silent, Silent]
      (sample_bench Done (rec_Record bench_OpGet 7 False (SetWarmedUp NewRecorder)) True 7
        (Finished \<lparr>res_Config = sample_run, res_Measured = 7, res_Stats = stats\<rparr>))"
    by (rule sample_steps)
  let ?res = "\<lparr>res_Config = sample_run, res_Measured = 7, res_Stats = stats\<rparr>"
  let ?s = "sample_bench Done (rec_Record bench_OpGet 7 False (SetWarmedUp NewRecorder)) True 7 (Finished ?res)"
  have fin: "bs_phase ?s = Finished ?res" by (simp add: sample_bench_def)
  note run = steps_trans [OF s(3,2)]
  from bench_Run_counts [OF s(1) run fin] have
    "map_option (\<lambda>st. (st_Count st, st_Errors st)) (res_Stats ?res bench_OpGet) = Some (1, 0)
      \<and> rc_Duration sample_run \<le> sint (res_Measured ?res)"
    by (simp add: latencies_def failures_def Let_def sample_bench_def)
  with s(1) run fin show ?thesis by blast
qed

theorem bench_Run_ends_witness:
  "\<exists>s0 es s s1. bench_init (\<lambda>_ _. 5) sample_run 0 = Ret s0 \<and> bench_steps sample_run s0 es s \<and> bs_stop s
    \<and> bench_steps sample_run s [Silent, Silent] s1 \<and> length [Silent, Silent] \<le> 3 * length (bs_workers s) + 1"
proof -
  obtain g g1 stats where s: "bench_init (\<lambda>_ _. 5) sample_run 0 = Ret (sample_bench (Ready g) NewRecorder False 0 (Warming 0))"
    "bench_steps sample_run (sample_bench (Ready g) NewRecorder False 0 (Warming 0))
      [Silent, WarmsUp, Silent, Silent, Env, Records bench_OpGet 7 False, Silent, Silent]
      (sample_bench (Ready g1) (rec_Record bench_OpGet 7 False (SetWarmedUp NewRecorder)) True 7 (Joining 7))"
    "bench_steps sample_run (sample_bench (Ready g1) (rec_Record bench_OpGet 7 False (SetWarmedUp NewRecorder)) True 7 (Joining 7)) [Silent, Silent]
      (sample_bench Done (rec_Record bench_OpGet 7 False (SetWarmedUp NewRecorder)) True 7
        (Finished \<lparr>res_Config = sample_run, res_Measured = 7, res_Stats = stats\<rparr>))"
    by (rule sample_steps)
  have h: "bs_stop (sample_bench (Ready g1) (rec_Record bench_OpGet 7 False (SetWarmedUp NewRecorder)) True 7 (Joining 7))"
    "fair ((\<lambda>_ _. 5) seed) \<and> Int63_range ((\<lambda>_ _. 5) seed)" "KeyCardinality (rc_Workload sample_run) < 2 ^ 63" for seed :: int
    by (simp_all add: sample_bench_def sample_source sample_run_def sample_workload_def)
  from bench_Run_ends [OF s(1,2) h s(3)] s h(1) show ?thesis by fastforce
qed

end
