(* ===== verification/BenchMain.thy ===== *)
theory BenchMain
  imports BenchRun CtlSpec
begin

text \<open>
  The command \<^verbatim>\<open>cmd/uddp-bench/main.go\<close>: its credentials, the executor that sends the generated requests to a node, how
  it is set up from its flags, and the report it makes of a result.  Then a worker against a running node.
\<close>

section \<open>The executor\<close>

datatype bench_error =
    BenchRpc codes
  | UnknownOp int
  | BenchCredentials cred_error
  | BenchDial bytes

record grpcExecutor =
  ex_namespace :: bytes
  ex_token :: bytes

text \<open>The server reads its clock during the request (\<open>now\<close>) and takes some time for it (\<open>elapsed\<close>).\<close>

definition bench_Execute :: "('s, 'c, 'p) client \<Rightarrow> 'p credentials \<Rightarrow> grpcExecutor \<Rightarrow> int \<Rightarrow> int \<Rightarrow> Request \<Rightarrow> 's \<Rightarrow> (bench_error option \<times> 's) go" where
  "bench_Execute cli creds ex now elapsed req s =
     (let call = (\<lambda>r. go_bind (cli_invoke cli creds (outgoing (ex_token ex), elapsed, RpcState r) s) (\<lambda>(res, s1).
            Ret (case res of Inl err \<Rightarrow> Some (BenchRpc err) | Inr _ \<Rightarrow> None, s1))) in
      if rq_Op req = bench_OpGet
        then call (ReqGet now \<lparr>greq_NamespaceId = ex_namespace ex, greq_Key = rq_Key req\<rparr>)
      else if rq_Op req = bench_OpPut
        then call (ReqPut now \<lparr>preq_NamespaceId = ex_namespace ex, preq_Key = rq_Key req, preq_Value = rq_Value req,
                     preq_TtlSeconds = rq_TTLSeconds req, preq_IdempotencyKey = []\<rparr>)
      else Ret (Some (UnknownOp (rq_Op req)), s))"

definition bench_dialCredentials :: "('c, 'p) tls_env \<Rightarrow> bool \<Rightarrow> bytes \<Rightarrow> bool \<Rightarrow> cred_error + 'p credentials" where
  "bench_dialCredentials env useTLS caPath insecureSkipVerify =
     (if \<not> useTLS \<and> caPath = [] \<and> \<not> insecureSkipVerify then Inr Insecure
      else if caPath \<noteq> [] then
        (case ReadFile env caPath of
           None \<Rightarrow> Inl (ReadCA caPath)
         | Some pem \<Rightarrow>
             (case AppendCertsFromPEM env pem of
                None \<Rightarrow> Inl (NoValidCertificates caPath)
              | Some pool \<Rightarrow> Inr (TLSCredentials insecureSkipVerify (Some pool))))
      else Inr (TLSCredentials insecureSkipVerify None))"

lemma bench_dialCredentials_same: "bench_dialCredentials = dialCredentials"
  by (simp add: fun_eq_iff bench_dialCredentials_def dialCredentials_def)

section \<open>Setting up\<close>

text \<open>The values of the flags.\<close>

record bench_options =
  opt_addr :: bytes
  opt_namespace :: bytes
  opt_tls :: bool
  opt_tlsCA :: bytes
  opt_insecureSkipVerify :: bool
  opt_token :: bytes
  opt_workload :: WorkloadConfig
  opt_concurrency :: int
  opt_warmup :: int
  opt_duration :: int

definition bench_setup :: "('s, 'c, 'p) client \<Rightarrow> bench_options \<Rightarrow> bench_error + ('p credentials \<times> grpcExecutor \<times> RunConfig)" where
  "bench_setup cli opt =
     (let token = (if opt_token opt = [] then cli_token cli else opt_token opt) in
      case bench_dialCredentials (cli_tls cli) (opt_tls opt) (opt_tlsCA opt) (opt_insecureSkipVerify opt) of
        Inl err \<Rightarrow> Inl (BenchCredentials err)
      | Inr creds \<Rightarrow>
          if \<not> cli_NewClient cli (opt_addr opt) creds then Inl (BenchDial (opt_addr opt))
          else Inr (creds, \<lparr>ex_namespace = opt_namespace opt, ex_token = token\<rparr>,
                 \<lparr>rc_Workload = opt_workload opt, rc_Concurrency = opt_concurrency opt,
                  rc_Warmup = opt_warmup opt, rc_Duration = opt_duration opt\<rparr>))"

text \<open>The report; the environment is what the machine tells of itself, a parameter here.\<close>

record 'e Report =
  rep_Environment :: 'e
  rep_Workload :: WorkloadConfig
  rep_Concurrency :: int
  rep_Warmup :: int
  rep_Duration :: int
  rep_Measured :: i64
  rep_Ops :: "bytes \<rightharpoonup> OpReport"

definition NewReport :: "'e \<Rightarrow> int list \<Rightarrow> Result \<Rightarrow> 'e Report" where
  "NewReport env order result =
     \<lparr>rep_Environment = env, rep_Workload = rc_Workload (res_Config result), rep_Concurrency = rc_Concurrency (res_Config result),
      rep_Warmup = rc_Warmup (res_Config result), rep_Duration = rc_Duration (res_Config result),
      rep_Measured = res_Measured result, rep_Ops = report_ops (res_Stats result) (res_Measured result) order Map.empty\<rparr>"

text \<open>The two operations have different names, so that neither hides the other's report.\<close>

lemma opName_eq: "op1 \<in> {bench_OpGet, bench_OpPut} \<Longrightarrow> op \<in> {bench_OpGet, bench_OpPut} \<Longrightarrow> opName op1 = opName op \<longleftrightarrow> op1 = op"
  by (auto simp: opName_def bench_OpGet_def bench_OpPut_def)

lemma report_ops_lookup:
  assumes "op \<in> {bench_OpGet, bench_OpPut}" and "set order \<subseteq> {bench_OpGet, bench_OpPut}"
  shows "report_ops stats m order out (opName op) =
    (case stats op of Some st \<Rightarrow> if op \<in> set order then Some (op_report st m) else out (opName op) | None \<Rightarrow> out (opName op))"
  using assms
proof (induction order arbitrary: out)
  case (Cons op1 order)
  then have name: "opName op = opName op1 \<longleftrightarrow> op = op1" by (intro opName_eq) simp_all
  have IH: "report_ops stats m order out1 (opName op) =
      (case stats op of Some st \<Rightarrow> if op \<in> set order then Some (op_report st m) else out1 (opName op) | None \<Rightarrow> out1 (opName op))" for out1
    using Cons.prems by (intro Cons.IH) simp_all
  show ?case unfolding report_ops.simps IH by (cases "op = op1"; cases "stats op1") (simp_all add: name split: option.split)
qed (simp split: option.split)

lemma NewReport_ops:
  assumes "op \<in> {bench_OpGet, bench_OpPut}" and "set order = dom (res_Stats result)" and "set order \<subseteq> {bench_OpGet, bench_OpPut}"
  shows "rep_Ops (NewReport env order result) (opName op) = map_option (\<lambda>st. op_report st (res_Measured result)) (res_Stats result op)"
  using report_ops_lookup [OF assms(1,3)] assms(2) by (auto simp: NewReport_def split: option.split)

section \<open>A worker and a node\<close>

text \<open>
  The loop of a worker for so many requests; \<open>clk n\<close> gives the clock reading and the duration of the request
  before which \<open>n\<close> are left.
\<close>

fun worker_loop :: "(nat \<Rightarrow> Request \<Rightarrow> 's \<Rightarrow> (bench_error option \<times> 's) go) \<Rightarrow> nat \<Rightarrow> Generator \<Rightarrow> 's
    \<Rightarrow> ((Request \<times> bench_error option) list \<times> 's) go option" where
  "worker_loop execute 0 g s = Some (Ret ([], s))"
| "worker_loop execute (Suc n) g s =
     (case gen_Next g of
        None \<Rightarrow> None
      | Some (req, g1) \<Rightarrow>
          (case execute n req s of
             Panic \<Rightarrow> Some Panic
           | Ret (err, s1) \<Rightarrow>
               map_option (\<lambda>m. go_bind m (\<lambda>(out, s2). Ret ((req, err) # out, s2))) (worker_loop execute n g1 s1)))"

lemma length_formatKey [simp]: "length (formatKey i) = 9"
proof -
  have "length (hex_digits p j) = p" for p j by (induction p arbitrary: j) simp_all
  then show ?thesis by (simp add: formatKey_def)
qed

lemma formatKey_nonempty [simp]: "formatKey i \<noteq> []"
  by (simp add: formatKey_def)

definition executor_for :: "nodeConfig \<Rightarrow> grpcExecutor" where
  "executor_for cfg = \<lparr>ex_namespace = namespaceID cfg, ex_token = authToken cfg\<rparr>"

text \<open>The pair that a write commits.\<close>

definition written_pairs :: "Request list \<Rightarrow> (bytes \<times> bytes) list" where
  "written_pairs reqs = map (\<lambda>r. (rq_Key r, rq_Value r)) (filter (\<lambda>r. rq_Op r = bench_OpPut) reqs)"

lemma node_accepts:
  assumes "runs cfg sv" and "up s (rs, os)" and "authToken cfg \<noteq> []" and "request_fits r" and "spec_request (spec_of cfg) r rs = (Inr ans, rs1)"
  shows "\<exists>s1. node_serve sv (outgoing (authToken cfg), elapsed, RpcState r) s = Ret (Inr (AnsState ans), s1) \<and> up s1 (rs1, os)"
  using node_serve_spec [OF assms(2,1), of "(outgoing (authToken cfg), elapsed, DataState r)"] assms(4,5) presents_outgoing [OF assms(3)]
  by (simp add: call_fits_def call_of_def spec_call_def)

lemma bench_Execute_node:
  assumes "runs cfg sv" and "up s (rs, os)" and "talks_to cli sv" and "authToken cfg \<noteq> []"
    and "rq_Op req = bench_OpGet \<or> rq_Op req = bench_OpPut" and "rq_Key req \<noteq> []"
    and "37 + length (rq_Key req) + length (rq_Value req) < 2 ^ 32"
  shows "\<exists>s1 rs1. bench_Execute cli creds (executor_for cfg) now elapsed req s = Ret (None, s1) \<and> up s1 (rs @ rs1, os)
    \<and> map (\<lambda>r. (Key r, Value r)) rs1 = written_pairs [req]"
  using assms(5)
proof
  assume op: "rq_Op req = bench_OpGet"
  let ?r = "ReqGet now \<lparr>greq_NamespaceId = namespaceID cfg, greq_Key = rq_Key req\<rparr>"
  obtain ans where "spec_request (spec_of cfg) ?r rs = (Inr ans, rs)" using assms(6) by (simp add: spec_request_def spec_of_def)
  from node_accepts [OF assms(1,2,4) _ this, of elapsed] obtain s1 where
    "node_serve sv (outgoing (authToken cfg), elapsed, RpcState ?r) s = Ret (Inr (AnsState ans), s1)" "up s1 (rs, os)" by auto
  with op assms(3) show ?thesis
    by (simp add: bench_Execute_def executor_for_def talks_to_def written_pairs_def bench_OpGet_def bench_OpPut_def)
next
  assume op: "rq_Op req = bench_OpPut"
  let ?r = "ReqPut now \<lparr>preq_NamespaceId = namespaceID cfg, preq_Key = rq_Key req, preq_Value = rq_Value req,
      preq_TtlSeconds = rq_TTLSeconds req, preq_IdempotencyKey = []\<rparr>"
  let ?rec = "at_end (put_record (rq_Key req) (rq_Value req) (ttl_expiry now (rq_TTLSeconds req)) []) rs"
  obtain ans where "spec_request (spec_of cfg) ?r rs = (Inr ans, rs @ [?rec])"
    using assms(6) by (simp add: spec_request_def spec_of_def spec_once_def spec_replayed_def spec_commit_def)
  moreover have "request_fits ?r" using assms(7) by (simp add: fits_def put_record_def)
  ultimately obtain s1 where
    "node_serve sv (outgoing (authToken cfg), elapsed, RpcState ?r) s = Ret (Inr (AnsState ans), s1)" "up s1 (rs @ [?rec], os)"
    using node_accepts [OF assms(1,2,4), of ?r ans "rs @ [?rec]" elapsed] by auto
  with op assms(3) show ?thesis
    by (intro exI [of _ s1] exI [of _ "[?rec]"])
      (simp add: bench_Execute_def executor_for_def talks_to_def written_pairs_def bench_OpGet_def bench_OpPut_def put_record_def)
qed

lemma worker_loop_node:
  assumes "runs cfg sv" and "talks_to cli sv" and "authToken cfg \<noteq> []" and "up s (rs, os)"
    and "fair (gen_source g)" and "Int63_range (gen_source g)" and "KeyCardinality (gen_cfg g) < 2 ^ 63" and "46 + length (gen_value g) < 2 ^ 32"
  shows "\<exists>out s1 rs1. worker_loop (\<lambda>n. bench_Execute cli creds (executor_for cfg) (now n) (elapsed n)) n g s = Some (Ret (out, s1))
    \<and> length out = n \<and> list_all (\<lambda>(req, err). err = None) out \<and> up s1 (rs @ rs1, os)
    \<and> map (\<lambda>r. (Key r, Value r)) rs1 = written_pairs (map fst out)"
  using assms(4-)
proof (induction n arbitrary: g s rs)
  case 0
  then show ?case by (auto simp: written_pairs_def intro!: exI [of _ "[]"])
next
  case (Suc n)
  from gen_Next_spec [OF Suc.prems(2-4)] obtain req g1 i where
    req: "gen_Next g = Some (req, g1)" "gen_cfg g1 = gen_cfg g" "gen_source g1 = gen_source g" "gen_value g1 = gen_value g" "rq_Key req = formatKey i"
      "rq_Op req = bench_OpGet \<and> rq_Value req = [] \<or> rq_Op req = bench_OpPut \<and> rq_Value req = gen_value g" by blast
  have "rq_Op req = bench_OpGet \<or> rq_Op req = bench_OpPut" "rq_Key req \<noteq> []" "37 + length (rq_Key req) + length (rq_Value req) < 2 ^ 32"
    using req(5,6) Suc.prems(5) length_formatKey [of i] by auto
  from bench_Execute_node [OF assms(1) Suc.prems(1) assms(2,3) this, of creds "now n" "elapsed n"] obtain s1 rs1 where
    1: "bench_Execute cli creds (executor_for cfg) (now n) (elapsed n) req s = Ret (None, s1)" "up s1 (rs @ rs1, os)"
      "map (\<lambda>r. (Key r, Value r)) rs1 = written_pairs [req]" by blast
  from Suc.IH [OF 1(2), of g1, unfolded req(2-4), OF Suc.prems(2-5)] obtain out s2 rs2 where
    2: "worker_loop (\<lambda>n. bench_Execute cli creds (executor_for cfg) (now n) (elapsed n)) n g1 s1 = Some (Ret (out, s2))" "length out = n"
      "list_all (\<lambda>(req, err). err = None) out" "up s2 ((rs @ rs1) @ rs2, os)" "map (\<lambda>r. (Key r, Value r)) rs2 = written_pairs (map fst out)" by (elim exE conjE) (rule that)
  have "map (\<lambda>r. (Key r, Value r)) (rs1 @ rs2) = written_pairs (map fst ((req, None :: bench_error option) # out))"
    using 1(3) 2(5) by (simp add: written_pairs_def)
  with req(1) 1(1) 2 show ?case by (intro exI [of _ "(req, None) # out"] exI [of _ s2] exI [of _ "rs1 @ rs2"]) simp
qed

text \<open>
  C25. A benchmark against a healthy node measures it without errors: with the token and the namespace of a node that runs, every
  request of a worker succeeds, however many it sends, and the node commits exactly the writes, in their order, on
  top of what it had committed before.
\<close>

theorem bench_worker_succeeds:
  assumes "runs cfg sv" and "talks_to cli sv" and "authToken cfg \<noteq> []" and "up s (rs, os)"
    and "NewGenerator src wl seed = Ret g" and "fair (src seed)" and "Int63_range (src seed)" and "KeyCardinality wl < 2 ^ 63" and "46 + ValueSize wl < 2 ^ 32"
  shows "\<exists>out s1 rs1. worker_loop (\<lambda>n. bench_Execute cli creds (executor_for cfg) (now n) (elapsed n)) n g s = Some (Ret (out, s1))
    \<and> length out = n \<and> list_all (\<lambda>(req, err). err = None) out \<and> up s1 (rs @ rs1, os)
    \<and> map (\<lambda>r. (Key r, Value r)) rs1 = written_pairs (map fst out)"
proof (rule worker_loop_node [OF assms(1-4)])
  from assms(5) have g: "g = \<lparr>gen_cfg = wl, gen_source = src seed, gen_drawn = 0, gen_value = Read_bytes (src seed) (nat (ValueSize wl))\<rparr>"
    by (simp add: NewGenerator_def split: if_splits)
  show "fair (gen_source g)" "Int63_range (gen_source g)" "KeyCardinality (gen_cfg g) < 2 ^ 63" using assms(6-8) by (simp_all add: g)
  have "nat (ValueSize wl) < 2 ^ 32 - 46" using assms(9) by (simp add: nat_less_iff)
  then show "46 + length (gen_value g) < 2 ^ 32" by (simp add: g)
qed

theorem bench_worker_succeeds_witness:
  "\<exists>sv s g out s1. node_run sample_machine sample_nodeConfig Map.empty = Ret (Inr (sv, s)) \<and> NewGenerator (\<lambda>_ _. 5) sample_workload 1 = Ret g
    \<and> worker_loop (\<lambda>n. bench_Execute (sample_client sv) Insecure (executor_for sample_nodeConfig) 0 5) 4 g s = Some (Ret (out, s1))
    \<and> length out = 4 \<and> list_all (\<lambda>(req, err). err = None) out"
proof -
  from sample_node_runs obtain sv s where
    run: "node_run sample_machine sample_nodeConfig Map.empty = Ret (Inr (sv, s))" "runs sample_nodeConfig sv" "up s ([], Map.empty)" by blast
  have cli: "talks_to (sample_client sv) sv" "authToken sample_nodeConfig \<noteq> []" by (simp_all add: talks_to_def sample_client_def)
  obtain g where g: "NewGenerator (\<lambda>_ _. 5) sample_workload 1 = Ret g"
    by (simp add: NewGenerator_def sample_workload_def make_ok_def maxAlloc_def)
  have w: "fair ((\<lambda>_ _. 5) (1 :: int))" "Int63_range ((\<lambda>_ _. 5) (1 :: int))" "KeyCardinality sample_workload < 2 ^ 63" "46 + ValueSize sample_workload < 2 ^ 32"
    by (simp_all add: sample_source sample_workload_def)
  from bench_worker_succeeds [OF run(2) cli run(3) g w, of Insecure "\<lambda>_. 0" "\<lambda>_. 5" 4] obtain out s1 where
    "worker_loop (\<lambda>n. bench_Execute (sample_client sv) Insecure (executor_for sample_nodeConfig) 0 5) 4 g s = Some (Ret (out, s1))"
    "length out = 4" "list_all (\<lambda>(req, err). err = None) out" by (elim exE conjE) (rule that)
  with run(1) g show ?thesis by (intro exI [of _ sv] exI [of _ s] exI [of _ g] exI [of _ out] exI [of _ s1]) simp
qed

end
