(* ===== verification/Spec2Isabelle.thy ===== *)
theory Spec2Isabelle
  imports GroupCommit RespSpec BenchMain
begin

text \<open>
  Verification of the Unified Distributed Data Platform: a key-value store and change stream in Go over a
  write-ahead log, served by gRPC and by a subset of the Redis protocol, replicated with raft if configured.

  \<^bold>\<open>The program.\<close>  A node (\<^verbatim>\<open>cmd/uddp-node\<close>) opens an engine (\<^verbatim>\<open>internal/engine\<close>) and a store of consumer offsets
  (\<^verbatim>\<open>internal/streaming\<close>), each of which keeps its state in a log (\<^verbatim>\<open>internal/wal\<close>) and rebuilds it from there.  The services of
  \<^verbatim>\<open>internal/api\<close> (state, stream, administration) check the namespace with the catalog (\<^verbatim>\<open>internal/catalog\<close>) and call the engine, or propose
  a command to raft, whose state machine (\<^verbatim>\<open>internal/replication\<close>) then calls the engine on every node.  Interceptors
  (\<^verbatim>\<open>internal/auth\<close>, \<^verbatim>\<open>internal/observability\<close>) surround each call.  \<^verbatim>\<open>internal/resp\<close> gives Redis clients direct access to the engine,
  \<^verbatim>\<open>internal/backup\<close> writes and reads backup files, \<^verbatim>\<open>cmd/uddpctl\<close> is the command line client, and
  \<^verbatim>\<open>cmd/uddp-bench\<close> with \<^verbatim>\<open>internal/benchmark\<close> puts load on a node and measures it.

  \<^bold>\<open>Modelling.\<close>  A Go struct is a record, an error a constructor of a datatype, a call that may panic has a result of
  type \<open>go\<close>.  \<^verbatim>\<open>uint64\<close> and \<^verbatim>\<open>int64\<close> are 64-bit words.  State is passed explicitly.  A file carries its bytes, how many of them are durable,
  and a script that says which of the next system calls fail and after how many bytes; a crash keeps the durable bytes and any
  number of the others.  Clock readings, the order of a map and files created are arguments of the operations that read them.

  \<^bold>\<open>Theories.\<close>
  \<^item> \<^emph>\<open>Go itself\<close>: \<open>Prelude\<close> (bytes, words, panics, the locales \<open>codec\<close> and \<open>stream_codec\<close>), \<open>GoBinary\<close>, \<open>GoCrc32\<close>, \<open>GoFile\<close>,
    \<open>GoGob\<close> with \<open>SnapshotGob\<close>, \<open>GoSha256\<close>, \<open>GoText\<close>, \<open>GoFlag\<close>, \<open>GoFloat\<close> (numbers of 53 bits, rounding to even), \<open>GoRand\<close>
    (\<^verbatim>\<open>math/rand\<close> over a source of numbers).
  \<^item> \<^emph>\<open>The log\<close>, \<^verbatim>\<open>internal/wal/wal.go\<close>: \<open>WalFormat\<close> (records and frames), \<open>Wal\<close> (\<^verbatim>\<open>Open\<close>, \<^verbatim>\<open>Append\<close>, \<^verbatim>\<open>ReadRange\<close>, \<^verbatim>\<open>Close\<close>), \<open>WalRecovery\<close> (what
    recovery finds after a crash), \<open>WalSpec\<close> (the log as a list of records, damage), \<open>GroupCommit\<close> (concurrent \<^verbatim>\<open>Append\<close> and
    \<^verbatim>\<open>Close\<close> as interleaved steps between the points where the mutex is given up, with the calls asleep in \<^verbatim>\<open>Wait\<close> and the broadcasts that wake them).
  \<^item> \<^emph>\<open>State in a log\<close>: \<open>LogClient\<close> (the locale \<open>log_client\<close>: a callback that applies a record, interpreted for the engine and
    for the offsets), \<open>Engine\<close> and \<open>EngineSpec\<close> (\<^verbatim>\<open>engine.go\<close>), \<open>Offsets\<close> (\<^verbatim>\<open>offsets.go\<close>).
  \<^item> \<^emph>\<open>Services\<close>: \<open>Catalog\<close>, \<open>Rpc\<close> (interceptors, the locale \<open>guard\<close>), \<open>StateServer\<close>, \<open>StreamServer\<close>, \<open>AdminServer\<close>, \<open>Backup\<close>.
  \<^item> \<^emph>\<open>Replication\<close>: \<open>Refinement\<close> (the locale \<open>refinement\<close>: calls against a specification over the committed records), \<open>Fsm\<close> (\<^verbatim>\<open>command.go\<close>,
    \<^verbatim>\<open>fsm.go\<close>), \<open>FsmSpec\<close>, \<open>Replication\<close> (what agreement, snapshots and replay give), \<open>Node\<close> (\<^verbatim>\<open>node.go\<close>, \<^verbatim>\<open>transport.go\<close>).
  \<^item> \<^emph>\<open>Redis\<close>: \<open>Resp\<close> (\<^verbatim>\<open>protocol.go\<close>, \<^verbatim>\<open>server.go\<close>) and \<open>RespSpec\<close>.
  \<^item> \<^emph>\<open>Programs\<close>: \<open>NodeMain\<close> and \<open>NodeSpec\<close> (\<^verbatim>\<open>cmd/uddp-node\<close>), \<open>Ctl\<close> and \<open>CtlSpec\<close> (\<^verbatim>\<open>cmd/uddpctl\<close>), \<open>Bench\<close> and \<open>BenchSpec\<close>
    (\<^verbatim>\<open>workload.go\<close>, \<^verbatim>\<open>stats.go\<close>, \<^verbatim>\<open>report.go\<close>), \<open>BenchRun\<close> (\<^verbatim>\<open>runner.go\<close> as interleaved steps), \<open>BenchMain\<close> (\<^verbatim>\<open>cmd/uddp-bench\<close>).

  \<^bold>\<open>What is shown.\<close>
  \<^item> \<^emph>\<open>Durability.\<close>  What \<^verbatim>\<open>Append\<close> or a mutation acknowledged survives every crash, under every script of faults and every schedule of
    concurrent calls; a crash during an operation leaves it done or not done; a retry with its idempotency key after
    a restart is recognised; damage behind the length field of a record is reported, and \<^verbatim>\<open>Open\<close> returns on any bytes.
  \<^item> \<^emph>\<open>Meaning.\<close>  The engine is a function of its log: \<^verbatim>\<open>Get\<close> answers with the last change, a conditional write commits exactly at the
    current version, the change stream rebuilds the state, a consumer group processes the changes in order, at least once, and
    exactly once if it never stops before a commit.  The state
    service, the Redis adapter and the node over any number of lifetimes refine specifications over the list of committed records.
  \<^item> \<^emph>\<open>Replication and backup.\<close>  Replicas that apply the same commands with clocks that agree on expiry reach the
    state of one specification; an acknowledged put of a replicated node went through raft; commands, snapshots and backup files survive their
    encodings; a file that is accepted with the checksum of a backup has its entries, or their encodings collide under SHA-256; the
    raft listener demands certificates of the configured authority.
  \<^item> \<^emph>\<open>Composition.\<close>  A node with a token answers no call without it, claims no durability it lacks, and takes the configuration its
    command line spells out; the command line client prints what was put; a benchmark
    against a healthy node has no errors, and its result counts exactly what was recorded after the warm-up.
  \<^item> \<^emph>\<open>Progress.\<close>  Group commit has no lost wakeup and a bounded number of steps, those included in which a call is woken in vain; a benchmark run ends after \<^verbatim>\<open>stop\<close>.
  \<^item> \<^emph>\<open>Limits.\<close>  Some lemmas and properties pin down where the code does less than it means to: a fetch from an offset above
    \<open>2 ^ 63\<close> panics, the replay of the raft log can lose an acknowledged conditional write, offsets of consumer groups outlive a
    reset of the log, large TTLs wrap around.

  \<^bold>\<open>Bounds.\<close>  Records have to fit a frame of \<open>2 ^ 32\<close> bytes, and a log has fewer than \<open>2 ^ 64 - 1\<close> records.  The sequence
    numbers and offsets inside a log are natural numbers here, since they count the records and bytes of one process.  No loop of the model has fuel: the loops
    over bytes and records are structural or have a termination proof; the rejection loops of \<open>GoRand\<close> are partial functions, shown to
    return for sources in which small numbers recur.

  \<^bold>\<open>Parameters.\<close>  The raft library, gRPC connections, certificates and certificate pools, the numbers that \<^verbatim>\<open>encoding/gob\<close> gives
  to types, the numbers that a seed gives, and the texts of engine errors are arguments; what is assumed of them is a named
  hypothesis (\<open>healthy\<close>, \<open>registry_ok\<close>, \<open>talks_to\<close>, \<open>fair\<close>, and so on) that a witness instantiates.

  \<^bold>\<open>Not modelled.\<close>
  \<^item> The generated protobuf and gRPC code under \<^verbatim>\<open>api/\<close>; only the method names are used.
  \<^item> The HTTP and health endpoints, the signal handler and the accept loop of the Redis listener: they are I/O around constants or
    around operations that are modelled.
  \<^item> \<^verbatim>\<open>observability.New\<close>, which registers collectors with the Prometheus library, and \<^verbatim>\<open>Dial\<close> of the raft transport, which calls \<^verbatim>\<open>crypto/tls\<close>.
  \<^item> Printing of benchmark reports (\<^verbatim>\<open>WriteText\<close>, \<^verbatim>\<open>WriteJSON\<close>), \<^verbatim>\<open>CaptureEnvironment\<close>, and the parsing of the float and duration flags of \<^verbatim>\<open>uddp-bench\<close>.
  \<^item> Interleavings inside the engine: the operations that hold its mutex are atomic steps here.  \<^verbatim>\<open>Fetch\<close> does not take it, and
    may see a record that another call has buffered or written but not yet synced; here it runs between the other operations.
  \<^item> The deadline of five seconds that \<^verbatim>\<open>uddpctl\<close> sets on its call, and requests of the benchmark that never return.  A worker of
    the benchmark that runs alone is given the number of its requests in place of the \<^verbatim>\<open>select\<close> that ends it; \<open>BenchRun\<close> has the \<^verbatim>\<open>select\<close>.
\<close>

end
